(* ===== verification/Quanta_Prelude.thy ===== *)
theory Quanta_Prelude
  imports Main "HOL-Library.Word" "HOL-Library.Signed_Division"
begin

text \<open>
  Shared vocabulary of the development: the machine-integer types of the C sources, the
  C shift operators, the collections that the component proofs draw on, and the generic
  lemmas on words, bits and function updates that several components need.

  The C types \<open>uint8_t\<close> to \<open>uint64_t\<close> are words of that width, so \<open>+\<close>, \<open>-\<close> and \<open>*\<close> wrap as in C.
  The signed types have the same representation; a signed comparison \<open>(int64_t)a < (int64_t)b\<close>
  is written \<open>sint a < sint b\<close>, a sign-extending cast is \<open>scast\<close> and a zero-extending or
  truncating one \<open>ucast\<close>. The shifts \<open>x << n\<close>, \<open>x >> n\<close> on unsigned values and the arithmetic
  \<open>x >> n\<close> on signed ones are \<open>shl\<close>, \<open>shr\<close> and \<open>sar\<close>; the sources never shift by the width or more.
\<close>

unbundle bit_operations_syntax

type_synonym u8 = "8 word"
type_synonym u16 = "16 word"
type_synonym u32 = "32 word"
type_synonym u64 = "64 word"

text \<open>A block of host memory: byte \<open>i\<close> of the array is the value at index \<open>i\<close>.\<close>

type_synonym bytes = "u64 \<Rightarrow> u8"

definition shl :: "'a::len word \<Rightarrow> nat \<Rightarrow> 'a word" where
  "shl x n = push_bit n x"

definition shr :: "'a::len word \<Rightarrow> nat \<Rightarrow> 'a word" where
  "shr x n = drop_bit n x"

definition sar :: "'a::len word \<Rightarrow> nat \<Rightarrow> 'a word" where
  "sar x n = signed_drop_bit n x"

text \<open>A C truth value stored in an integer.\<close>

definition of_flag :: "bool \<Rightarrow> 'a::len word" where
  "of_flag b = (if b then 1 else 0)"

named_theorems bits \<open>rules that compute single bits of word expressions\<close>
named_theorems evals \<open>rules that evaluate the C operators on numerals\<close>
named_theorems unats \<open>rules that read word expressions as natural numbers\<close>

subsection \<open>Bits of the C operators\<close>

lemma bit_shl [bits]: "bit (shl x n) m \<longleftrightarrow> n \<le> m \<and> m < LENGTH('a) \<and> bit x (m - n)"
  for x :: "'a::len word"
  by (auto simp: shl_def bit_simps)

lemma bit_shr [bits]: "bit (shr x n) m \<longleftrightarrow> bit x (n + m)"
  for x :: "'a::len word"
  by (simp add: shr_def bit_simps)

lemma bit_sar [bits]:
  "bit (sar x n) m \<longleftrightarrow> (if LENGTH('a) - n \<le> m \<and> m < LENGTH('a) then bit x (LENGTH('a) - 1) else bit x (n + m))"
  for x :: "'a::len word"
  by (simp add: sar_def bit_simps)

lemma bit_ucast [bits]: "bit (ucast x :: 'b::len word) m \<longleftrightarrow> m < LENGTH('b) \<and> bit x m"
  for x :: "'a::len word"
  by (simp add: bit_simps)

lemma bit_scast [bits]:
  "bit (scast x :: 'b::len word) m \<longleftrightarrow> m < LENGTH('b) \<and> bit x (min (LENGTH('a) - 1) m)"
  for x :: "'a::len word"
  by (simp add: bit_simps)

lemma bit_flag [bits]: "bit (of_flag b :: 'a::len word) m \<longleftrightarrow> b \<and> m = 0"
  by (auto simp: of_flag_def bit_simps)

lemma bit_beyond [bits]: "LENGTH('a) \<le> n \<Longrightarrow> bit x n = False"
  for x :: "'a::len word"
  using bit_imp_le_length leD by blast

lemmas [bits] = bit_and_iff bit_or_iff bit_xor_iff bit_not_iff bit_take_bit_iff bit_mask_iff

lemma shl_num [evals]:
  "shl (numeral k) n = push_bit n (numeral k)" "shl 0 n = 0" "shl 1 n = push_bit n 1"
  by (simp_all add: shl_def)

lemma shr_num [evals]:
  "shr (numeral k) n = drop_bit n (numeral k)" "shr 0 n = 0" "shr 1 n = drop_bit n 1"
  by (simp_all add: shr_def)

lemma shr_neg [evals]: "shr (- numeral k) n = drop_bit n (- numeral k)"
  by (simp add: shr_def)

lemma sar_num [evals]:
  "sar (numeral k) n = signed_drop_bit n (numeral k)" "sar 0 n = 0"
  by (simp_all add: sar_def)

declare of_flag_def [evals]

subsection \<open>Equality of words, bit by bit\<close>

lemma word_eq_bits: "v = w \<longleftrightarrow> (\<forall>n<LENGTH('a). bit v n = bit w n)"
  for v w :: "'a::len word"
  by (auto intro: bit_word_eqI)

lemma all_less_numeral:
  "(\<forall>n<numeral k. P n) \<longleftrightarrow> (\<forall>n<pred_numeral k. P n) \<and> P (pred_numeral k)"
  by (simp add: numeral_eq_Suc All_less_Suc conj_commute)

lemma all_less_one: "(\<forall>n<(1::nat). P n) \<longleftrightarrow> P 0"
  by simp

lemma suc_numerals: "Suc (Suc 0) = 2" "Suc 2 = 3"
  by simp_all

lemmas bit_blast =
  word_eq_bits all_less_numeral all_less_one suc_numerals bit_signed_take_bit_iff possible_bit_word

lemma and_pow2_eq: "w AND 2 ^ n = (if bit w n then 2 ^ n else 0)"
  for w :: "'a::len word"
  by (rule bit_word_eqI) (auto simp: bit_simps)

lemma and_pow2_neq_0: "w AND 2 ^ n \<noteq> 0 \<longleftrightarrow> bit w n"
  for w :: "'a::len word"
proof (cases "bit w n")
  case True
  then have "n < LENGTH('a)"
    by (rule bit_imp_le_length)
  with True show ?thesis
    by (simp add: and_pow2_eq)
next
  case False
  then show ?thesis
    by (simp add: and_pow2_eq)
qed

lemma bit_above: "x < 2 ^ k \<Longrightarrow> k \<le> n \<Longrightarrow> \<not> bit x n"
  for x :: "'a::len word"
proof -
  assume "x < 2 ^ k" "k \<le> n"
  moreover have "unat (2 ^ k :: 'a word) \<le> 2 ^ k"
    by (metis mod_less_eq_dividend of_nat_numeral of_nat_power unat_of_nat)
  ultimately have "unat x < 2 ^ n"
    by (meson less_le_trans word_less_nat_alt one_le_numeral order_trans power_increasing)
  then have "\<not> bit (unat x) n"
    by (simp add: bit_iff_odd)
  then show "\<not> bit x n"
    by (simp add: bit_unsigned_iff)
qed

subsection \<open>Words as numbers\<close>

lemma unat_shr [unats]: "unat (shr x n) = unat x div 2 ^ n"
  for x :: "'a::len word"
  unfolding shr_def unat_drop_bit_eq by (rule drop_bit_eq_div)

lemma unat_and_mask [unats]: "unat (x AND mask n) = unat x mod 2 ^ n"
  for x :: "'a::len word"
  unfolding take_bit_eq_mask [symmetric] unsigned_take_bit_eq by (simp add: take_bit_eq_mod)

lemma unat_bound: "unat x < 2 ^ LENGTH('a)"
  for x :: "'a::len word"
  by (rule unsigned_less)

lemma unat_ucast_up [unats]: "LENGTH('a) \<le> LENGTH('b) \<Longrightarrow> unat (ucast x :: 'b::len word) = unat x"
  for x :: "'a::len word"
  by (metis less_le_trans nat_take_bit_eq one_le_numeral order_refl power_increasing take_bit_nat_eq_self
      unsigned_less unsigned_ucast_eq)

lemma word_eq_unat: "a = b \<longleftrightarrow> unat a = unat b"
  for a b :: "'a::len word"
  by (simp add: word_unat_eq_iff)

end
