(* ===== verification/Decode.thy ===== *)
theory Decode
  imports Quanta_Prelude
begin

text \<open>
  The shared instruction decoder \<open>src/src/decode.h\<close>: field extraction, the five immediate
  decoders, the major opcodes and the CSR addresses, and the ABI register names. An \<open>int32_t\<close>
  immediate is kept as its 32 bits; where the executor widens it to the 64-bit register width the
  model uses \<open>scast\<close>.
\<close>

subsection \<open>Field extraction\<close>

definition opcode :: "u32 \<Rightarrow> u32" where
  "opcode inst = inst AND 0x7f"

definition rd :: "u32 \<Rightarrow> u32" where
  "rd inst = shr inst 7 AND 0x1f"

definition funct3 :: "u32 \<Rightarrow> u32" where
  "funct3 inst = shr inst 12 AND 0x07"

definition rs1 :: "u32 \<Rightarrow> u32" where
  "rs1 inst = shr inst 15 AND 0x1f"

definition rs2 :: "u32 \<Rightarrow> u32" where
  "rs2 inst = shr inst 20 AND 0x1f"

definition funct7 :: "u32 \<Rightarrow> u32" where
  "funct7 inst = shr inst 25 AND 0x7f"

subsection \<open>Immediates\<close>

definition imm_i :: "u32 \<Rightarrow> u32" where
  "imm_i inst = sar inst 20"

definition imm_s :: "u32 \<Rightarrow> u32" where
  "imm_s inst =
     (let imm = shl (shr inst 25 AND 0x7f) 5 OR (shr inst 7 AND 0x1f)
      in if imm AND 0x800 \<noteq> 0 then imm OR 0xfffff000 else imm)"

definition imm_b :: "u32 \<Rightarrow> u32" where
  "imm_b inst =
     (let imm = shl (shr inst 31 AND 0x1) 12 OR shl (shr inst 7 AND 0x1) 11
                OR shl (shr inst 25 AND 0x3f) 5 OR shl (shr inst 8 AND 0xf) 1
      in if imm AND 0x1000 \<noteq> 0 then imm OR 0xffffe000 else imm)"

definition imm_u :: "u32 \<Rightarrow> u32" where
  "imm_u inst = inst AND 0xfffff000"

definition imm_j :: "u32 \<Rightarrow> u32" where
  "imm_j inst =
     (let imm = shl (shr inst 31 AND 0x1) 20 OR shl (shr inst 12 AND 0xff) 12
                OR shl (shr inst 20 AND 0x1) 11 OR shl (shr inst 21 AND 0x3ff) 1
      in if imm AND 0x100000 \<noteq> 0 then imm OR 0xffe00000 else imm)"

subsection \<open>Major opcodes\<close>

abbreviation (input) OP_LUI :: u32 where "OP_LUI \<equiv> 0x37"
abbreviation (input) OP_AUIPC :: u32 where "OP_AUIPC \<equiv> 0x17"
abbreviation (input) OP_JAL :: u32 where "OP_JAL \<equiv> 0x6f"
abbreviation (input) OP_JALR :: u32 where "OP_JALR \<equiv> 0x67"
abbreviation (input) OP_BRANCH :: u32 where "OP_BRANCH \<equiv> 0x63"
abbreviation (input) OP_LOAD :: u32 where "OP_LOAD \<equiv> 0x03"
abbreviation (input) OP_STORE :: u32 where "OP_STORE \<equiv> 0x23"
abbreviation (input) OP_FENCE :: u32 where "OP_FENCE \<equiv> 0x0f"
abbreviation (input) OP_IMM :: u32 where "OP_IMM \<equiv> 0x13"
abbreviation (input) OP_IMM_32 :: u32 where "OP_IMM_32 \<equiv> 0x1b"
abbreviation (input) OP_REG :: u32 where "OP_REG \<equiv> 0x33"
abbreviation (input) OP_REG_32 :: u32 where "OP_REG_32 \<equiv> 0x3b"
abbreviation (input) OP_AMO :: u32 where "OP_AMO \<equiv> 0x2f"
abbreviation (input) OP_LOAD_FP :: u32 where "OP_LOAD_FP \<equiv> 0x07"
abbreviation (input) OP_STORE_FP :: u32 where "OP_STORE_FP \<equiv> 0x27"
abbreviation (input) OP_MADD :: u32 where "OP_MADD \<equiv> 0x43"
abbreviation (input) OP_MSUB :: u32 where "OP_MSUB \<equiv> 0x47"
abbreviation (input) OP_NMSUB :: u32 where "OP_NMSUB \<equiv> 0x4b"
abbreviation (input) OP_NMADD :: u32 where "OP_NMADD \<equiv> 0x4f"
abbreviation (input) OP_FP :: u32 where "OP_FP \<equiv> 0x53"
abbreviation (input) OP_SYSTEM :: u32 where "OP_SYSTEM \<equiv> 0x73"

subsection \<open>CSR addresses\<close>

abbreviation (input) CSR_FFLAGS :: u32 where "CSR_FFLAGS \<equiv> 0x001"
abbreviation (input) CSR_FRM :: u32 where "CSR_FRM \<equiv> 0x002"
abbreviation (input) CSR_FCSR :: u32 where "CSR_FCSR \<equiv> 0x003"
abbreviation (input) CSR_CYCLE :: u32 where "CSR_CYCLE \<equiv> 0xc00"
abbreviation (input) CSR_TIME :: u32 where "CSR_TIME \<equiv> 0xc01"
abbreviation (input) CSR_INSTRET :: u32 where "CSR_INSTRET \<equiv> 0xc02"
abbreviation (input) CSR_CYCLEH :: u32 where "CSR_CYCLEH \<equiv> 0xc80"
abbreviation (input) CSR_TIMEH :: u32 where "CSR_TIMEH \<equiv> 0xc81"
abbreviation (input) CSR_INSTRETH :: u32 where "CSR_INSTRETH \<equiv> 0xc82"
abbreviation (input) CSR_SSTATUS :: u32 where "CSR_SSTATUS \<equiv> 0x100"
abbreviation (input) CSR_SIE :: u32 where "CSR_SIE \<equiv> 0x104"
abbreviation (input) CSR_STVEC :: u32 where "CSR_STVEC \<equiv> 0x105"
abbreviation (input) CSR_SCOUNTEREN :: u32 where "CSR_SCOUNTEREN \<equiv> 0x106"
abbreviation (input) CSR_SSCRATCH :: u32 where "CSR_SSCRATCH \<equiv> 0x140"
abbreviation (input) CSR_SEPC :: u32 where "CSR_SEPC \<equiv> 0x141"
abbreviation (input) CSR_SCAUSE :: u32 where "CSR_SCAUSE \<equiv> 0x142"
abbreviation (input) CSR_STVAL :: u32 where "CSR_STVAL \<equiv> 0x143"
abbreviation (input) CSR_SIP :: u32 where "CSR_SIP \<equiv> 0x144"
abbreviation (input) CSR_STIMECMP :: u32 where "CSR_STIMECMP \<equiv> 0x14d"
abbreviation (input) CSR_STIMECMPH :: u32 where "CSR_STIMECMPH \<equiv> 0x15d"
abbreviation (input) CSR_SATP :: u32 where "CSR_SATP \<equiv> 0x180"
abbreviation (input) CSR_MVENDORID :: u32 where "CSR_MVENDORID \<equiv> 0xf11"
abbreviation (input) CSR_MARCHID :: u32 where "CSR_MARCHID \<equiv> 0xf12"
abbreviation (input) CSR_MIMPID :: u32 where "CSR_MIMPID \<equiv> 0xf13"
abbreviation (input) CSR_MHARTID :: u32 where "CSR_MHARTID \<equiv> 0xf14"
abbreviation (input) CSR_MSTATUS :: u32 where "CSR_MSTATUS \<equiv> 0x300"
abbreviation (input) CSR_MISA :: u32 where "CSR_MISA \<equiv> 0x301"
abbreviation (input) CSR_MEDELEG :: u32 where "CSR_MEDELEG \<equiv> 0x302"
abbreviation (input) CSR_MIDELEG :: u32 where "CSR_MIDELEG \<equiv> 0x303"
abbreviation (input) CSR_MIE :: u32 where "CSR_MIE \<equiv> 0x304"
abbreviation (input) CSR_MTVEC :: u32 where "CSR_MTVEC \<equiv> 0x305"
abbreviation (input) CSR_MCOUNTEREN :: u32 where "CSR_MCOUNTEREN \<equiv> 0x306"
abbreviation (input) CSR_MSTATUSH :: u32 where "CSR_MSTATUSH \<equiv> 0x310"
abbreviation (input) CSR_MENVCFG :: u32 where "CSR_MENVCFG \<equiv> 0x30a"
abbreviation (input) CSR_MENVCFGH :: u32 where "CSR_MENVCFGH \<equiv> 0x31a"
abbreviation (input) CSR_MSCRATCH :: u32 where "CSR_MSCRATCH \<equiv> 0x340"
abbreviation (input) CSR_MEPC :: u32 where "CSR_MEPC \<equiv> 0x341"
abbreviation (input) CSR_MCAUSE :: u32 where "CSR_MCAUSE \<equiv> 0x342"
abbreviation (input) CSR_MTVAL :: u32 where "CSR_MTVAL \<equiv> 0x343"
abbreviation (input) CSR_MIP :: u32 where "CSR_MIP \<equiv> 0x344"
abbreviation (input) CSR_STOPI :: u32 where "CSR_STOPI \<equiv> 0xdb0"
abbreviation (input) CSR_MTOPI :: u32 where "CSR_MTOPI \<equiv> 0xfb0"

subsection \<open>ABI register names\<close>

definition reg_abi_name :: "u32 \<Rightarrow> string" where
  "reg_abi_name i =
     [''zero'', ''ra'', ''sp'', ''gp'', ''tp'', ''t0'', ''t1'', ''t2'',
      ''s0'', ''s1'', ''a0'', ''a1'', ''a2'', ''a3'', ''a4'', ''a5'',
      ''a6'', ''a7'', ''s2'', ''s3'', ''s4'', ''s5'', ''s6'', ''s7'',
      ''s8'', ''s9'', ''s10'', ''s11'', ''t3'', ''t4'', ''t5'', ''t6''] ! unat (i AND 0x1f)"

definition freg_abi_name :: "u32 \<Rightarrow> string" where
  "freg_abi_name i =
     [''ft0'', ''ft1'', ''ft2'', ''ft3'', ''ft4'', ''ft5'', ''ft6'', ''ft7'',
      ''fs0'', ''fs1'', ''fa0'', ''fa1'', ''fa2'', ''fa3'', ''fa4'', ''fa5'',
      ''fa6'', ''fa7'', ''fs2'', ''fs3'', ''fs4'', ''fs5'', ''fs6'', ''fs7'',
      ''fs8'', ''fs9'', ''fs10'', ''fs11'', ''ft8'', ''ft9'', ''ft10'', ''ft11''] ! unat (i AND 0x1f)"

subsection \<open>Bits of the decoded fields\<close>

lemmas fields = opcode_def rd_def funct3_def rs1_def rs2_def funct7_def

lemma and_bit_test:
  "w AND 0x800 \<noteq> 0 \<longleftrightarrow> bit w 11" "w AND 0x1000 \<noteq> 0 \<longleftrightarrow> bit w 12"
  "w AND 0x100000 \<noteq> 0 \<longleftrightarrow> bit w 20"
  for w :: u32
  using and_pow2_neq_0 [of w 11] and_pow2_neq_0 [of w 12] and_pow2_neq_0 [of w 20] by simp_all

lemma field_range:
  "opcode i < 128" "rd i < 32" "funct3 i < 8" "rs1 i < 32" "rs2 i < 32" "funct7 i < 128"
proof -
  have *: "x AND m < k" if "m < k" for x m k :: u32
    using word_and_le1 [of x m] that by (simp add: and.commute)
  show "opcode i < 128" "rd i < 32" "funct3 i < 8" "rs1 i < 32" "rs2 i < 32" "funct7 i < 128"
    unfolding fields by (rule *, simp)+
qed

end
