(* ===== verification/Rvc.thy ===== *)
theory Rvc
  imports Decode
begin

text \<open>
  The compressed-instruction expander \<open>src/src/rvc.c\<close>: the bit helpers, the six instruction-format
  builders, the three quadrants and \<open>rvc_expand\<close>. The lemmas relate the builders to the decoders of
  \<open>decode.h\<close> (a field or immediate put in by a builder is the one the decoder takes out) and state
  what an expansion decodes to.
\<close>

subsection \<open>Bit helpers and format builders\<close>

definition BIT :: "u16 \<Rightarrow> nat \<Rightarrow> u32" where
  "BIT c n = shr (ucast c) n AND 1"

definition BITS :: "u16 \<Rightarrow> nat \<Rightarrow> nat \<Rightarrow> u32" where
  "BITS c hi lo = shr (ucast c) lo AND (shl 1 (hi - lo + 1) - 1)"

definition sext :: "u32 \<Rightarrow> nat \<Rightarrow> u32" where
  "sext v b = (let m = shl 1 (b - 1) in (v XOR m) - m)"

definition r_type :: "u32 \<Rightarrow> u32 \<Rightarrow> u32 \<Rightarrow> u32 \<Rightarrow> u32 \<Rightarrow> u32 \<Rightarrow> u32" where
  "r_type f7 r2 r1 f3 r op = shl f7 25 OR shl r2 20 OR shl r1 15 OR shl f3 12 OR shl r 7 OR op"

definition i_type :: "u32 \<Rightarrow> u32 \<Rightarrow> u32 \<Rightarrow> u32 \<Rightarrow> u32 \<Rightarrow> u32" where
  "i_type imm r1 f3 r op = shl (imm AND 0xfff) 20 OR shl r1 15 OR shl f3 12 OR shl r 7 OR op"

definition s_type :: "u32 \<Rightarrow> u32 \<Rightarrow> u32 \<Rightarrow> u32 \<Rightarrow> u32 \<Rightarrow> u32" where
  "s_type imm r2 r1 f3 op =
     shl (shr imm 5 AND 0x7f) 25 OR shl r2 20 OR shl r1 15
     OR shl f3 12 OR shl (imm AND 0x1f) 7 OR op"

definition b_type :: "u32 \<Rightarrow> u32 \<Rightarrow> u32 \<Rightarrow> u32 \<Rightarrow> u32 \<Rightarrow> u32" where
  "b_type imm r2 r1 f3 op =
     shl (shr imm 12 AND 1) 31 OR shl (shr imm 5 AND 0x3f) 25
     OR shl r2 20 OR shl r1 15 OR shl f3 12
     OR shl (shr imm 1 AND 0xf) 8 OR shl (shr imm 11 AND 1) 7 OR op"

definition u_type :: "u32 \<Rightarrow> u32 \<Rightarrow> u32 \<Rightarrow> u32" where
  "u_type imm20 r op = shl (imm20 AND 0xfffff) 12 OR shl r 7 OR op"

definition j_type :: "u32 \<Rightarrow> u32 \<Rightarrow> u32 \<Rightarrow> u32" where
  "j_type imm r op =
     shl (shr imm 20 AND 1) 31 OR shl (shr imm 1 AND 0x3ff) 21
     OR shl (shr imm 11 AND 1) 20 OR shl (shr imm 12 AND 0xff) 12
     OR shl r 7 OR op"

definition rdp :: "u16 \<Rightarrow> u32" where
  "rdp c = BITS c 4 2 + 8"

definition rs1p :: "u16 \<Rightarrow> u32" where
  "rs1p c = BITS c 9 7 + 8"

text \<open>\<open>RVC_ILLEGAL\<close> is the value the expander returns for a reserved encoding (rvc.h).\<close>

abbreviation (input) RVC_ILLEGAL :: u32 where "RVC_ILLEGAL \<equiv> 0"

subsection \<open>The three quadrants\<close>

definition expand_q0 :: "u16 \<Rightarrow> bool \<Rightarrow> u32" where
  "expand_q0 c rv64 =
     (let f = BITS c 15 13;
          immw = shl (BITS c 12 10) 3 OR shl (BIT c 6) 2 OR shl (BIT c 5) 6;
          immd = shl (BITS c 12 10) 3 OR shl (BITS c 6 5) 6
      in if f = 0 then
           (let imm = shl (BITS c 12 11) 4 OR shl (BITS c 10 7) 6 OR shl (BIT c 6) 2 OR shl (BIT c 5) 3
            in if imm = 0 then RVC_ILLEGAL else i_type imm 2 0x0 (rdp c) OP_IMM)
         else if f = 1 then i_type immd (rs1p c) 0x3 (rdp c) OP_LOAD_FP
         else if f = 2 then i_type immw (rs1p c) 0x2 (rdp c) OP_LOAD
         else if f = 3 then
           (if rv64 then i_type immd (rs1p c) 0x3 (rdp c) OP_LOAD
            else i_type immw (rs1p c) 0x2 (rdp c) OP_LOAD_FP)
         else if f = 5 then s_type immd (rdp c) (rs1p c) 0x3 OP_STORE_FP
         else if f = 6 then s_type immw (rdp c) (rs1p c) 0x2 OP_STORE
         else if f = 7 then
           (if rv64 then s_type immd (rdp c) (rs1p c) 0x3 OP_STORE
            else s_type immw (rdp c) (rs1p c) 0x2 OP_STORE_FP)
         else RVC_ILLEGAL)"

text \<open>The immediates that quadrant 1 shares: the 6-bit signed one and the jump offset.\<close>

definition imm_c6 :: "u16 \<Rightarrow> u32" where
  "imm_c6 c = sext (shl (BIT c 12) 5 OR BITS c 6 2) 6"

definition imm_cj :: "u16 \<Rightarrow> u32" where
  "imm_cj c =
     sext (shl (BIT c 12) 11 OR shl (BIT c 11) 4 OR shl (BITS c 10 9) 8 OR shl (BIT c 8) 10
           OR shl (BIT c 7) 6 OR shl (BIT c 6) 7 OR shl (BITS c 5 3) 1 OR shl (BIT c 2) 5) 12"

definition imm_cb :: "u16 \<Rightarrow> u32" where
  "imm_cb c =
     sext (shl (BIT c 12) 8 OR shl (BITS c 6 5) 6 OR shl (BIT c 2) 5 OR shl (BITS c 11 10) 3
           OR shl (BITS c 4 3) 1) 9"

definition expand_q1_alu :: "u16 \<Rightarrow> bool \<Rightarrow> u32" where
  "expand_q1_alu c rv64 =
     (let rp = rs1p c;
          shamt = shl (BIT c 12) 5 OR BITS c 6 2;
          k = BITS c 11 10
      in if k = 0 then
           (if \<not> rv64 \<and> BIT c 12 \<noteq> 0 then RVC_ILLEGAL else i_type shamt rp 0x5 rp OP_IMM)
         else if k = 1 then
           (if \<not> rv64 \<and> BIT c 12 \<noteq> 0 then RVC_ILLEGAL
            else i_type (0x400 OR (shamt AND 0x3f)) rp 0x5 rp OP_IMM)
         else if k = 2 then i_type (imm_c6 c) rp 0x7 rp OP_IMM
         else
           (let r2 = rdp c; j = BITS c 6 5
            in if BIT c 12 \<noteq> 0 then
                 (if \<not> rv64 then RVC_ILLEGAL
                  else if j = 0 then r_type 0x20 r2 rp 0x0 rp OP_REG_32
                  else if j = 1 then r_type 0x00 r2 rp 0x0 rp OP_REG_32
                  else RVC_ILLEGAL)
               else if j = 0 then r_type 0x20 r2 rp 0x0 rp OP_REG
               else if j = 1 then r_type 0x00 r2 rp 0x4 rp OP_REG
               else if j = 2 then r_type 0x00 r2 rp 0x6 rp OP_REG
               else r_type 0x00 r2 rp 0x7 rp OP_REG))"

definition expand_q1 :: "u16 \<Rightarrow> bool \<Rightarrow> u32" where
  "expand_q1 c rv64 =
     (let r = BITS c 11 7; f = BITS c 15 13
      in if f = 0 then i_type (imm_c6 c) r 0x0 r OP_IMM
         else if f = 1 then
           (if rv64 then (if r = 0 then RVC_ILLEGAL else i_type (imm_c6 c) r 0x0 r OP_IMM_32)
            else j_type (imm_cj c) 1 OP_JAL)
         else if f = 2 then i_type (imm_c6 c) 0 0x0 r OP_IMM
         else if f = 3 then
           (if r = 2 then
              (let imm = sext (shl (BIT c 12) 9 OR shl (BITS c 4 3) 7 OR shl (BIT c 5) 6
                               OR shl (BIT c 2) 5 OR shl (BIT c 6) 4) 10
               in if imm = 0 then RVC_ILLEGAL else i_type imm 2 0x0 2 OP_IMM)
            else (if imm_c6 c = 0 then RVC_ILLEGAL else u_type (imm_c6 c) r OP_LUI))
         else if f = 4 then expand_q1_alu c rv64
         else if f = 5 then j_type (imm_cj c) 0 OP_JAL
         else if f = 6 \<or> f = 7 then
           b_type (imm_cb c) 0 (rs1p c) (if f = 6 then 0x0 else 0x1) OP_BRANCH
         else RVC_ILLEGAL)"

definition expand_q2 :: "u16 \<Rightarrow> bool \<Rightarrow> u32" where
  "expand_q2 c rv64 =
     (let r = BITS c 11 7; r2 = BITS c 6 2; f = BITS c 15 13;
          immd = shl (BIT c 12) 5 OR shl (BITS c 6 5) 3 OR shl (BITS c 4 2) 6;
          immw = shl (BIT c 12) 5 OR shl (BITS c 6 4) 2 OR shl (BITS c 3 2) 6;
          smmd = shl (BITS c 12 10) 3 OR shl (BITS c 9 7) 6;
          smmw = shl (BITS c 12 9) 2 OR shl (BITS c 8 7) 6
      in if f = 0 then
           (if \<not> rv64 \<and> BIT c 12 \<noteq> 0 then RVC_ILLEGAL
            else i_type (shl (BIT c 12) 5 OR r2) r 0x1 r OP_IMM)
         else if f = 1 then i_type immd 2 0x3 r OP_LOAD_FP
         else if f = 2 then (if r = 0 then RVC_ILLEGAL else i_type immw 2 0x2 r OP_LOAD)
         else if f = 3 then
           (if rv64 then (if r = 0 then RVC_ILLEGAL else i_type immd 2 0x3 r OP_LOAD)
            else i_type immw 2 0x2 r OP_LOAD_FP)
         else if f = 4 then
           (if BIT c 12 = 0 then
              (if r2 = 0 then (if r = 0 then RVC_ILLEGAL else i_type 0 r 0x0 0 OP_JALR)
               else r_type 0x00 r2 0 0x0 r OP_REG)
            else if r = 0 \<and> r2 = 0 then i_type 1 0 0x0 0 OP_SYSTEM
            else if r2 = 0 then i_type 0 r 0x0 1 OP_JALR
            else r_type 0x00 r2 r 0x0 r OP_REG)
         else if f = 5 then s_type smmd r2 2 0x3 OP_STORE_FP
         else if f = 6 then s_type smmw r2 2 0x2 OP_STORE
         else if f = 7 then
           (if rv64 then s_type smmd r2 2 0x3 OP_STORE else s_type smmw r2 2 0x2 OP_STORE_FP)
         else RVC_ILLEGAL)"

definition rvc_expand :: "u16 \<Rightarrow> bool \<Rightarrow> u32" where
  "rvc_expand c rv64 =
     (let q = c AND 0x3
      in if q = 0 then expand_q0 c rv64
         else if q = 1 then expand_q1 c rv64
         else if q = 2 then expand_q2 c rv64
         else RVC_ILLEGAL)"


subsection \<open>What the expander promises\<close>

text \<open>The reserved encodings, as the RV32C and RV64C listings give them, and the major opcodes an
  expansion may have.\<close>

definition rvc_reserved :: "u16 \<Rightarrow> bool \<Rightarrow> bool" where
  "rvc_reserved c rv64 \<longleftrightarrow>
     (let q = c AND 0x3; f = BITS c 15 13 in
      (q = 0 \<and> f = 0 \<and> c AND 0x1fe0 = 0) \<or> (q = 0 \<and> f = 4) \<or>
      (q = 1 \<and> f = 1 \<and> rv64 \<and> c AND 0x0f80 = 0) \<or>
      (q = 1 \<and> f = 3 \<and> c AND 0x107c = 0) \<or>
      (q = 1 \<and> f = 4 \<and> c AND 0x1000 \<noteq> 0 \<and> BITS c 11 10 \<noteq> 2 \<and> \<not> rv64) \<or>
      (q = 1 \<and> f = 4 \<and> c AND 0x1000 \<noteq> 0 \<and> BITS c 11 10 = 3 \<and> (BITS c 6 5 = 2 \<or> BITS c 6 5 = 3)) \<or>
      (q = 2 \<and> f = 0 \<and> c AND 0x1000 \<noteq> 0 \<and> \<not> rv64) \<or>
      (q = 2 \<and> f = 2 \<and> c AND 0x0f80 = 0) \<or>
      (q = 2 \<and> f = 3 \<and> rv64 \<and> c AND 0x0f80 = 0) \<or>
      (q = 2 \<and> f = 4 \<and> c AND 0x1000 = 0 \<and> c AND 0x0f80 = 0 \<and> c AND 0x007c = 0) \<or>
      q = 3)"

definition rvc_targets :: "u32 list" where
  "rvc_targets = [OP_LOAD, OP_LOAD_FP, OP_IMM, OP_IMM_32, OP_STORE, OP_STORE_FP, OP_REG, OP_REG_32,
      OP_LUI, OP_BRANCH, OP_JALR, OP_JAL, OP_SYSTEM]"

definition rvc_target :: "u32 \<Rightarrow> bool" where
  "rvc_target x \<longleftrightarrow> x = RVC_ILLEGAL \<or> opcode x \<in> set rvc_targets"

subsection \<open>Builders and decoders agree\<close>

lemma small_bits:
  "x < 8 \<Longrightarrow> 3 \<le> n \<Longrightarrow> bit x n = False" "x < 32 \<Longrightarrow> 5 \<le> n \<Longrightarrow> bit x n = False"
  "x < 128 \<Longrightarrow> 7 \<le> n \<Longrightarrow> bit x n = False"
  for x :: u32
  using bit_above [of x 3 n] bit_above [of x 5 n] bit_above [of x 7 n] by simp_all

lemmas layout = bit_blast bits fields small_bits Let_def and_bit_test

lemma decode_r_type:
  assumes "f7 < 128" "r2 < 32" "r1 < 32" "f3 < 8" "r < 32" "op < 128"
  shows "opcode (r_type f7 r2 r1 f3 r op) = op" "rd (r_type f7 r2 r1 f3 r op) = r"
    "funct3 (r_type f7 r2 r1 f3 r op) = f3" "rs1 (r_type f7 r2 r1 f3 r op) = r1"
    "rs2 (r_type f7 r2 r1 f3 r op) = r2" "funct7 (r_type f7 r2 r1 f3 r op) = f7"
  using assms by (simp_all add: layout r_type_def)

lemma decode_i_type:
  assumes "r1 < 32" "f3 < 8" "r < 32" "op < 128"
  shows "opcode (i_type imm r1 f3 r op) = op" "rd (i_type imm r1 f3 r op) = r"
    "funct3 (i_type imm r1 f3 r op) = f3" "rs1 (i_type imm r1 f3 r op) = r1"
    "imm_i (i_type imm r1 f3 r op) = signed_take_bit 11 imm"
  using assms by (simp_all add: layout i_type_def imm_i_def)

lemma decode_s_type:
  assumes "r2 < 32" "r1 < 32" "f3 < 8" "op < 128"
  shows "opcode (s_type imm r2 r1 f3 op) = op" "rs2 (s_type imm r2 r1 f3 op) = r2"
    "funct3 (s_type imm r2 r1 f3 op) = f3" "rs1 (s_type imm r2 r1 f3 op) = r1"
    "imm_s (s_type imm r2 r1 f3 op) = signed_take_bit 11 imm"
  using assms by (simp_all add: layout s_type_def imm_s_def)

lemma decode_b_type:
  assumes "r2 < 32" "r1 < 32" "f3 < 8" "op < 128"
  shows "opcode (b_type imm r2 r1 f3 op) = op" "rs2 (b_type imm r2 r1 f3 op) = r2"
    "funct3 (b_type imm r2 r1 f3 op) = f3" "rs1 (b_type imm r2 r1 f3 op) = r1"
    "imm_b (b_type imm r2 r1 f3 op) = signed_take_bit 12 imm AND - 2"
  using assms by (simp_all add: layout b_type_def imm_b_def)

lemma decode_u_type:
  assumes "r < 32" "op < 128"
  shows "opcode (u_type imm20 r op) = op" "rd (u_type imm20 r op) = r"
    "imm_u (u_type imm20 r op) = shl imm20 12"
  using assms by (simp_all add: layout u_type_def imm_u_def)

lemma decode_j_type:
  assumes "r < 32" "op < 128"
  shows "opcode (j_type imm r op) = op" "rd (j_type imm r op) = r"
    "imm_j (j_type imm r op) = signed_take_bit 20 imm AND - 2"
  using assms by (simp_all add: layout j_type_def imm_j_def)

lemmas decode_types =
  decode_r_type decode_i_type decode_s_type decode_b_type decode_u_type decode_j_type

lemma opcode_types:
  "opcode (r_type f7 r2 r1 f3 r op) = opcode op" "opcode (i_type imm r1 f3 r op) = opcode op"
  "opcode (s_type imm r2 r1 f3 op) = opcode op" "opcode (b_type imm r2 r1 f3 op) = opcode op"
  "opcode (u_type imm r op) = opcode op" "opcode (j_type imm r op) = opcode op"
  by (simp_all add: layout r_type_def i_type_def s_type_def b_type_def u_type_def j_type_def)

lemma sext_eq_0: "sext v b = 0 \<longleftrightarrow> v = 0"
proof -
  have "v = 0" if "v XOR m = m" for m
    using arg_cong [OF that, of "\<lambda>x. x XOR m"] by (simp only: xor.assoc xor_self_eq xor.right_neutral)
  then show ?thesis
    by (auto simp add: sext_def Let_def)
qed

lemma BITS_mask: "BITS c hi lo = shr (ucast c) lo AND mask (hi - lo + 1)"
  by (simp add: BITS_def shl_def mask_eq_exp_minus_1)

lemma compressed_zero:
  "BITS c 11 7 = 0 \<longleftrightarrow> c AND 0x0f80 = 0"
  "BITS c 6 2 = 0 \<longleftrightarrow> c AND 0x007c = 0"
  "BIT c 12 = 0 \<longleftrightarrow> c AND 0x1000 = 0"
  "shl (BIT c 12) 5 OR BITS c 6 2 = 0 \<longleftrightarrow> c AND 0x107c = 0"
  "shl (BIT c 12) 9 OR shl (BITS c 4 3) 7 OR shl (BIT c 5) 6 OR shl (BIT c 2) 5 OR shl (BIT c 6) 4 = 0
   \<longleftrightarrow> c AND 0x107c = 0"
  "shl (BITS c 12 11) 4 OR shl (BITS c 10 7) 6 OR shl (BIT c 6) 2 OR shl (BIT c 5) 3 = 0
   \<longleftrightarrow> c AND 0x1fe0 = 0"
  by (simp_all add: BIT_def BITS_mask bit_blast bits conj_ac)

lemma nonzero_opcode: "opcode x \<noteq> 0 \<Longrightarrow> x \<noteq> 0"
  by (auto simp: opcode_def)

lemma legal_types:
  "opcode op \<noteq> 0 \<Longrightarrow> r_type f7 r2 r1 f3 r op \<noteq> 0" "opcode op \<noteq> 0 \<Longrightarrow> i_type imm r1 f3 r op \<noteq> 0"
  "opcode op \<noteq> 0 \<Longrightarrow> s_type imm r2 r1 f3 op \<noteq> 0" "opcode op \<noteq> 0 \<Longrightarrow> b_type imm r2 r1 f3 op \<noteq> 0"
  "opcode op \<noteq> 0 \<Longrightarrow> u_type imm r op \<noteq> 0" "opcode op \<noteq> 0 \<Longrightarrow> j_type imm r op \<noteq> 0"
  by (rule nonzero_opcode; simp add: opcode_types)+

lemma opcode_num: "opcode (numeral k) = numeral k AND 0x7f"
  by (simp add: opcode_def)

lemma BITS_less: "BITS c hi lo \<le> mask (hi - lo + 1)"
  unfolding BITS_mask by (metis and.commute word_and_le1)


lemma word_cases_4: "x \<le> 3 \<Longrightarrow> x = 0 \<or> x = 1 \<or> x = 2 \<or> x = 3"
  for x :: u32
  unfolding word_eq_unat word_le_nat_alt by (simp del: unat_eq_0) arith

lemma word_cases_8:
  "x \<le> 7 \<Longrightarrow> x = 0 \<or> x = 1 \<or> x = 2 \<or> x = 3 \<or> x = 4 \<or> x = 5 \<or> x = 6 \<or> x = 7"
  for x :: u32
  unfolding word_eq_unat word_le_nat_alt by (simp del: unat_eq_0) arith

lemma BITS_cases:
  "BITS c 15 13 = 0 \<or> BITS c 15 13 = 1 \<or> BITS c 15 13 = 2 \<or> BITS c 15 13 = 3 \<or>
   BITS c 15 13 = 4 \<or> BITS c 15 13 = 5 \<or> BITS c 15 13 = 6 \<or> BITS c 15 13 = 7"
  "BITS c 11 10 = 0 \<or> BITS c 11 10 = 1 \<or> BITS c 11 10 = 2 \<or> BITS c 11 10 = 3"
  "BITS c 6 5 = 0 \<or> BITS c 6 5 = 1 \<or> BITS c 6 5 = 2 \<or> BITS c 6 5 = 3"
  using word_cases_8 [of "BITS c 15 13"] word_cases_4 [of "BITS c 11 10"] word_cases_4 [of "BITS c 6 5"]
    BITS_less [of c 15 13] BITS_less [of c 11 10] BITS_less [of c 6 5]
  by (simp_all add: mask_eq_exp_minus_1)

lemma q_cases: "c AND 3 = 0 \<or> c AND 3 = 1 \<or> c AND 3 = 2 \<or> c AND 3 = (3::u16)"
  using word_and_le1 [of c 3] unfolding word_eq_unat word_le_nat_alt
  by (simp del: unat_eq_0) arith

lemmas quadrants = expand_q0_def expand_q1_def expand_q1_alu_def expand_q2_def


lemmas illegal_simps = Let_def legal_types opcode_num sext_eq_0 imm_c6_def compressed_zero

lemma expand_q0_0:
  "expand_q0 c rv64 = RVC_ILLEGAL \<longleftrightarrow>
     BITS c 15 13 = 0 \<and> c AND 0x1fe0 = 0 \<or> BITS c 15 13 = 4"
  using BITS_cases(1) [of c] by (elim disjE) (simp_all add: expand_q0_def illegal_simps)

lemma expand_q1_alu_0:
  "expand_q1_alu c rv64 = RVC_ILLEGAL \<longleftrightarrow>
     c AND 0x1000 \<noteq> 0 \<and>
       (BITS c 11 10 \<noteq> 2 \<and> \<not> rv64 \<or> BITS c 11 10 = 3 \<and> (BITS c 6 5 = 2 \<or> BITS c 6 5 = 3))"
  using BITS_cases(2,3) [of c] by (elim disjE) (simp_all add: expand_q1_alu_def illegal_simps)

lemma expand_q1_0:
  "expand_q1 c rv64 = RVC_ILLEGAL \<longleftrightarrow>
     BITS c 15 13 = 1 \<and> rv64 \<and> c AND 0x0f80 = 0 \<or> BITS c 15 13 = 3 \<and> c AND 0x107c = 0 \<or>
     BITS c 15 13 = 4 \<and> expand_q1_alu c rv64 = RVC_ILLEGAL"
  using BITS_cases(1) [of c] by (elim disjE) (simp_all add: expand_q1_def illegal_simps)

lemma expand_q2_0:
  "expand_q2 c rv64 = RVC_ILLEGAL \<longleftrightarrow>
     BITS c 15 13 = 0 \<and> c AND 0x1000 \<noteq> 0 \<and> \<not> rv64 \<or> BITS c 15 13 = 2 \<and> c AND 0x0f80 = 0 \<or>
     BITS c 15 13 = 3 \<and> rv64 \<and> c AND 0x0f80 = 0 \<or>
     BITS c 15 13 = 4 \<and> c AND 0x1000 = 0 \<and> c AND 0x0f80 = 0 \<and> c AND 0x007c = 0"
  using BITS_cases(1) [of c] by (elim disjE) (simp_all add: expand_q2_def illegal_simps)

lemma rvc_expand_0: "rvc_expand c rv64 = RVC_ILLEGAL \<longleftrightarrow> rvc_reserved c rv64"
  using q_cases [of c]
  by (elim disjE) (auto simp: rvc_expand_def rvc_reserved_def Let_def expand_q0_0 expand_q1_0
      expand_q1_alu_0 expand_q2_0)


lemma sext_signed: "take_bit (Suc n) v = v \<Longrightarrow> n < 31 \<Longrightarrow> sext v (Suc n) = signed_take_bit n v"
proof -
  assume v: "take_bit (Suc n) v = v" and n: "n < 31"
  have below: "m \<le> n" if "bit v m" for m
    using that v by (metis bit_take_bit_iff less_Suc_eq_le)
  show ?thesis
  proof (cases "bit v n")
    case True
    have "signed_take_bit n v = v OR NOT (mask (Suc n))"
      by (rule bit_word_eqI) (use True in \<open>auto simp: bit_simps min_def less_Suc_eq dest: below\<close>)
    also have "\<dots> = v + NOT (mask (Suc n))"
      by (rule disjunctive_add [symmetric]) (auto simp: bit_simps less_Suc_eq_le dest: below)
    also have "\<dots> = v - 2 ^ Suc n"
      by (simp add: minus_exp_eq_not_mask [symmetric])
    also have "\<dots> = flip_bit n v - 2 ^ n"
      using True by (simp add: flip_bit_eq_if unset_bit_eq)
    finally show ?thesis
      by (simp add: sext_def Let_def shl_def flip_bit_eq_xor)
  next
    case False
    have "signed_take_bit n v = v"
      by (rule bit_word_eqI) (use False in \<open>auto simp: bit_simps min_def; metis below le_antisym\<close>)
    also have "\<dots> = flip_bit n v - 2 ^ n"
      using False by (simp add: flip_bit_eq_if set_bit_eq)
    finally show ?thesis
      by (simp add: sext_def Let_def shl_def flip_bit_eq_xor)
  qed
qed


lemma rvc_target_types:
  "rvc_target 0" "opcode op \<in> set rvc_targets \<Longrightarrow> rvc_target (r_type f7 r2 r1 f3 r op)"
  "opcode op \<in> set rvc_targets \<Longrightarrow> rvc_target (i_type imm r1 f3 r op)"
  "opcode op \<in> set rvc_targets \<Longrightarrow> rvc_target (s_type imm r2 r1 f3 op)"
  "opcode op \<in> set rvc_targets \<Longrightarrow> rvc_target (b_type imm r2 r1 f3 op)"
  "opcode op \<in> set rvc_targets \<Longrightarrow> rvc_target (u_type imm r op)"
  "opcode op \<in> set rvc_targets \<Longrightarrow> rvc_target (j_type imm r op)"
  by (simp_all add: rvc_target_def opcode_types)

lemma rvc_target_expand: "rvc_target (rvc_expand c rv64)"
proof -
  note simps = Let_def rvc_target_types opcode_num rvc_targets_def
  have "rvc_target (expand_q0 c rv64)" "rvc_target (expand_q2 c rv64)" "rvc_target (expand_q1_alu c rv64)"
    for rv64 by (simp_all add: quadrants simps)
  moreover from this have "rvc_target (expand_q1 c rv64)" for rv64
    by (simp add: expand_q1_def simps)
  ultimately show ?thesis
    by (simp add: rvc_expand_def simps)
qed

lemma low_bits_opcode: "x AND 3 = opcode x AND 3"
  by (simp add: opcode_def and.assoc)

lemma rvc_targets_32bit: "op \<in> set rvc_targets \<Longrightarrow> op AND 3 = 3"
  by (auto simp: rvc_targets_def)

lemma compressed_ranges:
  "rdp c < 32" "rs1p c < 32" "BITS c 11 7 < 32" "BITS c 6 2 < 32"
proof -
  have "BITS c hi lo + 8 < 32" if "mask (hi - lo + 1) = (7::u32)" for hi lo
    using BITS_less [of c hi lo] word_cases_8 [of "BITS c hi lo"] that by auto
  then show "rdp c < 32" "rs1p c < 32"
    by (simp_all add: rdp_def rs1p_def mask_eq_exp_minus_1)
  show "BITS c 11 7 < 32" "BITS c 6 2 < 32"
    using BITS_less [of c 11 7] BITS_less [of c 6 2]
    by (auto simp: mask_eq_exp_minus_1 intro: le_less_trans)
qed


lemma imm_c_signed:
  "imm_cj c = signed_take_bit 11
     (shl (BIT c 12) 11 OR shl (BIT c 11) 4 OR shl (BITS c 10 9) 8 OR shl (BIT c 8) 10
      OR shl (BIT c 7) 6 OR shl (BIT c 6) 7 OR shl (BITS c 5 3) 1 OR shl (BIT c 2) 5)"
  "imm_cb c = signed_take_bit 8
     (shl (BIT c 12) 8 OR shl (BITS c 6 5) 6 OR shl (BIT c 2) 5 OR shl (BITS c 11 10) 3
      OR shl (BITS c 4 3) 1)"
  "imm_c6 c = signed_take_bit 5 (shl (BIT c 12) 5 OR BITS c 6 2)"
  using sext_signed [of 11] sext_signed [of 8] sext_signed [of 5]
  by (simp_all add: imm_cj_def imm_cb_def imm_c6_def BIT_def BITS_mask bit_blast bits)


lemma imm_cj_bits:
  "map (bit (imm_cj c)) [0..<12] = False # map (bit c) [3, 4, 5, 11, 2, 7, 6, 9, 10, 8, 12]"
  "signed_take_bit 20 (imm_cj c) AND - 2 = imm_cj c"
  "signed_take_bit 11 (imm_cj c) = imm_cj c"
  unfolding imm_c_signed
  by (simp_all add: BIT_def BITS_mask bit_blast bits upt_rec_numeral upt_rec)

lemma imm_cb_bits:
  "map (bit (imm_cb c)) [0..<9] = False # map (bit c) [3, 4, 10, 11, 2, 5, 6, 12]"
  "signed_take_bit 12 (imm_cb c) AND - 2 = imm_cb c"
  "signed_take_bit 8 (imm_cb c) = imm_cb c"
  unfolding imm_c_signed
  by (simp_all add: BIT_def BITS_mask bit_blast bits upt_rec_numeral upt_rec)

subsection \<open>Properties\<close>




text \<open>C26: the compressed jumps and branches expand to the jump or branch the specification names:
  C.J (and C.JAL on RV32) is \<open>JAL\<close> with link register \<open>x0\<close> (\<open>x1\<close>) and C.BEQZ/C.BNEZ compare \<open>rs1'\<close>
  with \<open>x0\<close>; the base decoder reads back from the expansion exactly the scattered offset
  bits of the halfword, and the offset is an even 12-bit (9-bit) two's complement number.\<close>

theorem rvc_control_flow:
  assumes "c AND 3 = 1" "BITS c 15 13 = f" "f = 1 \<and> \<not> rv64 \<or> f = 5 \<or> f = 6 \<or> f = 7"
  defines "i \<equiv> rvc_expand c rv64"
  shows "if f = 1 \<or> f = 5 then
           opcode i = OP_JAL \<and> rd i = (if f = 1 then 1 else 0) \<and> signed_take_bit 11 (imm_j i) = imm_j i \<and>
           map (bit (imm_j i)) [0..<12] = False # map (bit c) [3, 4, 5, 11, 2, 7, 6, 9, 10, 8, 12]
         else
           opcode i = OP_BRANCH \<and> rs1 i = BITS c 9 7 + 8 \<and> rs2 i = 0 \<and> funct3 i = f - 6 \<and>
           signed_take_bit 8 (imm_b i) = imm_b i \<and>
           map (bit (imm_b i)) [0..<9] = False # map (bit c) [3, 4, 10, 11, 2, 5, 6, 12]"
  using assms(1-3) compressed_ranges(2) [of c] unfolding i_def
  by (elim disjE conjE)
    (simp_all add: rvc_expand_def expand_q1_def Let_def decode_types imm_cj_bits imm_cb_bits rs1p_def)

theorem rvc_control_flow_witness:
  "rvc_expand 0xb7f5 True = 0xfedff06f \<and> imm_j 0xfedff06f = 0xffffffec \<and>
   rd (rvc_expand 0xb7f5 True) = 0"
proof -
  have c: "rvc_expand 0xb7f5 True = 0xfedff06f"
    by (simp add: rvc_expand_def expand_q1_def imm_cj_def BIT_def BITS_def sext_def j_type_def Let_def evals)
  have "BITS 0xb7f5 15 13 = 5"
    by (simp add: BITS_def evals)
  then show ?thesis
    using rvc_control_flow [of "0xb7f5" 5 True] c by (simp add: imm_j_def Let_def evals)
qed

end
