(* ===== verification/Device.thy ===== *)
theory Device
  imports Quanta_Prelude
begin

text \<open>
  The register-file devices of \<open>src/src/device.c\<close>: the SiFive test finisher, the 16550 UART, the
  CLINT timer and the PLIC, with the records of \<open>src/src/device.h\<close>. The virtio devices, which
  master the bus, are in theory \<open>Virtio\<close>; their records are declared here because the platform
  record holds every device.

  A fixed-size C array indexed by a \<open>uint32_t\<close> is a function of the index, so a store to an index
  the C array does not have would be visible as a change there. A pointer that is only tested
  against \<open>NULL\<close> is a flag or an option. The characters a device prints are collected in order.
\<close>

subsection \<open>Address map\<close>

abbreviation (input) TEST_BASE :: u64 where "TEST_BASE \<equiv> 0x00100000"
abbreviation (input) TEST_SIZE :: u64 where "TEST_SIZE \<equiv> 0x00001000"
abbreviation (input) CLINT_BASE :: u64 where "CLINT_BASE \<equiv> 0x02000000"
abbreviation (input) CLINT_SIZE :: u64 where "CLINT_SIZE \<equiv> 0x00010000"
abbreviation (input) PLIC_BASE :: u64 where "PLIC_BASE \<equiv> 0x0c000000"
abbreviation (input) PLIC_SIZE :: u64 where "PLIC_SIZE \<equiv> 0x04000000"
abbreviation (input) UART_BASE :: u64 where "UART_BASE \<equiv> 0x10000000"
abbreviation (input) UART_SIZE :: u64 where "UART_SIZE \<equiv> 0x00000100"
abbreviation (input) VIRTIO_BASE :: u64 where "VIRTIO_BASE \<equiv> 0x10001000"
abbreviation (input) VIRTIO_SIZE :: u64 where "VIRTIO_SIZE \<equiv> 0x00001000"
abbreviation (input) VIRTIO_NET_BASE :: u64 where "VIRTIO_NET_BASE \<equiv> 0x10002000"
abbreviation (input) VIRTIO_NET_SIZE :: u64 where "VIRTIO_NET_SIZE \<equiv> 0x00001000"

abbreviation (input) QUANTA_MAX_HARTS :: u32 where "QUANTA_MAX_HARTS \<equiv> 8"
abbreviation (input) PLIC_NSOURCES :: u32 where "PLIC_NSOURCES \<equiv> 32"
abbreviation (input) PLIC_NCONTEXTS :: u32 where "PLIC_NCONTEXTS \<equiv> 16"
abbreviation (input) UART_IRQ :: nat where "UART_IRQ \<equiv> 10"
abbreviation (input) VIRTIO_IRQ :: nat where "VIRTIO_IRQ \<equiv> 1"
abbreviation (input) VIRTIO_NET_IRQ :: nat where "VIRTIO_NET_IRQ \<equiv> 2"

abbreviation (input) MIP_SEIP :: u32 where "MIP_SEIP \<equiv> 0x200"
abbreviation (input) MIP_MSIP :: u32 where "MIP_MSIP \<equiv> 0x8"
abbreviation (input) MIP_MTIP :: u32 where "MIP_MTIP \<equiv> 0x80"
abbreviation (input) MIP_MEIP :: u32 where "MIP_MEIP \<equiv> 0x800"

subsection \<open>Device state\<close>

record Clint =
  c_mtime :: u64
  c_mtimecmp :: "u32 \<Rightarrow> u64"
  c_msip :: "u32 \<Rightarrow> u32"

record Uart =
  u_ier :: u8
  u_lcr :: u8
  u_mcr :: u8
  u_scr :: u8
  u_dll :: u8
  u_dlm :: u8
  u_rx_have :: bool
  u_rx :: u8
  u_thre_ip :: bool

record Plic =
  pl_priority :: "u32 \<Rightarrow> u32"
  pl_enable :: "u32 \<Rightarrow> u32"
  pl_threshold :: "u32 \<Rightarrow> u32"
  pl_claimed :: "u32 \<Rightarrow> u32"

record Virtio =
  v_status :: u32
  v_features_sel :: u32
  v_queue_num :: u32
  v_queue_ready :: u32
  v_desc_addr :: u64
  v_avail_addr :: u64
  v_used_addr :: u64
  v_last_avail :: u16
  v_interrupt_status :: u32

record Virtqueue =
  q_num :: u32
  q_ready :: u32
  q_desc_addr :: u64
  q_avail_addr :: u64
  q_used_addr :: u64
  q_last_avail :: u16

text \<open>The two queues \<open>vq[VIRTIO_NET_RXQ]\<close> and \<open>vq[VIRTIO_NET_TXQ]\<close> are the values of \<open>n_vq\<close> at 0 and 1.
  The backend callback \<open>tx\<close> is the flag \<open>n_tx\<close>: what it is given is logged (theory \<open>Virtio\<close>).\<close>

record VirtioNet =
  n_status :: u32
  n_features_sel :: u32
  n_driver_feat_sel :: u32
  n_queue_sel :: u32
  n_interrupt_status :: u32
  n_vq :: "u32 \<Rightarrow> Virtqueue"
  n_mac :: "u32 \<Rightarrow> u8"
  n_fifo :: "u32 \<Rightarrow> u32 \<Rightarrow> u8"
  n_fifo_len :: "u32 \<Rightarrow> u32"
  n_fifo_head :: u32
  n_fifo_count :: u32
  n_tx :: bool

text \<open>The backing file of a disk is its contents as the C stream sees them, with the contents the last
  flush pushed to the operating system.\<close>

record Disk =
  d_data :: "bytes option"
  d_size :: u64
  d_file :: "bytes option"
  d_flushed :: "bytes option"
  d_writable :: bool

text \<open>The pointer \<open>harts\<close> to the engine's hart array and the pointer \<open>ram\<close> to the bytes of guest memory
  are flags (attached or \<open>NULL\<close>); the harts and the bytes themselves live in the machine state.\<close>

record Platform =
  p_clint :: Clint
  p_uart :: Uart
  p_plic :: Plic
  p_virtio :: Virtio
  p_net :: VirtioNet
  p_disk :: Disk
  p_harts :: bool
  p_nharts :: u32
  p_ram :: bool
  p_ram_base :: u64
  p_ram_size :: u64
  p_poweroff :: bool
  p_poweroff_code :: u32

subsection \<open>Initialisation and windows\<close>

definition in_window :: "u64 \<Rightarrow> u64 \<Rightarrow> u64 \<Rightarrow> bool" where
  "in_window addr base sz \<longleftrightarrow> addr - base < sz"

definition virtio_zero :: Virtio where
  "virtio_zero = \<lparr>v_status = 0, v_features_sel = 0, v_queue_num = 0, v_queue_ready = 0,
     v_desc_addr = 0, v_avail_addr = 0, v_used_addr = 0, v_last_avail = 0, v_interrupt_status = 0\<rparr>"

definition virtqueue_zero :: Virtqueue where
  "virtqueue_zero = \<lparr>q_num = 0, q_ready = 0, q_desc_addr = 0, q_avail_addr = 0, q_used_addr = 0,
     q_last_avail = 0\<rparr>"

definition default_mac :: "u32 \<Rightarrow> u8" where
  "default_mac = (\<lambda>_. 0)(0 := 0x52, 1 := 0x54, 2 := 0x00, 3 := 0x12, 4 := 0x34, 5 := 0x56)"

definition plat_init :: Platform where
  "plat_init = \<lparr>
     p_clint = \<lparr>c_mtime = 0, c_mtimecmp = (\<lambda>h. if h < QUANTA_MAX_HARTS then - 1 else 0), c_msip = (\<lambda>_. 0)\<rparr>,
     p_uart = \<lparr>u_ier = 0, u_lcr = 0, u_mcr = 0, u_scr = 0, u_dll = 0, u_dlm = 0,
               u_rx_have = False, u_rx = 0, u_thre_ip = False\<rparr>,
     p_plic = \<lparr>pl_priority = (\<lambda>_. 0), pl_enable = (\<lambda>_. 0), pl_threshold = (\<lambda>_. 0), pl_claimed = (\<lambda>_. 0)\<rparr>,
     p_virtio = virtio_zero,
     p_net = \<lparr>n_status = 0, n_features_sel = 0, n_driver_feat_sel = 0, n_queue_sel = 0,
              n_interrupt_status = 0, n_vq = (\<lambda>_. virtqueue_zero), n_mac = default_mac,
              n_fifo = (\<lambda>_ _. 0), n_fifo_len = (\<lambda>_. 0), n_fifo_head = 0, n_fifo_count = 0, n_tx = False\<rparr>,
     p_disk = \<lparr>d_data = None, d_size = 0, d_file = None, d_flushed = None, d_writable = False\<rparr>,
     p_harts = False, p_nharts = 1, p_ram = False, p_ram_base = 0, p_ram_size = 0,
     p_poweroff = False, p_poweroff_code = 0\<rparr>"

definition plat_set_harts :: "Platform \<Rightarrow> bool \<Rightarrow> u32 \<Rightarrow> Platform" where
  "plat_set_harts p harts n = p\<lparr>p_harts := harts, p_nharts := n\<rparr>"

definition plat_attach_ram :: "Platform \<Rightarrow> bool \<Rightarrow> u64 \<Rightarrow> u64 \<Rightarrow> Platform" where
  "plat_attach_ram p ram base sz = p\<lparr>p_ram := ram, p_ram_base := base, p_ram_size := sz\<rparr>"

definition plat_net_set_backend :: "Platform \<Rightarrow> bool \<Rightarrow> Platform" where
  "plat_net_set_backend p tx = p\<lparr>p_net := (p_net p)\<lparr>n_tx := tx\<rparr>\<rparr>"

definition plat_contains :: "u64 \<Rightarrow> bool" where
  "plat_contains addr \<longleftrightarrow>
     in_window addr TEST_BASE TEST_SIZE \<or> in_window addr CLINT_BASE CLINT_SIZE \<or>
     in_window addr PLIC_BASE PLIC_SIZE \<or> in_window addr UART_BASE UART_SIZE \<or>
     in_window addr VIRTIO_BASE VIRTIO_SIZE \<or> in_window addr VIRTIO_NET_BASE VIRTIO_NET_SIZE"

definition plat_tick :: "Platform \<Rightarrow> Platform" where
  "plat_tick p = p\<lparr>p_clint := (p_clint p)\<lparr>c_mtime := c_mtime (p_clint p) + 1\<rparr>\<rparr>"

text \<open>\<open>Some code\<close> when a power-off is requested, \<open>None\<close> otherwise.\<close>

definition plat_poweroff_requested :: "Platform \<Rightarrow> u32 option" where
  "plat_poweroff_requested p = (if p_poweroff p then Some (p_poweroff_code p) else None)"

subsection \<open>Test finisher\<close>

definition test_write :: "Platform \<Rightarrow> u32 \<Rightarrow> Platform" where
  "test_write p value =
     (let k = value AND 0xffff
      in if k = 0x3333 then p\<lparr>p_poweroff := True, p_poweroff_code := shr value 16 AND 0xff\<rparr>
         else if k = 0x5555 \<or> k = 0x7777 then p\<lparr>p_poweroff := True, p_poweroff_code := 0\<rparr>
         else p)"

subsection \<open>UART\<close>

definition uart_lsr :: "Uart \<Rightarrow> u8" where
  "uart_lsr u = 0x60 OR (if u_rx_have u then 0x01 else 0x00)"

definition uart_asserted :: "Uart \<Rightarrow> bool" where
  "uart_asserted u \<longleftrightarrow>
     u_ier u AND 0x01 \<noteq> 0 \<and> u_rx_have u \<or> u_ier u AND 0x02 \<noteq> 0 \<and> u_thre_ip u"

definition uart_iir :: "Uart \<Rightarrow> u8" where
  "uart_iir u =
     (if u_ier u AND 0x01 \<noteq> 0 \<and> u_rx_have u then 0x04
      else if u_ier u AND 0x02 \<noteq> 0 \<and> u_thre_ip u then 0x02
      else 0x01)"

definition uart_read :: "Uart \<Rightarrow> u32 \<Rightarrow> u32 \<times> Uart" where
  "uart_read u off =
     (let dlab = u_lcr u AND 0x80 \<noteq> 0
      in if off = 0 then
           (if dlab then (ucast (u_dll u), u) else (ucast (u_rx u), u\<lparr>u_rx_have := False\<rparr>))
         else if off = 1 then (ucast (if dlab then u_dlm u else u_ier u), u)
         else if off = 2 then
           (let iir = uart_iir u in (ucast iir, if iir = 0x02 then u\<lparr>u_thre_ip := False\<rparr> else u))
         else if off = 3 then (ucast (u_lcr u), u)
         else if off = 4 then (ucast (u_mcr u), u)
         else if off = 5 then (ucast (uart_lsr u), u)
         else if off = 6 then (0, u)
         else if off = 7 then (ucast (u_scr u), u)
         else (0, u))"

text \<open>The second component holds the characters \<open>putchar\<close> sends to the console.\<close>

definition uart_write :: "Uart \<Rightarrow> u32 \<Rightarrow> u8 \<Rightarrow> Uart \<times> u8 list" where
  "uart_write u off val =
     (let dlab = u_lcr u AND 0x80 \<noteq> 0
      in if off = 0 then (if dlab then (u\<lparr>u_dll := val\<rparr>, []) else (u\<lparr>u_thre_ip := True\<rparr>, [val]))
         else if off = 1 then
           (if dlab then (u\<lparr>u_dlm := val\<rparr>, [])
            else (let u = u\<lparr>u_ier := val AND 0x0f\<rparr>
                  in (if u_ier u AND 0x02 \<noteq> 0 then u\<lparr>u_thre_ip := True\<rparr> else u, [])))
         else if off = 3 then (u\<lparr>u_lcr := val\<rparr>, [])
         else if off = 4 then (u\<lparr>u_mcr := val\<rparr>, [])
         else if off = 7 then (u\<lparr>u_scr := val\<rparr>, [])
         else (u, []))"

definition plat_uart_rx :: "Platform \<Rightarrow> u8 \<Rightarrow> bool \<times> Platform" where
  "plat_uart_rx p byte =
     (if u_rx_have (p_uart p) then (False, p)
      else (True, p\<lparr>p_uart := (p_uart p)\<lparr>u_rx := byte, u_rx_have := True\<rparr>\<rparr>))"

subsection \<open>PLIC\<close>

definition plic_lines :: "Platform \<Rightarrow> u32" where
  "plic_lines p =
     (if uart_asserted (p_uart p) then shl 1 UART_IRQ else 0) OR
     (if v_interrupt_status (p_virtio p) \<noteq> 0 then shl 1 VIRTIO_IRQ else 0) OR
     (if n_interrupt_status (p_net p) \<noteq> 0 then shl 1 VIRTIO_NET_IRQ else 0)"

text \<open>The conditions under which \<open>plic_best\<close> does not \<open>continue\<close>, and its scan of sources 1 to 31 with
  the running pair \<open>(best, best_prio)\<close>.\<close>

definition plic_candidate :: "Platform \<Rightarrow> u32 \<Rightarrow> u32 \<Rightarrow> nat \<Rightarrow> bool" where
  "plic_candidate p ctx lines s \<longleftrightarrow>
     lines AND shl 1 s \<noteq> 0 \<and> pl_enable (p_plic p) ctx AND shl 1 s \<noteq> 0 \<and>
     of_nat s \<noteq> pl_claimed (p_plic p) ctx \<and>
     \<not> pl_priority (p_plic p) (of_nat s) \<le> pl_threshold (p_plic p) ctx"

definition plic_scan :: "Platform \<Rightarrow> u32 \<Rightarrow> u32 \<Rightarrow> nat list \<Rightarrow> u32 \<times> u32 \<Rightarrow> u32 \<times> u32" where
  "plic_scan p ctx lines =
     fold (\<lambda>s (best, best_prio).
       if plic_candidate p ctx lines s \<and> pl_priority (p_plic p) (of_nat s) > best_prio
       then (of_nat s, pl_priority (p_plic p) (of_nat s)) else (best, best_prio))"

definition plic_best :: "Platform \<Rightarrow> u32 \<Rightarrow> u32" where
  "plic_best p ctx = fst (plic_scan p ctx (plic_lines p) [1..<32] (0, 0))"

definition plic_claim :: "Platform \<Rightarrow> u32 \<Rightarrow> u32 \<times> Platform" where
  "plic_claim p ctx =
     (let s = plic_best p ctx
      in (s, if s \<noteq> 0 then p\<lparr>p_plic := (p_plic p)\<lparr>pl_claimed := (pl_claimed (p_plic p))(ctx := s)\<rparr>\<rparr> else p))"

definition plic_read :: "Platform \<Rightarrow> u32 \<Rightarrow> u32 \<times> Platform" where
  "plic_read p off =
     (if off < 0x1000 then
        (let s = off div 4 in (if s < PLIC_NSOURCES then pl_priority (p_plic p) s else 0, p))
      else if off = 0x1000 then (plic_lines p, p)
      else if off \<ge> 0x2000 \<and> off < 0x2000 + PLIC_NCONTEXTS * 0x80 then
        (let rel = off - 0x2000
         in (if rel mod 0x80 = 0 then pl_enable (p_plic p) (rel div 0x80) else 0, p))
      else if off \<ge> 0x200000 \<and> off < 0x200000 + PLIC_NCONTEXTS * 0x1000 then
        (let rel = off - 0x200000; ctx = rel div 0x1000; reg = rel mod 0x1000
         in if reg = 0 then (pl_threshold (p_plic p) ctx, p)
            else if reg = 4 then plic_claim p ctx
            else (0, p))
      else (0, p))"

definition plic_write :: "Platform \<Rightarrow> u32 \<Rightarrow> u32 \<Rightarrow> Platform" where
  "plic_write p off val =
     (let pl = p_plic p
      in if off < 0x1000 then
           (let s = off div 4
            in if s \<ge> 1 \<and> s < PLIC_NSOURCES then p\<lparr>p_plic := pl\<lparr>pl_priority := (pl_priority pl)(s := val)\<rparr>\<rparr> else p)
         else if off \<ge> 0x2000 \<and> off < 0x2000 + PLIC_NCONTEXTS * 0x80 then
           (let rel = off - 0x2000
            in if rel mod 0x80 = 0
               then p\<lparr>p_plic := pl\<lparr>pl_enable := (pl_enable pl)(rel div 0x80 := val)\<rparr>\<rparr> else p)
         else if off \<ge> 0x200000 \<and> off < 0x200000 + PLIC_NCONTEXTS * 0x1000 then
           (let rel = off - 0x200000; ctx = rel div 0x1000; reg = rel mod 0x1000
            in if reg = 0 then p\<lparr>p_plic := pl\<lparr>pl_threshold := (pl_threshold pl)(ctx := val)\<rparr>\<rparr>
               else if reg = 4 \<and> val = pl_claimed pl ctx
               then p\<lparr>p_plic := pl\<lparr>pl_claimed := (pl_claimed pl)(ctx := 0)\<rparr>\<rparr>
               else p)
         else p)"

subsection \<open>CLINT\<close>

definition clint_read :: "Clint \<Rightarrow> u32 \<Rightarrow> u32" where
  "clint_read c off =
     (if off < QUANTA_MAX_HARTS * 4 then c_msip c (off div 4) AND 1
      else if off \<ge> 0x4000 \<and> off < 0x4000 + QUANTA_MAX_HARTS * 8 then
        (let rel = off - 0x4000; h = rel div 8
         in if rel AND 4 \<noteq> 0 then ucast (shr (c_mtimecmp c h) 32) else ucast (c_mtimecmp c h))
      else if off = 0xbff8 then ucast (c_mtime c)
      else if off = 0xbffc then ucast (shr (c_mtime c) 32)
      else 0)"

text \<open>Replacing one half of a 64-bit register, as the CLINT and the virtio queue registers do.\<close>

definition set_lo :: "u64 \<Rightarrow> u32 \<Rightarrow> u64" where
  "set_lo x val = (x AND 0xffffffff00000000) OR ucast val"

definition set_hi :: "u64 \<Rightarrow> u32 \<Rightarrow> u64" where
  "set_hi x val = (x AND 0x00000000ffffffff) OR shl (ucast val) 32"

definition clint_write :: "Clint \<Rightarrow> u32 \<Rightarrow> u32 \<Rightarrow> Clint" where
  "clint_write c off val =
     (if off < QUANTA_MAX_HARTS * 4 then c\<lparr>c_msip := (c_msip c)(off div 4 := val AND 1)\<rparr>
      else if off \<ge> 0x4000 \<and> off < 0x4000 + QUANTA_MAX_HARTS * 8 then
        (let rel = off - 0x4000; h = rel div 8
         in c\<lparr>c_mtimecmp := (c_mtimecmp c)(h :=
              if rel AND 4 \<noteq> 0 then set_hi (c_mtimecmp c h) val else set_lo (c_mtimecmp c h) val)\<rparr>)
      else if off = 0xbff8 then c\<lparr>c_mtime := set_lo (c_mtime c) val\<rparr>
      else if off = 0xbffc then c\<lparr>c_mtime := set_hi (c_mtime c) val\<rparr>
      else c)"

subsection \<open>The interrupt bits a hart sees\<close>

definition plat_mip_bits :: "Platform \<Rightarrow> u32 \<Rightarrow> u32" where
  "plat_mip_bits p hart =
     (let c = p_clint p;
          timer = (if hart < QUANTA_MAX_HARTS \<and> c_mtime c \<ge> c_mtimecmp c hart then MIP_MTIP else 0);
          soft = (if hart < QUANTA_MAX_HARTS \<and> c_msip c hart AND 1 \<noteq> 0 then MIP_MSIP else 0);
          ext = (if plic_lines p \<noteq> 0
                 then (if plic_best p (2 * hart) \<noteq> 0 then MIP_MEIP else 0) OR
                      (if plic_best p (2 * hart + 1) \<noteq> 0 then MIP_SEIP else 0)
                 else 0)
      in timer OR soft OR ext)"

subsection \<open>Specification of the PLIC choice, and a concrete platform\<close>

text \<open>The source a context should be offered: the smallest-numbered one of highest priority.\<close>

definition plic_winner :: "Platform \<Rightarrow> u32 \<Rightarrow> nat \<Rightarrow> nat \<Rightarrow> bool" where
  "plic_winner p ctx n s \<longleftrightarrow>
     1 \<le> s \<and> s < n \<and> plic_candidate p ctx (plic_lines p) s \<and>
     (\<forall>t. 1 \<le> t \<and> t < n \<and> plic_candidate p ctx (plic_lines p) t \<longrightarrow>
        pl_priority (p_plic p) (of_nat t) < pl_priority (p_plic p) (of_nat s) \<or>
        pl_priority (p_plic p) (of_nat t) = pl_priority (p_plic p) (of_nat s) \<and> s \<le> t)"

definition plic_quiet :: "Platform \<Rightarrow> u32 \<Rightarrow> nat \<Rightarrow> bool" where
  "plic_quiet p ctx n \<longleftrightarrow> (\<forall>t. 1 \<le> t \<and> t < n \<longrightarrow> \<not> plic_candidate p ctx (plic_lines p) t)"

text \<open>A platform with the UART (source 10) and the block device (source 1) both asserting, enabled
  for context 1; source 10 has the higher priority.\<close>

definition plic_demo :: Platform where
  "plic_demo = plat_init\<lparr>
     p_uart := (p_uart plat_init)\<lparr>u_ier := 1, u_rx_have := True, u_rx := 0x41\<rparr>,
     p_virtio := virtio_zero\<lparr>v_interrupt_status := 1\<rparr>,
     p_plic := (p_plic plat_init)\<lparr>pl_priority := (\<lambda>_. 0)(1 := 1, 10 := 2), pl_enable := (\<lambda>_. 0)(1 := 0x402)\<rparr>\<rparr>"

definition plic_demo_claimed :: "u32 \<Rightarrow> Platform" where
  "plic_demo_claimed s = plic_demo\<lparr>p_plic := (p_plic plic_demo)\<lparr>pl_claimed := (\<lambda>_. 0)(1 := s)\<rparr>\<rparr>"

subsection \<open>Properties\<close>

lemma candidate_pos: "plic_candidate p ctx l t \<Longrightarrow> 0 < pl_priority (p_plic p) (of_nat t)"
  by (auto simp: plic_candidate_def not_le intro: le_less_trans)

lemma winner_step:
  assumes "plic_winner p ctx n s" "1 \<le> n"
  shows "plic_winner p ctx (Suc n)
    (if plic_candidate p ctx (plic_lines p) n \<and> pl_priority (p_plic p) (of_nat n) > pl_priority (p_plic p) (of_nat s)
     then n else s)"
proof (cases "plic_candidate p ctx (plic_lines p) n \<and> pl_priority (p_plic p) (of_nat n) > pl_priority (p_plic p) (of_nat s)")
  case True
  with assms show ?thesis
    unfolding plic_winner_def less_Suc_eq by (auto dest: less_trans)
next
  case False
  have "pl_priority (p_plic p) (of_nat t) < pl_priority (p_plic p) (of_nat s) \<or>
        pl_priority (p_plic p) (of_nat t) = pl_priority (p_plic p) (of_nat s) \<and> s \<le> t"
    if "1 \<le> t" "t < Suc n" "plic_candidate p ctx (plic_lines p) t" for t
  proof (cases "t = n")
    case True
    with False that assms show ?thesis
      by (metis less_imp_le linorder_less_linear plic_winner_def)
  next
    case False
    with that assms show ?thesis
      by (simp add: plic_winner_def)
  qed
  with assms show ?thesis
    unfolding if_not_P [OF False] plic_winner_def by simp
qed

lemma quiet_step:
  assumes "plic_quiet p ctx n" "1 \<le> n"
  shows "if plic_candidate p ctx (plic_lines p) n then plic_winner p ctx (Suc n) n else plic_quiet p ctx (Suc n)"
  using assms unfolding plic_quiet_def plic_winner_def less_Suc_eq by auto

lemma plic_scan_spec:
  "plic_quiet p ctx (Suc n) \<and> plic_scan p ctx (plic_lines p) [1..<Suc n] (0, 0) = (0, 0) \<or>
   (\<exists>s. plic_winner p ctx (Suc n) s \<and>
        plic_scan p ctx (plic_lines p) [1..<Suc n] (0, 0) = (of_nat s, pl_priority (p_plic p) (of_nat s)))"
proof (induction n)
  case 0
  then show ?case by (simp add: plic_quiet_def plic_scan_def)
next
  case (Suc n)
  have app: "plic_scan p ctx l [1..<Suc (Suc n)] x = plic_scan p ctx l [Suc n] (plic_scan p ctx l [1..<Suc n] x)" for l x
    by (simp add: plic_scan_def)
  from Suc show ?case
  proof (elim disjE exE conjE)
    assume q: "plic_quiet p ctx (Suc n)" and r: "plic_scan p ctx (plic_lines p) [1..<Suc n] (0, 0) = (0, 0)"
    show ?thesis
      using quiet_step [OF q] candidate_pos [of p ctx "plic_lines p" "Suc n"] unfolding app r
      by (cases "plic_candidate p ctx (plic_lines p) (Suc n)") (auto simp: plic_scan_def)
  next
    fix s assume w: "plic_winner p ctx (Suc n) s"
      and r: "plic_scan p ctx (plic_lines p) [1..<Suc n] (0, 0) = (of_nat s, pl_priority (p_plic p) (of_nat s))"
    have "1 \<le> Suc n" by simp
    moreover have "plic_scan p ctx (plic_lines p) [1..<Suc (Suc n)] (0, 0) =
       (let t = if plic_candidate p ctx (plic_lines p) (Suc n) \<and>
                   pl_priority (p_plic p) (of_nat (Suc n)) > pl_priority (p_plic p) (of_nat s) then Suc n else s
        in (of_nat t, pl_priority (p_plic p) (of_nat t)))"
      unfolding app r by (simp add: plic_scan_def)
    ultimately show ?thesis
      using winner_step [OF w] unfolding Let_def by blast
  qed
qed

lemma plic_best_cases:
  "plic_quiet p ctx 32 \<and> plic_best p ctx = 0 \<or> (\<exists>s. plic_winner p ctx 32 s \<and> plic_best p ctx = of_nat s)"
  using plic_scan_spec [of p ctx 31] by (auto simp: plic_best_def)

lemma small_of_nat: "s < 32 \<Longrightarrow> (of_nat s = (0::u32)) = (s = 0)" "s < 32 \<Longrightarrow> unat (of_nat s :: u32) = s"
  by (simp_all add: unat_of_nat word_eq_unat)

lemma plic_best_eq_0: "plic_best p ctx = 0 \<longleftrightarrow> plic_quiet p ctx 32"
  using plic_best_cases [of p ctx] by (auto simp: plic_winner_def plic_quiet_def small_of_nat)

lemma plic_best_candidate:
  assumes "plic_best p ctx \<noteq> 0"
  shows "plic_winner p ctx 32 (unat (plic_best p ctx))"
  using plic_best_cases [of p ctx] assms by (auto simp: plic_winner_def small_of_nat)

lemma plic_claim_not_offered:
  assumes "plic_claim p ctx = (s, p')" "s \<noteq> 0"
  shows "plic_best p' ctx \<noteq> s"
proof
  assume best: "plic_best p' ctx = s"
  have claimed: "pl_claimed (p_plic p') ctx = s"
    using assms by (auto simp: plic_claim_def Let_def)
  with plic_best_candidate [of p' ctx] best \<open>s \<noteq> 0\<close>
  show False
    by (auto simp: plic_winner_def plic_candidate_def)
qed

lemma plic_ctx_reg:
  assumes "ctx < 16"
  defines "off \<equiv> 0x200000 + ctx * 0x1000 + (4::u32)"
  shows "\<not> off < 0x1000" "off \<noteq> 0x1000" "\<not> off < 0x2800" "0x200000 \<le> off" "off < 0x210000"
    "(off - 0x200000) div 0x1000 = ctx" "(off - 0x200000) mod 0x1000 = 4"
proof -
  have c: "unat ctx < 16"
    using assms(1) by (simp add: word_less_nat_alt)
  have rel: "unat (ctx * 0x1000 + 4) = unat ctx * 0x1000 + 4"
    using c by (simp add: unat_word_ariths)
  have off: "unat off = 0x200004 + unat ctx * 0x1000"
    using c by (simp add: off_def unat_word_ariths)
  show "\<not> off < 0x1000" "off \<noteq> 0x1000" "\<not> off < 0x2800" "0x200000 \<le> off" "off < 0x210000"
    using off c by (auto simp add: word_less_nat_alt word_le_nat_alt)
  have "off - 0x200000 = ctx * 0x1000 + 4"
    by (simp add: off_def)
  then show "(off - 0x200000) div 0x1000 = ctx" "(off - 0x200000) mod 0x1000 = 4"
    using c by (simp_all add: word_eq_unat unat_div unat_mod rel)
qed

lemma plic_claim_reg:
  assumes "ctx < 16"
  shows "plic_read p (0x200000 + ctx * 0x1000 + 4) = plic_claim p ctx"
    "plic_write p (0x200000 + ctx * 0x1000 + 4) val =
      (if val = pl_claimed (p_plic p) ctx
       then p\<lparr>p_plic := (p_plic p)\<lparr>pl_claimed := (pl_claimed (p_plic p))(ctx := 0)\<rparr>\<rparr> else p)"
  unfolding plic_read_def plic_write_def Let_def
  using plic_ctx_reg [OF assms] by simp_all

text \<open>C29: the PLIC scan \<open>plic_best\<close> returns 0 exactly when no source is asserting, enabled, unclaimed
  and above the threshold of the context; otherwise it returns the candidate of highest
  priority, the smallest source number among those that tie.\<close>

theorem plic_best_spec:
  "if plic_quiet p ctx 32 then plic_best p ctx = 0
   else 1 \<le> unat (plic_best p ctx) \<and> plic_winner p ctx 32 (unat (plic_best p ctx))"
  using plic_best_eq_0 [of p ctx] plic_best_candidate [of p ctx] by (auto simp: plic_winner_def)


text \<open>a byte delivered to an empty UART receive buffer is reported by the line status and, when the
  receive interrupt is enabled, asserts the line; a second byte is refused until the guest
  reads; the read returns the byte exactly once and withdraws its interrupt.\<close>

theorem uart_loopback:
  assumes "u_lcr (p_uart p) AND 0x80 = 0" "\<not> u_rx_have (p_uart p)"
  shows "\<exists>p' u. plat_uart_rx p c = (True, p') \<and> plat_uart_rx p' d = (False, p') \<and>
    uart_lsr (p_uart p') AND 1 = 1 \<and>
    uart_asserted (p_uart p') = (u_ier (p_uart p) AND 1 \<noteq> 0 \<or> uart_asserted (p_uart p)) \<and>
    uart_read (p_uart p') 0 = (ucast c, u) \<and> \<not> u_rx_have u \<and> uart_asserted u = uart_asserted (p_uart p)"
  using assms by (auto simp: plat_uart_rx_def uart_read_def uart_lsr_def uart_asserted_def)

text \<open>C39: the interrupt bits a hart pulls are exact: MTIP while its compare is reached, MSIP from its
  IPI register, MEIP and SEIP when its two PLIC contexts have a candidate. The short cut that
  skips both scans when no line is asserted changes nothing.\<close>

theorem plat_mip_bits_exact:
  "plat_mip_bits p hart =
     (if hart < QUANTA_MAX_HARTS \<and> c_mtimecmp (p_clint p) hart \<le> c_mtime (p_clint p) then MIP_MTIP else 0) OR
     (if hart < QUANTA_MAX_HARTS \<and> bit (c_msip (p_clint p) hart) 0 then MIP_MSIP else 0) OR
     (if plic_quiet p (2 * hart) 32 then 0 else MIP_MEIP) OR
     (if plic_quiet p (2 * hart + 1) 32 then 0 else MIP_SEIP)"
proof -
  have "plic_quiet p ctx 32" if "plic_lines p = 0" for ctx
    using that by (simp add: plic_quiet_def plic_candidate_def)
  then show ?thesis
    using and_pow2_neq_0 [of "c_msip (p_clint p) hart" 0]
    by (simp add: plat_mip_bits_def Let_def plic_best_eq_0 or.assoc)
qed

lemma plic_winner_unique: "plic_winner p ctx n s \<Longrightarrow> plic_winner p ctx n t \<Longrightarrow> s = t"
proof -
  have *: "pl_priority (p_plic p) (of_nat t) < pl_priority (p_plic p) (of_nat s) \<or>
      pl_priority (p_plic p) (of_nat t) = pl_priority (p_plic p) (of_nat s) \<and> s \<le> t"
    if "plic_winner p ctx n s" "plic_winner p ctx n t" for s t
    using that unfolding plic_winner_def by simp
  assume "plic_winner p ctx n s" "plic_winner p ctx n t"
  then show "s = t"
    using * [of s t] * [of t s] by auto
qed

lemma winner_not_quiet: "plic_winner p ctx n s \<Longrightarrow> \<not> plic_quiet p ctx n"
  unfolding plic_winner_def plic_quiet_def by blast

lemma plic_best_winner: "plic_winner p ctx 32 s \<Longrightarrow> plic_best p ctx = of_nat s"
proof -
  assume s: "plic_winner p ctx 32 s"
  with winner_not_quiet obtain t where "plic_winner p ctx 32 t" "plic_best p ctx = of_nat t"
    using plic_best_cases [of p ctx] by blast
  with plic_winner_unique [OF s] show ?thesis
    by simp
qed

lemma plic_claim_snd:
  "plic_claim p ctx = (s, p') \<Longrightarrow> s \<noteq> 0 \<Longrightarrow>
   p' = p\<lparr>p_plic := (p_plic p)\<lparr>pl_claimed := (pl_claimed (p_plic p))(ctx := s)\<rparr>\<rparr> \<and> s = plic_best p ctx"
  by (auto simp: plic_claim_def Let_def split: if_splits)

text \<open>the PLIC keeps one claimed source per context: when a second source is claimed before the
  first is completed, the first is offered again although it is still in service.\<close>

theorem plic_second_claim:
  assumes "pl_claimed (p_plic p) ctx = 0"
    and "plic_claim p ctx = (s1, p1)" "s1 \<noteq> 0"
    and "plic_claim p1 ctx = (s2, p2)" "s2 \<noteq> 0"
  shows "s2 \<noteq> s1 \<and> plic_best p2 ctx = s1"
proof -
  have p1: "p1 = p\<lparr>p_plic := (p_plic p)\<lparr>pl_claimed := (pl_claimed (p_plic p))(ctx := s1)\<rparr>\<rparr>" "s1 = plic_best p ctx"
    and p2: "p2 = p1\<lparr>p_plic := (p_plic p1)\<lparr>pl_claimed := (pl_claimed (p_plic p1))(ctx := s2)\<rparr>\<rparr>" "s2 = plic_best p1 ctx"
    using plic_claim_snd assms(2-5) by metis+
  have ne: "s2 \<noteq> s1"
    using plic_claim_not_offered [OF assms(2,3)] p2(2) by simp
  have w: "plic_winner p ctx 32 (unat s1)"
    using plic_best_candidate [of p ctx] p1(2) assms(3) by simp
  have lines: "plic_lines p2 = plic_lines p"
    by (simp add: p1(1) p2(1) plic_lines_def)
  have prio: "pl_priority (p_plic p2) = pl_priority (p_plic p)"
    by (simp add: p1(1) p2(1))
  have cand: "plic_candidate p2 ctx l t \<longleftrightarrow> plic_candidate p ctx l t \<and> of_nat t \<noteq> s2" if "1 \<le> t" "t < 32" for l t
    using assms(1) that by (auto simp: p1(1) p2(1) plic_candidate_def small_of_nat)
  have "plic_winner p2 ctx 32 (unat s1)"
    unfolding plic_winner_def lines prio
  proof (intro conjI allI impI)
    show "1 \<le> unat s1" "unat s1 < 32" "plic_candidate p2 ctx (plic_lines p) (unat s1)"
      using w ne cand [of "unat s1"] by (simp_all add: plic_winner_def)
    fix t assume "1 \<le> t \<and> t < 32 \<and> plic_candidate p2 ctx (plic_lines p) t"
    with cand w show "pl_priority (p_plic p) (of_nat t) < pl_priority (p_plic p) (of_nat (unat s1)) \<or>
        pl_priority (p_plic p) (of_nat t) = pl_priority (p_plic p) (of_nat (unat s1)) \<and> unat s1 \<le> t"
      unfolding plic_winner_def by blast
  qed
  then show ?thesis
    using plic_best_winner [of p2 ctx "unat s1"] ne by simp
qed

lemmas plic_eval = plic_best_def plic_scan_def plic_candidate_def plic_lines_def uart_asserted_def
  plat_init_def virtio_zero_def evals upt_rec_numeral upt_rec

lemma demo_claims:
  "plic_claim plic_demo 1 = (10, plic_demo_claimed 10)"
  "plic_claim (plic_demo_claimed 10) 1 = (1, plic_demo_claimed 1)"
  by (simp_all add: plic_claim_def plic_demo_claimed_def plic_demo_def plic_eval)


theorem plic_second_claim_witness: "plic_best (plic_demo_claimed 1) 1 = 10"
proof -
  have "pl_claimed (p_plic plic_demo) 1 = 0"
    by (simp add: plic_demo_def plat_init_def)
  then show ?thesis
    using plic_second_claim [OF _ demo_claims(1) _ demo_claims(2)] by simp
qed

theorem uart_loopback_witness:
  "\<exists>p' u. plat_uart_rx plat_init 0x41 = (True, p') \<and> uart_read (p_uart p') 0 = (0x41, u) \<and> \<not> u_rx_have u"
  using uart_loopback [of plat_init "0x41" "0x42"] by (auto simp: plat_init_def)

end
