(* ===== verification/Bytes.thy ===== *)
theory Bytes
  imports Quanta_Prelude
begin

text \<open>
  Little-endian access to a block of bytes: the DMA helpers \<open>ld16\<close> to \<open>st32\<close> of \<open>src/src/device.c\<close> and
  the doubleword access of \<open>src/src/memory.c\<close>. A pointer into the block is the index it points at.
  The locale \<open>byte_access\<close> is the contract that memory and the devices rely on: a load after
  a store at the same place returns the value, a store touches its own bytes only, and a load
  depends on its own bytes only. It is interpreted on each width.
\<close>

subsection \<open>Loads and stores\<close>

definition ld16 :: "bytes \<Rightarrow> u64 \<Rightarrow> u16" where
  "ld16 b o' = ucast (b o') OR shl (ucast (b (o' + 1))) 8"

definition ld32 :: "bytes \<Rightarrow> u64 \<Rightarrow> u32" where
  "ld32 b o' = ucast (b o') OR shl (ucast (b (o' + 1))) 8
     OR shl (ucast (b (o' + 2))) 16 OR shl (ucast (b (o' + 3))) 24"

definition ld64 :: "bytes \<Rightarrow> u64 \<Rightarrow> u64" where
  "ld64 b o' = ucast (ld32 b o') OR shl (ucast (ld32 b (o' + 4))) 32"

definition st16 :: "bytes \<Rightarrow> u64 \<Rightarrow> u16 \<Rightarrow> bytes" where
  "st16 b o' v = b(o' := ucast v, o' + 1 := ucast (shr v 8))"

definition st32 :: "bytes \<Rightarrow> u64 \<Rightarrow> u32 \<Rightarrow> bytes" where
  "st32 b o' v = b(o' := ucast v, o' + 1 := ucast (shr v 8),
     o' + 2 := ucast (shr v 16), o' + 3 := ucast (shr v 24))"

text \<open>The eight-byte read of \<open>mem_read64\<close> and the byte loop of \<open>mem_write64\<close>.\<close>

definition le64 :: "bytes \<Rightarrow> u64 \<Rightarrow> u64" where
  "le64 b o' = ucast (b o') OR shl (ucast (b (o' + 1))) 8
     OR shl (ucast (b (o' + 2))) 16 OR shl (ucast (b (o' + 3))) 24
     OR shl (ucast (b (o' + 4))) 32 OR shl (ucast (b (o' + 5))) 40
     OR shl (ucast (b (o' + 6))) 48 OR shl (ucast (b (o' + 7))) 56"

definition st64 :: "bytes \<Rightarrow> u64 \<Rightarrow> u64 \<Rightarrow> bytes" where
  "st64 b o' v = fold (\<lambda>k b. b(o' + of_nat k := ucast (shr v (8 * k)))) [0..<8] b"

definition ld8 :: "bytes \<Rightarrow> u64 \<Rightarrow> u8" where
  "ld8 b o' = b o'"

definition st8 :: "bytes \<Rightarrow> u64 \<Rightarrow> u8 \<Rightarrow> bytes" where
  "st8 b o' v = b(o' := v)"

subsection \<open>The contract\<close>

locale byte_access =
  fixes ld :: "bytes \<Rightarrow> u64 \<Rightarrow> 'a::len word"
    and st :: "bytes \<Rightarrow> u64 \<Rightarrow> 'a word \<Rightarrow> bytes"
    and w :: u64
  assumes ld_st: "ld (st b i v) i = v"
    and st_frame: "w \<le> j - i \<Longrightarrow> st b i v j = b j"
    and ld_cong: "(\<And>j. j - i < w \<Longrightarrow> b j = b' j) \<Longrightarrow> ld b i = ld b' i"
    and st_cong: "b j = b' j \<Longrightarrow> st b i v j = st b' i v j"
begin

lemma ld_st_disjoint:
  assumes "\<And>k. k - j < w \<Longrightarrow> w \<le> k - i"
  shows "ld (st b i v) j = ld b j"
  by (rule ld_cong) (simp add: st_frame assms)

lemma st_outside:
  assumes "unat i + unat w \<le> unat n" "n \<le> j"
  shows "st b i v j = b j"
proof (rule st_frame)
  have "i \<le> j"
    using assms by (simp add: word_le_nat_alt)
  then show "w \<le> j - i"
    using assms by (simp add: word_le_nat_alt unat_sub)
qed

end

lemma less_numeral_cases:
  "x < 2 \<Longrightarrow> x = 0 \<or> x = 1"
  "x < 4 \<Longrightarrow> x = 0 \<or> x = 1 \<or> x = 2 \<or> x = 3"
  "x < 8 \<Longrightarrow> x = 0 \<or> x = 1 \<or> x = 2 \<or> x = 3 \<or> x = 4 \<or> x = 5 \<or> x = 6 \<or> x = 7"
  for x :: u64
  unfolding word_eq_unat word_less_nat_alt by (simp_all del: unat_eq_0) arith+

lemma offset_eq: "j - i = k \<longleftrightarrow> j = i + k"
  for i j k :: u64
  by (auto simp: algebra_simps)

lemma not_at_offset: "w \<le> j - i \<Longrightarrow> k < w \<Longrightarrow> j \<noteq> i + k"
  for i j k w :: u64
  by auto

lemma at_offset: "j - i < 2 \<Longrightarrow> j = i \<or> j = i + 1"
  "j - i < 4 \<Longrightarrow> j = i \<or> j = i + 1 \<or> j = i + 2 \<or> j = i + 3"
  "j - i < 8 \<Longrightarrow> j = i \<or> j = i + 1 \<or> j = i + 2 \<or> j = i + 3 \<or> j = i + 4 \<or> j = i + 5 \<or> j = i + 6 \<or> j = i + 7"
  for i j :: u64
  using less_numeral_cases [of "j - i"] by (auto simp: offset_eq)

lemma st64_unfold:
  "st64 b i v = b(i := ucast v, i + 1 := ucast (shr v 8), i + 2 := ucast (shr v 16), i + 3 := ucast (shr v 24),
     i + 4 := ucast (shr v 32), i + 5 := ucast (shr v 40), i + 6 := ucast (shr v 48), i + 7 := ucast (shr v 56))"
  by (simp add: st64_def upt_rec_numeral upt_rec shr_def)

interpretation b8: byte_access ld8 st8 1
  by unfold_locales (auto simp: ld8_def st8_def)

interpretation b16: byte_access ld16 st16 2
proof (unfold_locales, goal_cases)
  case (1 b i v)
  show ?case
    by (simp add: ld16_def st16_def) (simp add: bit_blast bits)
next
  case (2 j i b v)
  then show ?case
    using not_at_offset [of 2 j i 0] not_at_offset [of 2 j i 1] by (simp add: st16_def)
next
  case (3 i b b')
  then show ?case by (simp add: ld16_def)
next
  case (4 b j b' i v)
  then show ?case by (simp add: st16_def)
qed

interpretation b32: byte_access ld32 st32 4
proof (unfold_locales, goal_cases)
  case (1 b i v)
  show ?case
    by (simp add: ld32_def st32_def) (simp add: bit_blast bits)
next
  case (2 j i b v)
  then show ?case
    using not_at_offset [of 4 j i] not_at_offset [of 4 j i 0] by (simp add: st32_def)
next
  case (3 i b b')
  then show ?case by (simp add: ld32_def)
next
  case (4 b j b' i v)
  then show ?case by (simp add: st32_def)
qed

interpretation b64: byte_access le64 st64 8
proof (unfold_locales, goal_cases)
  case (1 b i v)
  show ?case
    by (simp add: le64_def st64_unfold) (simp add: bit_blast bits)
next
  case (2 j i b v)
  then show ?case
    using not_at_offset [of 8 j i] not_at_offset [of 8 j i 0] by (simp add: st64_unfold)
next
  case (3 i b b')
  then show ?case by (simp add: le64_def)
next
  case (4 b j b' i v)
  then show ?case by (simp add: st64_unfold)
qed

lemma ld64_le64: "ld64 b i = le64 b i"
  by (simp add: ld64_def le64_def ld32_def add.assoc) (simp add: bit_blast bits)

end
