(* ===== verification/Virtio.thy ===== *)
theory Virtio
  imports Device Bytes
begin

text \<open>
  The two bus-mastering devices of \<open>src/src/device.c\<close>: the virtio-mmio block device and the
  virtio-net device, with the descriptor-chain walk and the DMA bounds check they share.

  The pointer \<open>p->ram\<close> aliases the bytes of guest memory, so the DMA operations act on a \<open>Bus\<close>: the
  platform, the guest bytes, the characters sent to the host console and the frames handed to
  the host network backend. A pointer into guest RAM is its index in the byte array. The
  request loops are recursive functions; that they end is proved with their definition.
\<close>

record Bus =
  b_plat :: Platform
  b_ram :: bytes
  b_con :: "u8 list"
  b_sent :: "u8 list list"

abbreviation (input) V_QUEUE_MAX :: u32 where "V_QUEUE_MAX \<equiv> 256"
abbreviation (input) VRING_DESC_F_NEXT :: u16 where "VRING_DESC_F_NEXT \<equiv> 1"
abbreviation (input) VIRTIO_BLK_T_IN :: u32 where "VIRTIO_BLK_T_IN \<equiv> 0"
abbreviation (input) VIRTIO_BLK_T_OUT :: u32 where "VIRTIO_BLK_T_OUT \<equiv> 1"
abbreviation (input) VIRTIO_BLK_T_FLUSH :: u32 where "VIRTIO_BLK_T_FLUSH \<equiv> 4"
abbreviation (input) VIRTIO_BLK_S_OK :: u8 where "VIRTIO_BLK_S_OK \<equiv> 0"
abbreviation (input) VIRTIO_BLK_S_IOERR :: u8 where "VIRTIO_BLK_S_IOERR \<equiv> 1"
abbreviation (input) SECTOR_SIZE :: u64 where "SECTOR_SIZE \<equiv> 512"
abbreviation (input) LONG_MAX :: u64 where "LONG_MAX \<equiv> 0x7fffffffffffffff"
abbreviation (input) VIRTIO_NET_RXQ :: u32 where "VIRTIO_NET_RXQ \<equiv> 0"
abbreviation (input) VIRTIO_NET_TXQ :: u32 where "VIRTIO_NET_TXQ \<equiv> 1"
abbreviation (input) VIRTIO_NET_NQUEUES :: u32 where "VIRTIO_NET_NQUEUES \<equiv> 2"
abbreviation (input) VIRTIO_NET_FIFO :: u32 where "VIRTIO_NET_FIFO \<equiv> 16"
abbreviation (input) VIRTIO_NET_FRAME_MAX :: nat where "VIRTIO_NET_FRAME_MAX \<equiv> 1600"
abbreviation (input) VIRTIO_NET_HDR_LEN :: nat where "VIRTIO_NET_HDR_LEN \<equiv> 12"

subsection \<open>DMA and descriptor chains\<close>

definition dma_ptr :: "Platform \<Rightarrow> u64 \<Rightarrow> u64 \<Rightarrow> u64 option" where
  "dma_ptr p addr len =
     (if \<not> p_ram p \<or> len > p_ram_size p \<or> addr < p_ram_base p then None
      else (let off = addr - p_ram_base p
            in if off > p_ram_size p - len then None else Some off))"

text \<open>One entry of a gathered chain: \<open>(addr[n], len[n])\<close>. The recursion bound is the number of
  descriptors \<open>vq_chain\<close> may still gather, so it stands for both limits of the loop; no caller
  asks for the writable flags.\<close>

fun vq_walk :: "Platform \<Rightarrow> bytes \<Rightarrow> u64 \<Rightarrow> nat \<Rightarrow> u16 \<Rightarrow> (u64 \<times> u32) list" where
  "vq_walk p ram desc_base 0 idx = []"
| "vq_walk p ram desc_base (Suc left) idx =
     (case dma_ptr p (desc_base + ucast idx * 16) 16 of
        None \<Rightarrow> []
      | Some d \<Rightarrow>
          (ld64 ram d, ld32 ram (d + 8)) #
          (if ld16 ram (d + 12) AND VRING_DESC_F_NEXT = 0 then []
           else vq_walk p ram desc_base left (ld16 ram (d + 14))))"

definition vq_chain :: "Platform \<Rightarrow> bytes \<Rightarrow> u64 \<Rightarrow> u32 \<Rightarrow> u16 \<Rightarrow> (u64 \<times> u32) list" where
  "vq_chain p ram desc_base qn head = vq_walk p ram desc_base (min (unat qn) (unat V_QUEUE_MAX)) head"

subsection \<open>Block device\<close>

text \<open>The disk image as the copy loop sees it.\<close>

definition in_image :: "Disk \<Rightarrow> u64 \<Rightarrow> bool" where
  "in_image d pos \<longleftrightarrow> d_data d \<noteq> None \<and> pos < d_size d"

definition blk_byte :: "u32 \<Rightarrow> u64 \<Rightarrow> u64 \<Rightarrow> nat \<Rightarrow> Disk \<times> bytes \<Rightarrow> Disk \<times> bytes" where
  "blk_byte type buf off k = (\<lambda>(d, ram).
     let pos = off + of_nat k; at = buf + of_nat k
     in if type = VIRTIO_BLK_T_IN then (d, ram(at := if in_image d pos then the (d_data d) pos else 0))
        else if type = VIRTIO_BLK_T_OUT \<and> in_image d pos
        then (d\<lparr>d_data := Some ((the (d_data d))(pos := ram at))\<rparr>, ram)
        else (d, ram))"

text \<open>The write-through of the span \<open>[off, end)\<close> to the backing file; \<open>fseek\<close> and \<open>fwrite\<close> succeed.\<close>

definition blk_write_through :: "Disk \<Rightarrow> u32 \<Rightarrow> u64 \<Rightarrow> u32 \<Rightarrow> Disk" where
  "blk_write_through d type off len =
     (if type = VIRTIO_BLK_T_OUT \<and> d_writable d \<and> d_file d \<noteq> None \<and> d_data d \<noteq> None \<and>
         off < d_size d \<and> off \<le> LONG_MAX
      then (let end = off + ucast len; end = (if end > d_size d then d_size d else end)
            in d\<lparr>d_file := Some (\<lambda>i. if off \<le> i \<and> i < end then the (d_data d) i else the (d_file d) i)\<rparr>)
      else d)"

text \<open>The loop over the data descriptors; it returns the status and the bytes written.\<close>

fun blk_buffers :: "Platform \<Rightarrow> u32 \<Rightarrow> (u64 \<times> u32) list \<Rightarrow> u64 \<Rightarrow> u32 \<Rightarrow> Disk \<times> bytes \<Rightarrow> u8 \<times> u32 \<times> Disk \<times> bytes" where
  "blk_buffers p type [] off written (d, ram) = (VIRTIO_BLK_S_OK, written, d, ram)"
| "blk_buffers p type ((addr, len) # rest) off written (d, ram) =
     (case dma_ptr p addr (ucast len) of
        None \<Rightarrow> (VIRTIO_BLK_S_IOERR, written, d, ram)
      | Some buf \<Rightarrow>
          (let (d, ram) = fold (blk_byte type buf off) [0..<unat len] (d, ram);
               d = blk_write_through d type off len
           in blk_buffers p type rest (off + ucast len)
                (if type = VIRTIO_BLK_T_IN then written + len else written) (d, ram)))"

definition virtio_service :: "Bus \<Rightarrow> u16 \<Rightarrow> u32 \<times> Bus" where
  "virtio_service b head =
     (let p = b_plat b; v = p_virtio p; qn = v_queue_num v
      in if qn = 0 \<or> qn > V_QUEUE_MAX then (0, b)
         else (let chain = vq_chain p (b_ram b) (v_desc_addr v) qn head
               in if length chain < 2 then (0, b)
                  else (let (type, sector) =
                              (case dma_ptr p (fst (hd chain)) 16 of
                                 None \<Rightarrow> (VIRTIO_BLK_T_IN, 0)
                               | Some hdr \<Rightarrow> (ld32 (b_ram b) hdr, ld64 (b_ram b) (hdr + 8)));
                            (status, written, d, ram) =
                              blk_buffers p type (butlast (tl chain)) (sector * SECTOR_SIZE) 0 (p_disk p, b_ram b);
                            d = (if type = VIRTIO_BLK_T_FLUSH \<and> d_writable d \<and> d_file d \<noteq> None
                                 then d\<lparr>d_flushed := d_file d\<rparr> else d);
                            ram = (case dma_ptr p (fst (last chain)) 1 of
                                     None \<Rightarrow> ram | Some st \<Rightarrow> ram(st := status))
                        in (written + 1, b\<lparr>b_plat := p\<lparr>p_disk := d\<rparr>, b_ram := ram\<rparr>))))"

text \<open>Publishing one completion in the used ring at index \<open>used\<close>: the element, then the index.\<close>

definition push_used :: "bytes \<Rightarrow> u64 \<Rightarrow> u32 \<Rightarrow> u16 \<Rightarrow> u32 \<Rightarrow> bytes" where
  "push_used ram used num head wlen =
     (let uidx = ld16 ram (used + 2);
          elem = used + 4 + (ucast (ucast uidx mod num) :: u64) * 8;
          ram = st32 ram elem (ucast head);
          ram = st32 ram (elem + 4) wlen
      in st16 ram (used + 2) (uidx + 1))"

text \<open>The available-ring entry for the device's consumer index.\<close>

definition avail_head :: "bytes \<Rightarrow> u64 \<Rightarrow> u32 \<Rightarrow> u16 \<Rightarrow> u16" where
  "avail_head ram avail num last_avail =
     (let slot = ucast (ucast last_avail mod num) :: u16
      in ld16 ram (avail + 4 + ucast slot * 2))"

definition virtio_one :: "Bus \<Rightarrow> u64 \<Rightarrow> u64 \<Rightarrow> Bus" where
  "virtio_one b avail used =
     (let v = p_virtio (b_plat b);
          head = avail_head (b_ram b) avail (v_queue_num v) (v_last_avail v);
          (wlen, b) = virtio_service b head;
          ram = push_used (b_ram b) used (v_queue_num v) head wlen;
          p = b_plat b; v = p_virtio p
      in b\<lparr>b_ram := ram, b_plat := p\<lparr>p_virtio := v\<lparr>v_last_avail := v_last_avail v + 1\<rparr>\<rparr>\<rparr>)"

lemma virtio_service_virtio: "p_virtio (b_plat (snd (virtio_service b head))) = p_virtio (b_plat b)"
  by (simp add: virtio_service_def Let_def split: prod.splits option.splits)

lemma virtio_one_last_avail:
  "v_last_avail (p_virtio (b_plat (virtio_one b avail used))) = v_last_avail (p_virtio (b_plat b)) + 1"
  using virtio_service_virtio [of b]
  by (simp add: virtio_one_def Let_def split: prod.splits) (metis snd_conv)

lemma ring_distance_decreases: "i \<noteq> j \<Longrightarrow> unat (j - (i + 1)) < unat (j - i)"
  for i j :: u16
  using measure_unat [of "j - i"] by (simp add: diff_diff_eq)

function virtio_drain :: "Bus \<Rightarrow> u64 \<Rightarrow> u64 \<Rightarrow> u16 \<Rightarrow> Bus" where
  "virtio_drain b avail used avail_idx =
     (if v_last_avail (p_virtio (b_plat b)) = avail_idx then b
      else virtio_drain (virtio_one b avail used) avail used avail_idx)"
  by auto
termination
  by (relation "measure (\<lambda>(b, _, _, idx). unat (idx - v_last_avail (p_virtio (b_plat b))))")
    (simp_all add: virtio_one_last_avail ring_distance_decreases)

declare virtio_drain.simps [simp del]

definition virtio_notify :: "Bus \<Rightarrow> Bus" where
  "virtio_notify b =
     (let p = b_plat b; v = p_virtio p
      in if v_queue_ready v = 0 \<or> v_queue_num v = 0 \<or> v_queue_num v > V_QUEUE_MAX then b
         else (case (dma_ptr p (v_avail_addr v) (4 + ucast (v_queue_num v) * 2),
                     dma_ptr p (v_used_addr v) (4 + ucast (v_queue_num v) * 8)) of
                 (Some avail, Some used) \<Rightarrow>
                   (let b = virtio_drain b avail used (ld16 (b_ram b) (avail + 2));
                        p = b_plat b; v = p_virtio p
                    in b\<lparr>b_plat := p\<lparr>p_virtio := v\<lparr>v_interrupt_status := v_interrupt_status v OR 0x1\<rparr>\<rparr>\<rparr>)
               | _ \<Rightarrow> b))"

definition virtio_reset :: "Virtio \<Rightarrow> Virtio" where
  "virtio_reset v = virtio_zero"

definition virtio_read :: "Platform \<Rightarrow> u32 \<Rightarrow> u32" where
  "virtio_read p off =
     (let v = p_virtio p
      in if off = 0x000 then 0x74726976
         else if off = 0x004 then 2
         else if off = 0x008 then 2
         else if off = 0x00c then 0x554d4551
         else if off = 0x010 then
           (if v_features_sel v = 1 then 1 else if d_writable (p_disk p) then shl 1 9 else 0)
         else if off = 0x034 then V_QUEUE_MAX
         else if off = 0x044 then v_queue_ready v
         else if off = 0x060 then v_interrupt_status v
         else if off = 0x070 then v_status v
         else if off = 0x0fc then 0
         else if off = 0x100 then ucast (d_size (p_disk p) div SECTOR_SIZE)
         else if off = 0x104 then ucast (shr (d_size (p_disk p) div SECTOR_SIZE) 32)
         else 0)"

text \<open>A register write that only changes the block device's own registers.\<close>

definition virtio_reg_write :: "Virtio \<Rightarrow> u32 \<Rightarrow> u32 \<Rightarrow> Virtio" where
  "virtio_reg_write v off val =
     (if off = 0x014 then v\<lparr>v_features_sel := val\<rparr>
      else if off = 0x038 then v\<lparr>v_queue_num := val\<rparr>
      else if off = 0x044 then v\<lparr>v_queue_ready := val AND 1\<rparr>
      else if off = 0x064 then v\<lparr>v_interrupt_status := v_interrupt_status v AND NOT val\<rparr>
      else if off = 0x070 then (if val = 0 then virtio_reset (v\<lparr>v_status := val\<rparr>) else v\<lparr>v_status := val\<rparr>)
      else if off = 0x080 then v\<lparr>v_desc_addr := set_lo (v_desc_addr v) val\<rparr>
      else if off = 0x084 then v\<lparr>v_desc_addr := set_hi (v_desc_addr v) val\<rparr>
      else if off = 0x090 then v\<lparr>v_avail_addr := set_lo (v_avail_addr v) val\<rparr>
      else if off = 0x094 then v\<lparr>v_avail_addr := set_hi (v_avail_addr v) val\<rparr>
      else if off = 0x0a0 then v\<lparr>v_used_addr := set_lo (v_used_addr v) val\<rparr>
      else if off = 0x0a4 then v\<lparr>v_used_addr := set_hi (v_used_addr v) val\<rparr>
      else v)"

definition virtio_write :: "Bus \<Rightarrow> u32 \<Rightarrow> u32 \<Rightarrow> Bus" where
  "virtio_write b off val =
     (if off = 0x050 then virtio_notify b
      else b\<lparr>b_plat := (b_plat b)\<lparr>p_virtio := virtio_reg_write (p_virtio (b_plat b)) off val\<rparr>\<rparr>)"

subsection \<open>Network device\<close>

text \<open>A frame passed as pointer and length is a list of bytes; the receive FIFO keeps the C layout.\<close>

definition net_fifo_push :: "VirtioNet \<Rightarrow> u8 list \<Rightarrow> bool \<times> VirtioNet" where
  "net_fifo_push n frame =
     (if length frame = 0 \<or> length frame > VIRTIO_NET_FRAME_MAX then (False, n)
      else if n_fifo_count n \<ge> VIRTIO_NET_FIFO then (False, n)
      else (let tail = (n_fifo_head n + n_fifo_count n) mod VIRTIO_NET_FIFO
            in (True, n\<lparr>n_fifo := (n_fifo n)(tail :=
                          \<lambda>j. if unat j < length frame then frame ! unat j else n_fifo n tail j),
                        n_fifo_len := (n_fifo_len n)(tail := of_nat (length frame)),
                        n_fifo_count := n_fifo_count n + 1\<rparr>)))"

fun net_gather :: "Platform \<Rightarrow> bytes \<Rightarrow> (u64 \<times> u32) list \<Rightarrow> u8 list \<Rightarrow> nat \<Rightarrow> u8 list" where
  "net_gather p ram [] out cap = out"
| "net_gather p ram ((addr, len) # rest) out cap =
     (if length out < cap then
        (case dma_ptr p addr (ucast len) of
           None \<Rightarrow> net_gather p ram rest out cap
         | Some b \<Rightarrow>
             net_gather p ram rest (out @ map (\<lambda>k. ram (b + of_nat k)) [0..<min (unat len) (cap - length out)]) cap)
      else out)"

text \<open>\<open>net_scatter\<close> copies the bytes of header and frame, in order; \<open>src\<close> is what is left of them. The
  copy within one buffer stops when either runs out.\<close>

fun scatter_buf :: "bytes \<Rightarrow> u64 \<Rightarrow> nat \<Rightarrow> u8 list \<Rightarrow> bytes \<times> u8 list" where
  "scatter_buf ram at 0 src = (ram, src)"
| "scatter_buf ram at (Suc k) [] = (ram, [])"
| "scatter_buf ram at (Suc k) (x # src) = scatter_buf (ram(at := x)) (at + 1) k src"

fun net_scatter :: "Platform \<Rightarrow> bytes \<Rightarrow> (u64 \<times> u32) list \<Rightarrow> u8 list \<Rightarrow> bytes \<times> u8 list" where
  "net_scatter p ram [] src = (ram, src)"
| "net_scatter p ram ((addr, len) # rest) src =
     (case dma_ptr p addr (ucast len) of
        None \<Rightarrow> net_scatter p ram rest src
      | Some b \<Rightarrow> (let (ram, src) = scatter_buf ram b (unat len) src in net_scatter p ram rest src))"

text \<open>The twelve-byte virtio-net header with \<open>num_buffers = 1\<close>, and the frame in FIFO slot \<open>fi\<close>.\<close>

definition net_hdr :: "u8 list" where
  "net_hdr = [0, 0, 0, 0, 0, 0, 0, 0, 0, 0, 1, 0]"

definition fifo_frame :: "VirtioNet \<Rightarrow> u32 \<Rightarrow> u8 list" where
  "fifo_frame n fi = map (\<lambda>j. n_fifo n fi (of_nat j)) [0..<unat (n_fifo_len n fi)]"

text \<open>Writing back one queue of the device, and one round of the delivery loop: the frame at the head of
  the FIFO goes to the next posted receive buffer.\<close>

definition upd_vq :: "u32 \<Rightarrow> (Virtqueue \<Rightarrow> Virtqueue) \<Rightarrow> VirtioNet \<Rightarrow> VirtioNet" where
  "upd_vq k f n = n\<lparr>n_vq := (n_vq n)(k := f (n_vq n k))\<rparr>"

definition upd_net :: "(VirtioNet \<Rightarrow> VirtioNet) \<Rightarrow> Bus \<Rightarrow> Bus" where
  "upd_net f b = b\<lparr>b_plat := (b_plat b)\<lparr>p_net := f (p_net (b_plat b))\<rparr>\<rparr>"

definition net_fifo_pop :: "VirtioNet \<Rightarrow> VirtioNet" where
  "net_fifo_pop n = n\<lparr>n_fifo_head := (n_fifo_head n + 1) mod VIRTIO_NET_FIFO, n_fifo_count := n_fifo_count n - 1\<rparr>"

definition net_rx_one :: "Bus \<Rightarrow> u64 \<Rightarrow> u64 \<Rightarrow> Bus" where
  "net_rx_one b avail used =
     (let p = b_plat b; n = p_net p; q = n_vq n VIRTIO_NET_RXQ;
          head = avail_head (b_ram b) avail (q_num q) (q_last_avail q);
          chain = vq_chain p (b_ram b) (q_desc_addr q) (q_num q) head;
          src = net_hdr @ fifo_frame n (n_fifo_head n);
          (ram, left) = net_scatter p (b_ram b) chain src;
          ram = push_used ram used (q_num q) head (of_nat (length src - length left))
      in upd_net (\<lambda>n. net_fifo_pop (upd_vq VIRTIO_NET_RXQ (\<lambda>q. q\<lparr>q_last_avail := q_last_avail q + 1\<rparr>) n))
           (b\<lparr>b_ram := ram\<rparr>))"

lemma net_rx_one_count:
  "n_fifo_count (p_net (b_plat (net_rx_one b avail used))) = n_fifo_count (p_net (b_plat b)) - 1"
  by (simp add: net_rx_one_def net_fifo_pop_def Let_def upd_net_def upd_vq_def split: prod.splits)

text \<open>The loop of \<open>net_deliver_rx\<close>, with the flag \<open>delivered\<close>. It re-reads the driver's index each time
  round, and ends because the FIFO shrinks.\<close>

function net_drain_rx :: "Bus \<Rightarrow> u64 \<Rightarrow> u64 \<Rightarrow> bool \<Rightarrow> bool \<times> Bus" where
  "net_drain_rx b avail used delivered =
     (if n_fifo_count (p_net (b_plat b)) = 0 \<or>
         q_last_avail (n_vq (p_net (b_plat b)) VIRTIO_NET_RXQ) = ld16 (b_ram b) (avail + 2)
      then (delivered, b)
      else net_drain_rx (net_rx_one b avail used) avail used True)"
  by auto
termination
  by (relation "measure (\<lambda>(b, _, _, _). unat (n_fifo_count (p_net (b_plat b))))")
    (simp_all add: net_rx_one_count measure_unat)

declare net_drain_rx.simps [simp del]

definition net_raise :: "Bus \<Rightarrow> Bus" where
  "net_raise = upd_net (\<lambda>n. n\<lparr>n_interrupt_status := n_interrupt_status n OR 0x1\<rparr>)"

text \<open>The ring pointers of a live queue: \<open>None\<close> is the early return of the two queue handlers.\<close>

definition vq_rings :: "Platform \<Rightarrow> Virtqueue \<Rightarrow> (u64 \<times> u64) option" where
  "vq_rings p q =
     (if q_ready q = 0 \<or> q_num q = 0 \<or> q_num q > V_QUEUE_MAX then None
      else (case (dma_ptr p (q_avail_addr q) (4 + ucast (q_num q) * 2),
                  dma_ptr p (q_used_addr q) (4 + ucast (q_num q) * 8)) of
              (Some avail, Some used) \<Rightarrow> Some (avail, used)
            | _ \<Rightarrow> None))"

definition net_deliver_rx :: "Bus \<Rightarrow> Bus" where
  "net_deliver_rx b =
     (case vq_rings (b_plat b) (n_vq (p_net (b_plat b)) VIRTIO_NET_RXQ) of
        None \<Rightarrow> b
      | Some (avail, used) \<Rightarrow>
          (let (delivered, b) = net_drain_rx b avail used False
           in if delivered then net_raise b else b))"

text \<open>A frame given to the backend callback is appended to the log \<open>b_sent\<close>. What the backend
  does with it (it may later call \<open>plat_net_rx\<close>) is not part of this transition.\<close>

definition net_transmit :: "Bus \<Rightarrow> u8 list \<Rightarrow> Bus" where
  "net_transmit b frame =
     (if n_tx (p_net (b_plat b)) then b\<lparr>b_sent := b_sent b @ [frame]\<rparr>
      else (let (ok, n) = net_fifo_push (p_net (b_plat b)) frame;
                b = upd_net (\<lambda>_. n) b
            in if ok then net_deliver_rx b else b))"

definition net_tx_one :: "Bus \<Rightarrow> u64 \<Rightarrow> u64 \<Rightarrow> Bus" where
  "net_tx_one b avail used =
     (let p = b_plat b; q = n_vq (p_net p) VIRTIO_NET_TXQ;
          head = avail_head (b_ram b) avail (q_num q) (q_last_avail q);
          chain = vq_chain p (b_ram b) (q_desc_addr q) (q_num q) head;
          buf = net_gather p (b_ram b) chain [] (VIRTIO_NET_HDR_LEN + VIRTIO_NET_FRAME_MAX);
          b = (if length buf > VIRTIO_NET_HDR_LEN then net_transmit b (drop VIRTIO_NET_HDR_LEN buf) else b);
          ram = push_used (b_ram b) used (q_num q) head 0
      in upd_net (upd_vq VIRTIO_NET_TXQ (\<lambda>q. q\<lparr>q_last_avail := q_last_avail q + 1\<rparr>)) (b\<lparr>b_ram := ram\<rparr>))"

lemma net_drain_rx_txq:
  "n_vq (p_net (b_plat (snd (net_drain_rx b avail used d)))) VIRTIO_NET_TXQ
   = n_vq (p_net (b_plat b)) VIRTIO_NET_TXQ"
proof (induction b avail used d rule: net_drain_rx.induct)
  case (1 b avail used d)
  have "n_vq (p_net (b_plat (net_rx_one b avail used))) VIRTIO_NET_TXQ = n_vq (p_net (b_plat b)) VIRTIO_NET_TXQ"
    by (simp add: net_rx_one_def net_fifo_pop_def Let_def upd_net_def upd_vq_def split: prod.splits)
  with 1 show ?case
    by (subst net_drain_rx.simps) simp
qed

lemma net_deliver_rx_txq:
  "n_vq (p_net (b_plat (net_deliver_rx b))) VIRTIO_NET_TXQ = n_vq (p_net (b_plat b)) VIRTIO_NET_TXQ"
  using net_drain_rx_txq [of b]
  by (simp add: net_deliver_rx_def net_raise_def upd_net_def Let_def split: option.splits prod.splits)
    (metis snd_conv)

lemma net_transmit_txq:
  "n_vq (p_net (b_plat (net_transmit b frame))) VIRTIO_NET_TXQ = n_vq (p_net (b_plat b)) VIRTIO_NET_TXQ"
  by (auto simp: net_transmit_def net_fifo_push_def upd_net_def Let_def net_deliver_rx_txq split: if_splits)

lemma net_tx_one_last_avail:
  "q_last_avail (n_vq (p_net (b_plat (net_tx_one b avail used))) VIRTIO_NET_TXQ)
   = q_last_avail (n_vq (p_net (b_plat b)) VIRTIO_NET_TXQ) + 1"
  by (simp add: net_tx_one_def Let_def upd_net_def upd_vq_def net_transmit_txq)

function net_drain_tx :: "Bus \<Rightarrow> u64 \<Rightarrow> u64 \<Rightarrow> u16 \<Rightarrow> bool \<Rightarrow> bool \<times> Bus" where
  "net_drain_tx b avail used avail_idx sent =
     (if q_last_avail (n_vq (p_net (b_plat b)) VIRTIO_NET_TXQ) = avail_idx then (sent, b)
      else net_drain_tx (net_tx_one b avail used) avail used avail_idx True)"
  by auto
termination
  by (relation "measure (\<lambda>(b, _, _, idx, _). unat (idx - q_last_avail (n_vq (p_net (b_plat b)) VIRTIO_NET_TXQ)))")
    (simp_all add: net_tx_one_last_avail ring_distance_decreases)

declare net_drain_tx.simps [simp del]

definition net_process_tx :: "Bus \<Rightarrow> Bus" where
  "net_process_tx b =
     (case vq_rings (b_plat b) (n_vq (p_net (b_plat b)) VIRTIO_NET_TXQ) of
        None \<Rightarrow> b
      | Some (avail, used) \<Rightarrow>
          (let (sent, b) = net_drain_tx b avail used (ld16 (b_ram b) (avail + 2)) False
           in if sent then net_raise b else b))"

definition net_reset :: "VirtioNet \<Rightarrow> VirtioNet" where
  "net_reset n = n\<lparr>n_status := 0, n_features_sel := 0, n_driver_feat_sel := 0, n_queue_sel := 0,
     n_interrupt_status := 0, n_vq := (n_vq n)(0 := virtqueue_zero, 1 := virtqueue_zero),
     n_fifo_head := 0, n_fifo_count := 0\<rparr>"

definition virtio_net_read :: "Platform \<Rightarrow> u32 \<Rightarrow> u32" where
  "virtio_net_read p off =
     (let n = p_net p
      in if off = 0x000 then 0x74726976
         else if off = 0x004 then 2
         else if off = 0x008 then 1
         else if off = 0x00c then 0x554d4551
         else if off = 0x010 then (if n_features_sel n = 1 then 1 else shl 1 5)
         else if off = 0x034 then V_QUEUE_MAX
         else if off = 0x044 then
           (if n_queue_sel n < VIRTIO_NET_NQUEUES then q_ready (n_vq n (n_queue_sel n)) else 0)
         else if off = 0x060 then n_interrupt_status n
         else if off = 0x070 then n_status n
         else if off = 0x0fc then 0
         else if off = 0x100 then
           ucast (n_mac n 0) OR shl (ucast (n_mac n 1)) 8 OR shl (ucast (n_mac n 2)) 16 OR shl (ucast (n_mac n 3)) 24
         else if off = 0x104 then ucast (n_mac n 4) OR shl (ucast (n_mac n 5)) 8
         else 0)"

text \<open>A write to a register of the selected queue; a selector beyond the two queues drops it.\<close>

definition vq_reg_write :: "Virtqueue \<Rightarrow> u32 \<Rightarrow> u32 \<Rightarrow> Virtqueue" where
  "vq_reg_write q off val =
     (if off = 0x038 then q\<lparr>q_num := val\<rparr>
      else if off = 0x044 then q\<lparr>q_ready := val AND 1\<rparr>
      else if off = 0x080 then q\<lparr>q_desc_addr := set_lo (q_desc_addr q) val\<rparr>
      else if off = 0x084 then q\<lparr>q_desc_addr := set_hi (q_desc_addr q) val\<rparr>
      else if off = 0x090 then q\<lparr>q_avail_addr := set_lo (q_avail_addr q) val\<rparr>
      else if off = 0x094 then q\<lparr>q_avail_addr := set_hi (q_avail_addr q) val\<rparr>
      else if off = 0x0a0 then q\<lparr>q_used_addr := set_lo (q_used_addr q) val\<rparr>
      else if off = 0x0a4 then q\<lparr>q_used_addr := set_hi (q_used_addr q) val\<rparr>
      else q)"

definition virtio_net_write :: "Bus \<Rightarrow> u32 \<Rightarrow> u32 \<Rightarrow> Bus" where
  "virtio_net_write b off val =
     (if off = 0x014 then upd_net (\<lambda>n. n\<lparr>n_features_sel := val\<rparr>) b
      else if off = 0x024 then upd_net (\<lambda>n. n\<lparr>n_driver_feat_sel := val\<rparr>) b
      else if off = 0x030 then upd_net (\<lambda>n. n\<lparr>n_queue_sel := val\<rparr>) b
      else if off = 0x050 then
        (if val = VIRTIO_NET_TXQ then net_process_tx b
         else if val = VIRTIO_NET_RXQ then net_deliver_rx b else b)
      else if off = 0x064 then upd_net (\<lambda>n. n\<lparr>n_interrupt_status := n_interrupt_status n AND NOT val\<rparr>) b
      else if off = 0x070 then
        upd_net (\<lambda>n. if val = 0 then net_reset (n\<lparr>n_status := val\<rparr>) else n\<lparr>n_status := val\<rparr>) b
      else upd_net (\<lambda>n. if n_queue_sel n < VIRTIO_NET_NQUEUES
                        then upd_vq (n_queue_sel n) (\<lambda>q. vq_reg_write q off val) n else n) b)"

definition plat_net_rx :: "Bus \<Rightarrow> u8 list \<Rightarrow> bool \<times> Bus" where
  "plat_net_rx b frame =
     (let (ok, n) = net_fifo_push (p_net (b_plat b)) frame
      in if ok then (True, net_deliver_rx (upd_net (\<lambda>_. n) b)) else (False, b))"

end
