(* ===== verification/Memory.thy ===== *)
theory Memory
  imports Virtio
begin

text \<open>
  MMIO dispatch (\<open>plat_read\<close> and \<open>plat_write\<close> of \<open>src/src/device.c\<close>) and the guest memory of
  \<open>src/src/memory.c\<close>: the bounds check, the little-endian accessors of each width and the image
  loader. The record \<open>Memory\<close> is the C struct with its backing bytes, the attached platform and the
  host-visible outputs (console characters on the two standard streams and transmitted frames). A store into a device window runs the device on the same bytes, because the engine
  attaches \<open>mem.data\<close> to the platform for DMA.
\<close>

subsection \<open>MMIO dispatch\<close>

definition plat_read :: "Platform \<Rightarrow> u64 \<Rightarrow> u32 \<Rightarrow> u32 \<times> Platform" where
  "plat_read p addr sz =
     (if in_window addr UART_BASE UART_SIZE then
        (let (v, u) = uart_read (p_uart p) (ucast (addr - UART_BASE)) in (v, p\<lparr>p_uart := u\<rparr>))
      else
        (let off = (\<lambda>base. ucast (addr - base) AND 0xfffffffc);
             r = (if in_window addr CLINT_BASE CLINT_SIZE then Some (clint_read (p_clint p) (off CLINT_BASE), p)
                  else if in_window addr PLIC_BASE PLIC_SIZE then Some (plic_read p (off PLIC_BASE))
                  else if in_window addr VIRTIO_BASE VIRTIO_SIZE then Some (virtio_read p (off VIRTIO_BASE), p)
                  else if in_window addr VIRTIO_NET_BASE VIRTIO_NET_SIZE
                  then Some (virtio_net_read p (off VIRTIO_NET_BASE), p)
                  else None)
         in case r of
              None \<Rightarrow> (0, p)
            | Some (word, p) \<Rightarrow>
                (let word = shr word (8 * unat (addr AND 3))
                 in (if sz = 1 then word AND 0xff else if sz = 2 then word AND 0xffff else word, p))))"

definition plat_write :: "Bus \<Rightarrow> u64 \<Rightarrow> u32 \<Rightarrow> Bus" where
  "plat_write b addr value =
     (let p = b_plat b; off = (\<lambda>base. ucast (addr - base) AND 0xfffffffc)
      in if in_window addr TEST_BASE TEST_SIZE then b\<lparr>b_plat := test_write p value\<rparr>
         else if in_window addr UART_BASE UART_SIZE then
           (let (u, cs) = uart_write (p_uart p) (ucast (addr - UART_BASE)) (ucast value)
            in b\<lparr>b_plat := p\<lparr>p_uart := u\<rparr>, b_con := b_con b @ cs\<rparr>)
         else if in_window addr CLINT_BASE CLINT_SIZE then
           b\<lparr>b_plat := p\<lparr>p_clint := clint_write (p_clint p) (off CLINT_BASE) value\<rparr>\<rparr>
         else if in_window addr PLIC_BASE PLIC_SIZE then b\<lparr>b_plat := plic_write p (off PLIC_BASE) value\<rparr>
         else if in_window addr VIRTIO_BASE VIRTIO_SIZE then virtio_write b (off VIRTIO_BASE) value
         else if in_window addr VIRTIO_NET_BASE VIRTIO_NET_SIZE then virtio_net_write b (off VIRTIO_NET_BASE) value
         else b)"

subsection \<open>Memory\<close>

record Memory =
  mdata :: bytes
  mbase :: u64
  msize :: u64
  mfault :: bool
  mfault_addr :: u64
  mplat :: "Platform option"
  mcon :: "u8 list"
  merr :: "u8 list"
  msent :: "u8 list list"

text \<open>\<open>translate\<close>: the index on success; on failure the fault is recorded.\<close>

definition mem_in_range :: "Memory \<Rightarrow> u64 \<Rightarrow> u64 \<Rightarrow> bool" where
  "mem_in_range m addr width \<longleftrightarrow>
     \<not> (addr < mbase m \<or> width > msize m \<or> addr - mbase m > msize m - width)"

definition translate :: "Memory \<Rightarrow> u64 \<Rightarrow> u64 \<Rightarrow> u64 option \<times> Memory" where
  "translate m addr width =
     (if mem_in_range m addr width then (Some (addr - mbase m), m)
      else (None, m\<lparr>mfault := True, mfault_addr := addr\<rparr>))"

text \<open>A fresh memory; allocation succeeds.\<close>

definition mem_init :: "u64 \<Rightarrow> u64 \<Rightarrow> Memory" where
  "mem_init base sz = \<lparr>mdata = (\<lambda>_. 0), mbase = base, msize = sz, mfault = False, mfault_addr = 0,
     mplat = None, mcon = [], merr = [], msent = []\<rparr>"

text \<open>The platform when the address is in a device window: the test \<open>mem->plat && plat_contains(addr)\<close>.\<close>

definition mmio :: "Memory \<Rightarrow> u64 \<Rightarrow> Platform option" where
  "mmio m addr = (if plat_contains addr then mplat m else None)"

definition bus_of :: "Memory \<Rightarrow> Platform \<Rightarrow> Bus" where
  "bus_of m p = \<lparr>b_plat = p, b_ram = mdata m, b_con = mcon m, b_sent = msent m\<rparr>"

definition with_bus :: "Memory \<Rightarrow> Bus \<Rightarrow> Memory" where
  "with_bus m b = m\<lparr>mplat := Some (b_plat b), mdata := b_ram b, mcon := b_con b, msent := b_sent b\<rparr>"

definition mmio_read :: "Memory \<Rightarrow> Platform \<Rightarrow> u64 \<Rightarrow> u32 \<Rightarrow> u32 \<times> Memory" where
  "mmio_read m p addr sz = (let (v, p) = plat_read p addr sz in (v, m\<lparr>mplat := Some p\<rparr>))"

definition mem_read64 :: "Memory \<Rightarrow> u64 \<Rightarrow> u64 \<times> Memory" where
  "mem_read64 m addr =
     (case mmio m addr of
        Some p \<Rightarrow>
          (let (lo, p) = plat_read p addr 4; (hi, p) = plat_read p (addr + 4) 4
           in (ucast lo OR shl (ucast hi) 32, m\<lparr>mplat := Some p\<rparr>))
      | None \<Rightarrow>
          (case translate m addr 8 of
             (None, m) \<Rightarrow> (0, m)
           | (Some i, m) \<Rightarrow> (le64 (mdata m) i, m)))"

definition mem_read32 :: "Memory \<Rightarrow> u64 \<Rightarrow> u32 \<times> Memory" where
  "mem_read32 m addr =
     (case mmio m addr of
        Some p \<Rightarrow> mmio_read m p addr 4
      | None \<Rightarrow>
          (case translate m addr 4 of
             (None, m) \<Rightarrow> (0, m)
           | (Some i, m) \<Rightarrow> (ld32 (mdata m) i, m)))"

definition mem_read16 :: "Memory \<Rightarrow> u64 \<Rightarrow> u16 \<times> Memory" where
  "mem_read16 m addr =
     (case mmio m addr of
        Some p \<Rightarrow> (let (v, m) = mmio_read m p addr 2 in (ucast v, m))
      | None \<Rightarrow>
          (case translate m addr 2 of
             (None, m) \<Rightarrow> (0, m)
           | (Some i, m) \<Rightarrow> (ld16 (mdata m) i, m)))"

definition mem_read8 :: "Memory \<Rightarrow> u64 \<Rightarrow> u8 \<times> Memory" where
  "mem_read8 m addr =
     (case mmio m addr of
        Some p \<Rightarrow> (let (v, m) = mmio_read m p addr 1 in (ucast v, m))
      | None \<Rightarrow>
          (case translate m addr 1 of
             (None, m) \<Rightarrow> (0, m)
           | (Some i, m) \<Rightarrow> (ld8 (mdata m) i, m)))"

definition mem_write64 :: "Memory \<Rightarrow> u64 \<Rightarrow> u64 \<Rightarrow> Memory" where
  "mem_write64 m addr value =
     (case mmio m addr of
        Some p \<Rightarrow>
          with_bus m (plat_write (plat_write (bus_of m p) addr (ucast value)) (addr + 4) (ucast (shr value 32)))
      | None \<Rightarrow>
          (case translate m addr 8 of
             (None, m) \<Rightarrow> m
           | (Some i, m) \<Rightarrow> m\<lparr>mdata := st64 (mdata m) i value\<rparr>))"

definition mem_write32 :: "Memory \<Rightarrow> u64 \<Rightarrow> u32 \<Rightarrow> Memory" where
  "mem_write32 m addr value =
     (case mmio m addr of
        Some p \<Rightarrow> with_bus m (plat_write (bus_of m p) addr value)
      | None \<Rightarrow>
          (case translate m addr 4 of
             (None, m) \<Rightarrow> m
           | (Some i, m) \<Rightarrow> m\<lparr>mdata := st32 (mdata m) i value\<rparr>))"

definition mem_write16 :: "Memory \<Rightarrow> u64 \<Rightarrow> u16 \<Rightarrow> Memory" where
  "mem_write16 m addr value =
     (case mmio m addr of
        Some p \<Rightarrow> with_bus m (plat_write (bus_of m p) addr (ucast value))
      | None \<Rightarrow>
          (case translate m addr 2 of
             (None, m) \<Rightarrow> m
           | (Some i, m) \<Rightarrow> m\<lparr>mdata := st16 (mdata m) i value\<rparr>))"

definition mem_write8 :: "Memory \<Rightarrow> u64 \<Rightarrow> u8 \<Rightarrow> Memory" where
  "mem_write8 m addr value =
     (case mmio m addr of
        Some p \<Rightarrow> with_bus m (plat_write (bus_of m p) addr (ucast value))
      | None \<Rightarrow>
          (case translate m addr 1 of
             (None, m) \<Rightarrow> m
           | (Some i, m) \<Rightarrow> m\<lparr>mdata := st8 (mdata m) i value\<rparr>))"

text \<open>A released memory has no bytes left.\<close>

definition mem_free :: "Memory \<Rightarrow> Memory" where
  "mem_free m = m\<lparr>mdata := (\<lambda>_. 0), msize := 0\<rparr>"

text \<open>The image loader: \<open>False\<close> is the result -1.\<close>

definition mem_load :: "Memory \<Rightarrow> u64 \<Rightarrow> u8 list \<Rightarrow> bool \<times> Memory" where
  "mem_load m addr src =
     (case translate m addr (of_nat (length src)) of
        (None, m) \<Rightarrow> (False, m)
      | (Some i, m) \<Rightarrow>
          (True, m\<lparr>mdata := (\<lambda>j. if unat (j - i) < length src then src ! unat (j - i) else mdata m j)\<rparr>))"

subsection \<open>The access contract\<close>

lemma translate_simps:
  "mem_in_range m a w \<Longrightarrow> translate m a w = (Some (a - mbase m), m)"
  "\<not> mem_in_range m a w \<Longrightarrow> translate m a w = (None, m\<lparr>mfault := True, mfault_addr := a\<rparr>)"
  by (simp_all add: translate_def)

lemma mem_in_range_unat:
  "mem_in_range m a w \<longleftrightarrow> unat (mbase m) \<le> unat a \<and> unat a + unat w \<le> unat (mbase m) + unat (msize m)"
  by (auto simp: mem_in_range_def word_less_nat_alt not_less unat_sub word_le_nat_alt)

lemma mem_in_range_mono: "mem_in_range m a w \<Longrightarrow> w' \<le> w \<Longrightarrow> mem_in_range m a w'"
  by (simp add: mem_in_range_unat word_le_nat_alt)

lemma in_range_upd [simp]:
  "mem_in_range (m\<lparr>mdata := d\<rparr>) a w = mem_in_range m a w" "mmio (m\<lparr>mdata := d\<rparr>) a = mmio m a"
  by (simp_all add: mem_in_range_def mmio_def)

locale mem_access = byte_access ld st w
  for ld :: "bytes \<Rightarrow> u64 \<Rightarrow> 'a::len word" and st and w +
  fixes rd :: "Memory \<Rightarrow> u64 \<Rightarrow> 'a word \<times> Memory"
    and wr :: "Memory \<Rightarrow> u64 \<Rightarrow> 'a word \<Rightarrow> Memory"
  assumes rd_ram: "mmio m a = None \<Longrightarrow> rd m a =
      (case translate m a w of (None, m) \<Rightarrow> (0, m) | (Some i, m) \<Rightarrow> (ld (mdata m) i, m))"
    and wr_ram: "mmio m a = None \<Longrightarrow> wr m a v =
      (case translate m a w of (None, m) \<Rightarrow> m | (Some i, m) \<Rightarrow> m\<lparr>mdata := st (mdata m) i v\<rparr>)"
begin

lemma read_ok: "mmio m a = None \<Longrightarrow> mem_in_range m a w \<Longrightarrow> rd m a = (ld (mdata m) (a - mbase m), m)"
  by (simp add: rd_ram translate_simps)

lemma write_ok: "mmio m a = None \<Longrightarrow> mem_in_range m a w \<Longrightarrow>
    wr m a v = m\<lparr>mdata := st (mdata m) (a - mbase m) v\<rparr>"
  by (simp add: wr_ram translate_simps)

lemma read_fault: "mmio m a = None \<Longrightarrow> \<not> mem_in_range m a w \<Longrightarrow>
    rd m a = (0, m\<lparr>mfault := True, mfault_addr := a\<rparr>)"
  by (simp add: rd_ram translate_simps)

lemma write_fault: "mmio m a = None \<Longrightarrow> \<not> mem_in_range m a w \<Longrightarrow>
    wr m a v = m\<lparr>mfault := True, mfault_addr := a\<rparr>"
  by (simp add: wr_ram translate_simps)

lemma read_after_write: "mmio m a = None \<Longrightarrow> mem_in_range m a w \<Longrightarrow> rd (wr m a v) a = (v, wr m a v)"
  by (simp add: read_ok write_ok ld_st)

lemma write_frame:
  assumes "mmio m a = None" "w \<le> j - (a - mbase m)"
  shows "mdata (wr m a v) j = mdata m j"
  using assms by (cases "mem_in_range m a w") (simp_all add: write_ok write_fault st_frame)

lemma write_inside:
  assumes "mmio m a = None" "msize m \<le> j"
  shows "mdata (wr m a v) j = mdata m j"
proof (cases "mem_in_range m a w")
  case True
  then have "unat (a - mbase m) + unat w \<le> unat (msize m)"
    by (auto simp: mem_in_range_unat unat_sub word_le_nat_alt)
  with True assms show ?thesis
    by (simp add: write_ok st_outside)
qed (use assms in \<open>simp add: write_fault\<close>)

end

interpretation m8: mem_access ld8 st8 1 mem_read8 mem_write8
  by unfold_locales (simp_all add: mem_read8_def mem_write8_def)

interpretation m16: mem_access ld16 st16 2 mem_read16 mem_write16
  by unfold_locales (simp_all add: mem_read16_def mem_write16_def)

interpretation m32: mem_access ld32 st32 4 mem_read32 mem_write32
  by unfold_locales (simp_all add: mem_read32_def mem_write32_def)

interpretation m64: mem_access le64 st64 8 mem_read64 mem_write64
  by unfold_locales (simp_all add: mem_read64_def mem_write64_def)





lemma st64_byte: "k < 8 \<Longrightarrow> st64 b i v (i + of_nat k) = ucast (shr v (8 * k))"
proof -
  assume "k < 8"
  then have "k \<in> {0, 1, 2, 3, 4, 5, 6, 7}"
    by auto
  then show ?thesis
    by (auto simp: st64_unfold shr_def)
qed

text \<open>memory is little-endian: after a doubleword store, byte \<open>k\<close> of it reads back as bits \<open>8k\<close> to
  \<open>8k+7\<close> of the value.\<close>

theorem mem_little_endian:
  assumes "mem_in_range m a 8" "a \<le> a + 7" "k < 8" "mplat m = None"
  shows "mem_read8 (mem_write64 m a v) (a + of_nat k) = (ucast (shr v (8 * k)), mem_write64 m a v)"
proof -
  have mmio: "mmio m' x = None" if "mplat m' = None" for m' x
    using that by (simp add: mmio_def)
  have idx: "a + of_nat k - mbase m = (a - mbase m) + of_nat k"
    by simp
  have "mem_in_range m (a + of_nat k) 1"
  proof -
    have "unat (a + 7) = unat a + 7"
      using assms(2) unat_plus_simple [of a 7] by simp
    then have "unat (a + of_nat k) = unat a + k"
      using assms(3) unat_bound [of "a + 7"] by (simp add: unat_word_ariths unat_of_nat)
    then show ?thesis
      using assms(1,3) by (simp add: mem_in_range_unat)
  qed
  then show ?thesis
    using assms mmio by (simp add: m64.write_ok m8.read_ok ld8_def idx st64_byte)
qed

theorem mem_little_endian_witness:
  "fst (mem_read8 (mem_write64 (mem_init 0x80000000 0x1000) 0x80000000 0x1122334455667788) 0x80000003) = 0x55"
  using mem_little_endian [of "mem_init 0x80000000 0x1000" "0x80000000" 3 "0x1122334455667788"]
  by (simp add: mem_init_def mem_in_range_def evals)







lemma set_halves: "set_hi (set_lo x (ucast t)) (ucast (shr t 32)) = t"
  by (simp add: set_hi_def set_lo_def bit_blast bits)

lemma mtip_bit: "h < 8 \<Longrightarrow> bit (plat_mip_bits p h) 7 \<longleftrightarrow> c_mtimecmp (p_clint p) h \<le> c_mtime (p_clint p)"
  by (simp add: plat_mip_bits_def Let_def bit_or_iff)

lemma hart_cases: "h < 8 \<Longrightarrow> h = 0 \<or> h = 1 \<or> h = 2 \<or> h = 3 \<or> h = 4 \<or> h = 5 \<or> h = 6 \<or> h = 7"
  for h :: u32
  unfolding word_eq_unat word_less_nat_alt by (simp del: unat_eq_0) arith

lemma clint_window:
  assumes "h < 8" "k = 0 \<or> k = 4"
  defines "a \<equiv> CLINT_BASE + 0x4000 + ucast h * 8 + k"
  shows "plat_write b a v = b\<lparr>b_plat := (b_plat b)\<lparr>p_clint := (p_clint (b_plat b))
      \<lparr>c_mtimecmp := (c_mtimecmp (p_clint (b_plat b)))(h :=
          (if k = 4 then set_hi else set_lo) (c_mtimecmp (p_clint (b_plat b)) h) v)\<rparr>\<rparr>\<rparr>"
  using hart_cases [OF assms(1)] assms(2) unfolding a_def
  by (elim disjE) (simp_all add: plat_write_def in_window_def clint_write_def Let_def)

text \<open>C35: programming a hart's timer with two word stores sets its 64-bit compare and no other hart's, and
  the hart's timer interrupt is then pending exactly when the counter has reached the compare.\<close>

theorem clint_timer_programming:
  fixes h :: u32 and b :: Bus and t :: u64
  assumes "h < 8"
  defines "b' \<equiv> plat_write (plat_write b (CLINT_BASE + 0x4000 + ucast h * 8) (ucast t))
                 (CLINT_BASE + 0x4000 + ucast h * 8 + 4) (ucast (shr t 32))"
  shows "c_mtimecmp (p_clint (b_plat b')) = (c_mtimecmp (p_clint (b_plat b)))(h := t) \<and>
    (bit (plat_mip_bits (b_plat b') h) 7 \<longleftrightarrow> t \<le> c_mtime (p_clint (b_plat b')))"
  using clint_window [OF assms(1), of 0] clint_window [OF assms(1), of 4] mtip_bit [OF assms(1)]
  by (simp add: b'_def set_halves)

theorem clint_timer_programming_witness:
  "c_mtimecmp (p_clint (b_plat
     (plat_write (plat_write (bus_of (mem_init 0 0) plat_init) 0x02004008 0x9abcdef0) 0x0200400c 0x12345678))) 1
   = 0x123456789abcdef0"
proof -
  have halves: "ucast (0x123456789abcdef0 :: u64) = (0x9abcdef0 :: u32)"
    "ucast (shr (0x123456789abcdef0 :: u64) 32) = (0x12345678 :: u32)"
    by (simp_all add: evals)
  show ?thesis
    using clint_timer_programming [of 1 "bus_of (mem_init 0 0) plat_init" "0x123456789abcdef0", unfolded halves]
    by simp
qed

end
