(* ===== verification/Dma_Safety.thy ===== *)
theory Dma_Safety
  imports Memory
begin

text \<open>
  What the bus-mastering devices may do: every DMA store of the block and network devices, and
  hence every guest store of any width to any address, stays inside the attached RAM (an index
  beyond its size is never written); the request loops serve the whole ring; the block device
  reads back what was written; the receive FIFO is a bounded queue, through the locale
  \<open>bounded_fifo\<close> and its interpretation on \<open>net_fifo_push\<close> and \<open>net_fifo_pop\<close>.
\<close>

subsection \<open>Specifications\<close>

definition untouched :: "u64 \<Rightarrow> bytes \<Rightarrow> bytes \<Rightarrow> bool" where
  "untouched sz ram ram' \<longleftrightarrow> (\<forall>j. sz \<le> j \<longrightarrow> ram' j = ram j)"

definition ram_cfg :: "Platform \<Rightarrow> bool \<times> u64 \<times> u64" where
  "ram_cfg p = (p_ram p, p_ram_base p, p_ram_size p)"

text \<open>A bus transition that keeps the RAM window and stays inside it.\<close>

definition dma_safe :: "Bus \<Rightarrow> Bus \<Rightarrow> bool" where
  "dma_safe b b' \<longleftrightarrow>
     ram_cfg (b_plat b') = ram_cfg (b_plat b) \<and> untouched (p_ram_size (b_plat b)) (b_ram b) (b_ram b')"

text \<open>The ring of a queue lies in RAM.\<close>

definition ring_ok :: "Bus \<Rightarrow> u32 \<Rightarrow> u64 \<Rightarrow> bool" where
  "ring_ok b k used \<longleftrightarrow>
     (let num = q_num (n_vq (p_net (b_plat b)) k)
      in unat used + 4 + unat num * 8 \<le> unat (p_ram_size (b_plat b)) \<and> num \<noteq> 0 \<and> num \<le> 256)"

text \<open>A safe transition that does not change the ring sizes of the network device.\<close>

definition net_safe :: "Bus \<Rightarrow> Bus \<Rightarrow> bool" where
  "net_safe b b' \<longleftrightarrow> dma_safe b b' \<and> (\<forall>k. q_num (n_vq (p_net (b_plat b')) k) = q_num (n_vq (p_net (b_plat b)) k))"

definition plat_attached :: "Memory \<Rightarrow> bool" where
  "plat_attached m \<longleftrightarrow> (case mplat m of None \<Rightarrow> True | Some p \<Rightarrow> p_ram_size p \<le> msize m)"

definition mem_safe :: "Memory \<Rightarrow> Memory \<Rightarrow> bool" where
  "mem_safe m m' \<longleftrightarrow> msize m' = msize m \<and> mbase m' = mbase m \<and> plat_attached m' \<and>
     untouched (msize m) (mdata m) (mdata m')"

text \<open>A load changes at most the fault record or the attached platform.\<close>

definition load_effect :: "Memory \<Rightarrow> Memory \<Rightarrow> bool" where
  "load_effect m m' \<longleftrightarrow> m' = m \<or> (\<exists>a. m' = m\<lparr>mfault := True, mfault_addr := a\<rparr>) \<or>
     (\<exists>p p'. mplat m = Some p \<and> m' = m\<lparr>mplat := Some p'\<rparr> \<and> p_ram_size p' = p_ram_size p)"

definition fifo_inv :: "VirtioNet \<Rightarrow> bool" where
  "fifo_inv n \<longleftrightarrow> n_fifo_head n < 16 \<and> n_fifo_count n \<le> 16 \<and> (\<forall>k<16. n_fifo_len n k \<le> 1600)"

definition fifo_frames :: "VirtioNet \<Rightarrow> u8 list list" where
  "fifo_frames n = map (\<lambda>i. fifo_frame n ((n_fifo_head n + of_nat i) mod 16)) [0..<unat (n_fifo_count n)]"

definition frame_ok :: "u8 list \<Rightarrow> bool" where
  "frame_ok f \<longleftrightarrow> f \<noteq> [] \<and> length f \<le> 1600"

text \<open>Concrete states: a platform with 4 KiB of RAM, a one-sector writable disk, and a ring with
  one request available.\<close>

definition dma_plat :: Platform where
  "dma_plat = plat_init\<lparr>p_ram := True, p_ram_size := 0x1000\<rparr>"

definition dma_disk :: Disk where
  "dma_disk = \<lparr>d_data = Some (\<lambda>_. 0), d_size = 512, d_file = Some (\<lambda>_. 0), d_flushed = None, d_writable = True\<rparr>"

definition dma_bus :: Bus where
  "dma_bus = \<lparr>b_plat = dma_plat\<lparr>p_virtio := virtio_zero\<lparr>v_queue_num := 8, v_queue_ready := 1,
     v_desc_addr := 0x300, v_avail_addr := 0x100, v_used_addr := 0x200\<rparr>\<rparr>,
     b_ram = (\<lambda>_. 0)(0x102 := 1), b_con = [], b_sent = []\<rparr>"

definition net_bus :: Bus where
  "net_bus = \<lparr>b_plat = plat_init\<lparr>p_net := (p_net plat_init)\<lparr>n_fifo := (\<lambda>_ _. 7), n_fifo_len := (\<lambda>_. 1),
     n_fifo_count := 1\<rparr>\<rparr>, b_ram = (\<lambda>_. 0), b_con = [], b_sent = []\<rparr>"

definition dma_demo :: Memory where
  "dma_demo = (mem_init 0x80000000 0x1000)\<lparr>mplat := Some dma_plat\<rparr>"

subsection \<open>DMA stays in RAM\<close>

lemma untouched_refl [simp]: "untouched sz ram ram"
  by (simp add: untouched_def)

lemma untouched_trans: "untouched sz a b \<Longrightarrow> untouched sz b c \<Longrightarrow> untouched sz a c"
  by (simp add: untouched_def)

lemma untouched_upd: "i < sz \<Longrightarrow> untouched sz ram (ram(i := x))"
  by (auto simp: untouched_def)

lemma untouched_st:
  "unat i + 2 \<le> unat sz \<Longrightarrow> untouched sz ram (st16 ram i v16)"
  "unat i + 4 \<le> unat sz \<Longrightarrow> untouched sz ram (st32 ram i v32)"
  by (simp_all add: untouched_def b16.st_outside [of i sz] b32.st_outside [of i sz])

lemma dma_ptr_bound: "dma_ptr p a len = Some i \<Longrightarrow> unat i + unat len \<le> unat (p_ram_size p)"
  by (auto simp: dma_ptr_def Let_def word_le_nat_alt word_less_nat_alt unat_sub not_less split: if_splits)

lemma dma_index:
  assumes "unat i + n \<le> unat (sz::u64)" "k < n"
  shows "i + of_nat k < sz"
proof -
  have "unat i + k < 2 ^ 64"
    using assms unat_bound [of sz] by simp
  then have "unat (i + of_nat k) = unat i + k"
    by (simp add: unat_word_ariths unat_of_nat)
  then show ?thesis
    using assms by (simp add: word_less_nat_alt)
qed

lemma untouched_fold:
  assumes "\<And>k s. k \<in> set ks \<Longrightarrow> untouched sz (snd s) (snd (f k s))"
  shows "untouched sz (snd s) (snd (fold f ks s))"
  using assms
proof (induction ks arbitrary: s)
  case (Cons k ks)
  then show ?case
    using untouched_trans [of sz "snd s" "snd (f k s)"] by simp
qed simp

lemma blk_byte_untouched: "buf + of_nat k < sz \<Longrightarrow> untouched sz (snd s) (snd (blk_byte type buf off k s))"
  by (cases s) (simp add: blk_byte_def Let_def untouched_upd)

lemma blk_buffers_untouched:
  "untouched (p_ram_size p) ram (snd (snd (snd (blk_buffers p type ch off wr (d, ram)))))"
proof (induction p type ch off wr "(d, ram)" arbitrary: d ram rule: blk_buffers.induct)
  case (2 p type addr len rest off wr d ram)
  show ?case
  proof (cases "dma_ptr p addr (ucast len)")
    case (Some buf)
    have b: "unat buf + unat len \<le> unat (p_ram_size p)"
      using dma_ptr_bound [OF Some] by (simp add: unat_ucast_up)
    obtain d' ram' where f: "fold (blk_byte type buf off) [0..<unat len] (d, ram) = (d', ram')"
      by fastforce
    have "untouched (p_ram_size p) ram ram'"
      using untouched_fold [of "[0..<unat len]" "p_ram_size p" "blk_byte type buf off" "(d, ram)"]
        blk_byte_untouched dma_index [OF b] f by simp
    then show ?thesis
      using 2 [OF Some f [symmetric]] f Some untouched_trans by (simp add: Let_def)
  qed simp
qed simp

lemma virtio_service_untouched: "untouched (p_ram_size (b_plat b)) (b_ram b) (b_ram (snd (virtio_service b head)))"
proof -
  have st: "untouched (p_ram_size p) ram (case dma_ptr p a 1 of None \<Rightarrow> ram | Some st \<Rightarrow> ram(st := x))" for p ram a x
    using dma_ptr_bound [of p a 1] by (auto simp: word_less_nat_alt intro!: untouched_upd split: option.splits)
  have bb: "untouched (p_ram_size p) ram ram'" if "blk_buffers p type ch off wr (d, ram) = (status, written, d', ram')"
    for p type ch off wr d ram status written d' ram'
    using blk_buffers_untouched [of p ram type ch off wr d] by (simp add: that)
  show ?thesis
    by (auto simp: virtio_service_def Let_def intro: untouched_trans [OF bb st] split: prod.splits)
qed

lemma push_used_untouched:
  assumes "unat used + 4 + unat num * 8 \<le> unat sz" "num \<noteq> 0" "num \<le> 256"
  shows "untouched sz ram (push_used ram used num head wlen)"
proof -
  define r where "r = (ucast (ld16 ram (used + 2)) mod num :: u32)"
  define elem where "elem = used + 4 + (ucast r :: u64) * 8"
  have r: "unat r < unat num" "unat num \<le> 256"
    using assms by (simp_all add: r_def unat_mod word_le_nat_alt unat_gt_0)
  have u: "unat used + 4 + unat num * 8 < 2 ^ 64"
    using assms unat_bound [of sz] by simp
  have e: "unat elem = unat used + 4 + unat r * 8" "unat (elem + 4) = unat used + 8 + unat r * 8" "unat (used + 2) = unat used + 2"
    using r u by (simp_all add: elem_def unat_word_ariths unat_ucast_up)
  have "untouched sz a (st32 a elem x)" "untouched sz a (st32 a (elem + 4) y)" "untouched sz a (st16 a (used + 2) z)" for a x y z
    using r assms by (simp_all add: untouched_st e)
  then show ?thesis
    unfolding push_used_def Let_def r_def [symmetric] elem_def [symmetric] by (meson untouched_trans)
qed

lemma dma_safe_refl [simp]: "dma_safe b b"
  by (simp add: dma_safe_def)

lemma dma_safe_trans: "dma_safe a b \<Longrightarrow> dma_safe b c \<Longrightarrow> dma_safe a c"
  by (auto simp: dma_safe_def ram_cfg_def intro: untouched_trans)

lemma dma_ptr_cfg: "ram_cfg p = ram_cfg q \<Longrightarrow> dma_ptr p = dma_ptr q"
  by (auto simp: dma_ptr_def ram_cfg_def fun_eq_iff)

lemma virtio_service_safe: "dma_safe b (snd (virtio_service b head))"
proof -
  have "ram_cfg (b_plat (snd (virtio_service b head))) = ram_cfg (b_plat b)"
    by (simp add: virtio_service_def Let_def ram_cfg_def split: prod.splits)
  then show ?thesis
    by (simp add: dma_safe_def virtio_service_untouched)
qed

lemma virtio_one_safe:
  assumes "unat used + 4 + unat (v_queue_num (p_virtio (b_plat b))) * 8 \<le> unat (p_ram_size (b_plat b))"
    and "v_queue_num (p_virtio (b_plat b)) \<noteq> 0" "v_queue_num (p_virtio (b_plat b)) \<le> 256"
  shows "dma_safe b (virtio_one b avail used)"
    "v_queue_num (p_virtio (b_plat (virtio_one b avail used))) = v_queue_num (p_virtio (b_plat b))"
proof -
  define head where "head = avail_head (b_ram b) avail (v_queue_num (p_virtio (b_plat b))) (v_last_avail (p_virtio (b_plat b)))"
  obtain wlen b1 where sv: "virtio_service b head = (wlen, b1)"
    by fastforce
  have safe: "dma_safe b b1" and virt: "p_virtio (b_plat b1) = p_virtio (b_plat b)"
    using virtio_service_safe [of b head] virtio_service_virtio [of b head] sv by simp_all
  have one: "virtio_one b avail used =
      b1\<lparr>b_ram := push_used (b_ram b1) used (v_queue_num (p_virtio (b_plat b))) head wlen,
         b_plat := (b_plat b1)\<lparr>p_virtio := (p_virtio (b_plat b1))
           \<lparr>v_last_avail := v_last_avail (p_virtio (b_plat b1)) + 1\<rparr>\<rparr>\<rparr>"
    by (simp add: virtio_one_def Let_def sv flip: head_def)
  show "v_queue_num (p_virtio (b_plat (virtio_one b avail used))) = v_queue_num (p_virtio (b_plat b))"
    by (simp add: one virt)
  have "untouched (p_ram_size (b_plat b)) (b_ram b1) (push_used (b_ram b1) used (v_queue_num (p_virtio (b_plat b))) head wlen)"
    by (rule push_used_untouched [OF assms])
  then show "dma_safe b (virtio_one b avail used)"
    using safe by (auto simp: dma_safe_def one ram_cfg_def intro: untouched_trans)
qed

lemma virtio_drain_safe:
  "unat used + 4 + unat (v_queue_num (p_virtio (b_plat b))) * 8 \<le> unat (p_ram_size (b_plat b)) \<Longrightarrow>
   v_queue_num (p_virtio (b_plat b)) \<noteq> 0 \<Longrightarrow> v_queue_num (p_virtio (b_plat b)) \<le> 256 \<Longrightarrow>
   dma_safe b (virtio_drain b avail used idx)"
proof (induction b avail used idx rule: virtio_drain.induct)
  case (1 b avail used idx)
  show ?case
  proof (cases "v_last_avail (p_virtio (b_plat b)) = idx")
    case True
    then show ?thesis by (subst virtio_drain.simps) simp
  next
    case False
    note one = virtio_one_safe [OF 1(2-4), of avail]
    have "p_ram_size (b_plat (virtio_one b avail used)) = p_ram_size (b_plat b)"
      using one(1) by (simp add: dma_safe_def ram_cfg_def)
    then have "dma_safe (virtio_one b avail used) (virtio_drain (virtio_one b avail used) avail used idx)"
      using 1 False one(2) by simp
    then show ?thesis
      using False dma_safe_trans [OF one(1)] by (subst virtio_drain.simps) simp
  qed
qed

lemma ring_bound:
  assumes "dma_ptr p a (4 + ucast (num::u32) * 8) = Some used" "num \<le> 256"
  shows "unat used + 4 + unat num * 8 \<le> unat (p_ram_size p)"
proof -
  have "unat num \<le> 256"
    using assms(2) by (simp add: word_le_nat_alt)
  then have "unat (4 + ucast num * 8 :: u64) = 4 + unat num * 8"
    by (simp add: unat_word_ariths unat_ucast_up)
  then show ?thesis
    using dma_ptr_bound [OF assms(1)] by simp
qed

lemma virtio_notify_safe: "dma_safe b (virtio_notify b)"
proof -
  have "dma_safe b (b'\<lparr>b_plat := (b_plat b')\<lparr>p_virtio := v\<rparr>\<rparr>)" if "dma_safe b b'" for b' v
    using that by (simp add: dma_safe_def ram_cfg_def)
  then show ?thesis
    using virtio_drain_safe ring_bound [of "b_plat b" "v_used_addr (p_virtio (b_plat b))" "v_queue_num (p_virtio (b_plat b))"]
    by (simp add: virtio_notify_def Let_def not_less split: option.splits)
qed

lemma virtio_write_safe: "dma_safe b (virtio_write b off val)"
  by (simp add: virtio_write_def virtio_notify_safe) (simp add: dma_safe_def ram_cfg_def)

lemma scatter_buf_untouched:
  "unat at + n \<le> unat sz \<Longrightarrow> untouched sz ram (fst (scatter_buf ram at n src))"
proof (induction ram at n src rule: scatter_buf.induct)
  case (3 ram at k x src)
  have "unat at + Suc k < 2 ^ 64"
    using 3(2) unat_bound [of sz] by simp
  then have "unat (at + 1) + k \<le> unat sz" "at < sz"
    using 3(2) by (simp_all add: unat_word_ariths word_less_nat_alt)
  then show ?case
    using 3(1) untouched_trans [OF untouched_upd [of at sz ram x]] by (simp add: fun_upd_def)
qed simp_all

lemma net_scatter_untouched: "untouched (p_ram_size p) ram (fst (net_scatter p ram ch src))"
proof (induction p ram ch src rule: net_scatter.induct)
  case (2 p ram addr len rest src)
  show ?case
  proof (cases "dma_ptr p addr (ucast len)")
    case (Some buf)
    have "unat buf + unat len \<le> unat (p_ram_size p)"
      using dma_ptr_bound [OF Some] by (simp add: unat_ucast_up)
    from scatter_buf_untouched [OF this, of ram src] show ?thesis
      using 2(2) [OF Some refl] Some untouched_trans by (auto split: prod.splits)
  qed (use 2(1) in simp)
qed simp

lemma upd_net_safe: "dma_safe b b' \<Longrightarrow> dma_safe b (upd_net f b')"
  by (simp add: dma_safe_def upd_net_def ram_cfg_def)

lemma vq_rings_bound:
  "vq_rings p q = Some (avail, used) \<Longrightarrow>
   unat used + 4 + unat (q_num q) * 8 \<le> unat (p_ram_size p) \<and> q_num q \<noteq> 0 \<and> q_num q \<le> 256"
  using ring_bound [of p "q_used_addr q" "q_num q" used]
  by (auto simp: vq_rings_def not_less split: if_splits option.splits)

lemma net_safe_refl [simp]: "net_safe b b"
  by (simp add: net_safe_def)

lemma net_safe_trans: "net_safe a b \<Longrightarrow> net_safe b c \<Longrightarrow> net_safe a c"
  by (auto simp: net_safe_def intro: dma_safe_trans)

lemma ring_ok_step: "ring_ok b k used \<Longrightarrow> net_safe b b' \<Longrightarrow> ring_ok b' k used"
  by (simp add: ring_ok_def dma_safe_def net_safe_def ram_cfg_def)

lemma net_safe_upd_net:
  "(\<And>n k. q_num (n_vq (f n) k) = q_num (n_vq n k)) \<Longrightarrow> net_safe b b' \<Longrightarrow> net_safe b (upd_net f b')"
  by (simp add: net_safe_def upd_net_safe) (simp add: upd_net_def)

lemma push_used_ring_ok: "ring_ok b k used \<Longrightarrow>
   untouched (p_ram_size (b_plat b)) ram (push_used ram used (q_num (n_vq (p_net (b_plat b)) k)) head wlen)"
  by (rule push_used_untouched) (simp_all add: ring_ok_def Let_def)

lemma net_safe_ram: "untouched (p_ram_size (b_plat b)) (b_ram b) ram \<Longrightarrow> net_safe b (b\<lparr>b_ram := ram\<rparr>)"
  by (simp add: net_safe_def dma_safe_def)

lemma net_rx_one_safe: "ring_ok b VIRTIO_NET_RXQ used \<Longrightarrow> net_safe b (net_rx_one b avail used)"
  unfolding net_rx_one_def Let_def case_prod_unfold
  by (intro net_safe_upd_net net_safe_ram untouched_trans [OF net_scatter_untouched push_used_ring_ok])
    (simp_all add: upd_vq_def net_fifo_pop_def)

lemma net_drain_rx_safe:
  "ring_ok b VIRTIO_NET_RXQ used \<Longrightarrow> net_safe b (snd (net_drain_rx b avail used d))"
proof (induction b avail used d rule: net_drain_rx.induct)
  case (1 b avail used d)
  then show ?case
    using net_rx_one_safe [OF 1(2), of avail]
    by (subst net_drain_rx.simps) (auto intro: net_safe_trans ring_ok_step)
qed

lemma net_raise_safe: "net_safe b b' \<Longrightarrow> net_safe b (net_raise b')"
  by (simp add: net_raise_def net_safe_upd_net)

lemma vq_rings_ok: "vq_rings (b_plat b) (n_vq (p_net (b_plat b)) k) = Some (avail, used) \<Longrightarrow> ring_ok b k used"
  by (simp add: ring_ok_def Let_def vq_rings_bound)

lemma net_deliver_rx_safe: "net_safe b (net_deliver_rx b)"
  using net_drain_rx_safe [OF vq_rings_ok]
  by (auto simp: net_deliver_rx_def case_prod_unfold Let_def net_raise_safe split: option.splits)

lemma net_push_safe: "net_safe b (upd_net (\<lambda>_. snd (net_fifo_push (p_net (b_plat b)) frame)) b)"
  by (simp add: net_safe_def upd_net_safe) (simp add: upd_net_def net_fifo_push_def Let_def)

lemma net_transmit_safe: "net_safe b (net_transmit b frame)"
proof -
  have "net_safe b (b\<lparr>b_sent := x\<rparr>)" for x
    by (simp add: net_safe_def dma_safe_def)
  then show ?thesis
    using net_safe_trans [OF net_push_safe net_deliver_rx_safe]
    by (simp add: net_transmit_def Let_def case_prod_unfold net_push_safe)
qed

lemma net_tx_one_safe:
  assumes "ring_ok b VIRTIO_NET_TXQ used"
  shows "net_safe b (net_tx_one b avail used)"
proof -
  have "net_safe b (upd_net (upd_vq k (\<lambda>q. q\<lparr>q_last_avail := q_last_avail q + 1\<rparr>))
      (b'\<lparr>b_ram := push_used (b_ram b') used (q_num (n_vq (p_net (b_plat b)) VIRTIO_NET_TXQ)) head 0\<rparr>))"
    if b': "net_safe b b'" for b' k head
  proof (rule net_safe_upd_net [OF _ net_safe_trans [OF b' net_safe_ram]])
    show "untouched (p_ram_size (b_plat b')) (b_ram b')
       (push_used (b_ram b') used (q_num (n_vq (p_net (b_plat b)) VIRTIO_NET_TXQ)) head 0)"
      using push_used_ring_ok [OF ring_ok_step [OF assms b']] b' by (simp add: net_safe_def)
  qed (simp add: upd_vq_def)
  then show ?thesis
    by (simp add: net_tx_one_def Let_def net_transmit_safe)
qed

lemma net_drain_tx_safe:
  "ring_ok b VIRTIO_NET_TXQ used \<Longrightarrow> net_safe b (snd (net_drain_tx b avail used idx s))"
proof (induction b avail used idx s rule: net_drain_tx.induct)
  case (1 b avail used idx s)
  then show ?case
    using net_tx_one_safe [OF 1(2), of avail]
    by (subst net_drain_tx.simps) (auto intro: net_safe_trans ring_ok_step)
qed

lemma net_process_tx_safe: "net_safe b (net_process_tx b)"
  using net_drain_tx_safe [OF vq_rings_ok]
  by (auto simp: net_process_tx_def case_prod_unfold Let_def net_raise_safe split: option.splits)

lemma virtio_net_write_safe: "dma_safe b (virtio_net_write b off val)"
  using net_process_tx_safe [of b] net_deliver_rx_safe [of b]
  by (simp add: virtio_net_write_def upd_net_safe net_safe_def)

lemma plat_net_rx_safe: "dma_safe b (snd (plat_net_rx b frame))"
  using net_safe_trans [OF net_push_safe net_deliver_rx_safe, of b frame]
  by (simp add: plat_net_rx_def case_prod_unfold Let_def net_safe_def)

lemma plat_write_safe: "dma_safe b (plat_write b addr value)"
  using virtio_write_safe virtio_net_write_safe
  by (auto simp: plat_write_def Let_def case_prod_unfold)
    (auto simp: dma_safe_def ram_cfg_def test_write_def plic_write_def Let_def)

lemma untouched_mono: "untouched sz a b \<Longrightarrow> sz \<le> sz' \<Longrightarrow> untouched sz' a b"
  by (auto simp: untouched_def)

lemma with_bus_safe:
  assumes "plat_attached m" "mmio m a = Some p" "dma_safe (bus_of m p) b"
  shows "mem_safe m (with_bus m b)"
proof -
  have "p_ram_size p \<le> msize m"
    using assms(1,2) by (auto simp: plat_attached_def mmio_def split: if_splits)
  then show ?thesis
    using assms(3) untouched_mono [of "p_ram_size p" "mdata m" "b_ram b" "msize m"]
    by (simp add: mem_safe_def with_bus_def plat_attached_def dma_safe_def bus_of_def ram_cfg_def)
qed

lemma ram_write_safe:
  assumes "plat_attached m" "m' = m\<lparr>mdata := d\<rparr> \<or> m' = m\<lparr>mfault := True, mfault_addr := a\<rparr>"
    and "\<And>j. msize m \<le> j \<Longrightarrow> mdata m' j = mdata m j"
  shows "mem_safe m m'"
  using assms by (auto simp: mem_safe_def untouched_def plat_attached_def split: option.splits)

lemma plat_read_cfg: "p_ram_size (snd (plat_read p addr sz)) = p_ram_size p"
  by (auto simp: plat_read_def plic_read_def plic_claim_def Let_def split: prod.splits if_splits)

lemma load_effect_mmio:
  assumes "mmio m b = Some p" "p_ram_size p' = p_ram_size p"
  shows "load_effect m (m\<lparr>mplat := Some p'\<rparr>)"
  using assms by (auto simp: load_effect_def mmio_def split: if_splits)

lemma load_effect_translate: "load_effect m (snd (translate m a w))"
  by (auto simp: translate_def load_effect_def split: if_splits)

lemma mem_read_effect:
  "load_effect m (snd (mem_read8 m a))" "load_effect m (snd (mem_read16 m a))"
  "load_effect m (snd (mem_read32 m a))" "load_effect m (snd (mem_read64 m a))"
  by (auto simp: mem_read8_def mem_read16_def mem_read32_def mem_read64_def mmio_read_def Let_def split_beta plat_read_cfg
      intro: load_effect_mmio load_effect_translate split: option.splits)

lemma mem_safe_trans: "mem_safe m m' \<Longrightarrow> mem_safe m' m'' \<Longrightarrow> mem_safe m m''"
  by (auto simp: mem_safe_def untouched_def)

lemma load_effect_safe: "plat_attached m \<Longrightarrow> load_effect m m' \<Longrightarrow> mem_safe m m'"
  by (auto simp: load_effect_def mem_safe_def untouched_def plat_attached_def split: option.splits)

lemmas mem_read_safe = load_effect_safe [OF _ mem_read_effect(1)] load_effect_safe [OF _ mem_read_effect(2)]
  load_effect_safe [OF _ mem_read_effect(3)] load_effect_safe [OF _ mem_read_effect(4)]

text \<open>A store of any width at any address (RAM, out of range, or a device register, the virtio
  doorbells and their DMA included) is safe.\<close>

lemma mem_write_safe:
  assumes "plat_attached m"
  shows "mem_safe m (mem_write64 m a v64) \<and> mem_safe m (mem_write32 m a v32) \<and>
    mem_safe m (mem_write16 m a v16) \<and> mem_safe m (mem_write8 m a v8)"
proof (cases "mmio m a")
  case None
  note ram = ram_write_safe [OF assms]
  have cases: "wr = m\<lparr>mdata := mdata wr\<rparr> \<or> wr = m\<lparr>mfault := True, mfault_addr := a\<rparr>"
    if "wr \<in> {mem_write64 m a v64, mem_write32 m a v32, mem_write16 m a v16, mem_write8 m a v8}" for wr
    using that None by (auto simp: m64.wr_ram m32.wr_ram m16.wr_ram m8.wr_ram translate_def)
  show ?thesis
    using None by (intro conjI; intro ram [OF cases]) (simp_all add: m64.write_inside m32.write_inside m16.write_inside m8.write_inside)
next
  case (Some p)
  note dev = with_bus_safe [OF assms Some]
  show ?thesis
    using Some dev [OF plat_write_safe] dev [OF dma_safe_trans [OF plat_write_safe plat_write_safe]]
    by (simp add: mem_write64_def mem_write32_def mem_write16_def mem_write8_def)
qed

lemma at_index: "n < 2 ^ 64 \<Longrightarrow> i = buf + of_nat n \<longleftrightarrow> unat (i - buf) = n"
  for i buf :: u64
  by (auto simp: unat_of_nat)

lemma blk_in:
  assumes "n < 2 ^ 64"
  shows "fold (blk_byte VIRTIO_BLK_T_IN buf off) [0..<n] (d, ram) =
    (d, \<lambda>i. if unat (i - buf) < n then (if in_image d (off + (i - buf)) then the (d_data d) (off + (i - buf)) else 0) else ram i)"
  using assms
proof (induction n)
  case (Suc n)
  then have u: "unat (of_nat n :: u64) = n"
    by (simp add: unat_of_nat)
  note at_index [of n _ buf]
  moreover note u
  ultimately show ?case
    using Suc by (auto simp: blk_byte_def Let_def less_Suc_eq fun_eq_iff)
qed simp

lemma blk_out_byte:
  "blk_byte VIRTIO_BLK_T_OUT buf off n (d\<lparr>d_data := Some f\<rparr>, ram) =
   (d\<lparr>d_data := Some (if off + of_nat n < d_size d then f(off + of_nat n := ram (buf + of_nat n)) else f)\<rparr>, ram)"
  by (simp add: blk_byte_def Let_def in_image_def)

lemma blk_out:
  assumes "n < 2 ^ 64" "d_data d = Some D"
  shows "fold (blk_byte VIRTIO_BLK_T_OUT buf off) [0..<n] (d, ram) =
    (d\<lparr>d_data := Some (\<lambda>i. if unat (i - off) < n \<and> i < d_size d then ram (buf + (i - off)) else D i)\<rparr>, ram)"
  using assms(1)
proof (induction n)
  case 0
  show ?case using assms(2) by (cases d) simp
next
  case (Suc n)
  let ?f = "\<lambda>n i. if unat (i - off) < n \<and> i < d_size d then ram (buf + (i - off)) else D i"
  have "(if off + of_nat n < d_size d then (?f n)(off + of_nat n := ram (buf + of_nat n)) else ?f n) = ?f (Suc n)"
  proof
    fix i
    have "i = off + of_nat n \<longleftrightarrow> unat (i - off) = n"
      using Suc.prems by (intro at_index) simp
    then show "(if off + of_nat n < d_size d then (?f n)(off + of_nat n := ram (buf + of_nat n)) else ?f n) i = ?f (Suc n) i"
      by (auto simp: less_Suc_eq)
  qed
  then show ?case
    using Suc by (simp add: blk_out_byte)
qed



subsection \<open>The receive FIFO is a bounded queue\<close>

locale bounded_fifo =
  fixes inv :: "'s \<Rightarrow> bool"
    and abs :: "'s \<Rightarrow> 'x list"
    and ok :: "'x \<Rightarrow> bool"
    and cap :: nat
    and push :: "'s \<Rightarrow> 'x \<Rightarrow> bool \<times> 's"
    and pop :: "'s \<Rightarrow> 's"
  assumes push_accept: "inv s \<Longrightarrow> ok x \<Longrightarrow> length (abs s) < cap \<Longrightarrow>
      fst (push s x) \<and> inv (snd (push s x)) \<and> abs (snd (push s x)) = abs s @ [x]"
    and push_refuse: "inv s \<Longrightarrow> \<not> ok x \<or> cap \<le> length (abs s) \<Longrightarrow> push s x = (False, s)"
    and pop_step: "inv s \<Longrightarrow> abs s \<noteq> [] \<Longrightarrow> inv (pop s) \<and> abs (pop s) = tl (abs s)"
begin

lemma push_all:
  "inv s \<Longrightarrow> \<forall>x\<in>set xs. ok x \<Longrightarrow> length (abs s) + length xs \<le> cap \<Longrightarrow>
   inv (fold (\<lambda>x s. snd (push s x)) xs s) \<and> abs (fold (\<lambda>x s. snd (push s x)) xs s) = abs s @ xs"
proof (induction xs arbitrary: s)
  case (Cons x xs)
  then show ?case
    using push_accept [of s x] by simp
qed simp

lemma pop_all: "inv s \<Longrightarrow> n \<le> length (abs s) \<Longrightarrow> inv ((pop ^^ n) s) \<and> abs ((pop ^^ n) s) = drop n (abs s)"
proof (induction n)
  case (Suc n)
  then have "inv ((pop ^^ n) s)" "abs ((pop ^^ n) s) = drop n (abs s)" "drop n (abs s) \<noteq> []"
    by simp_all
  then show ?case
    using pop_step [of "(pop ^^ n) s"] by (simp add: tl_drop drop_Suc)
qed simp

end

lemma fifo_slot: "h < 16 \<Longrightarrow> i \<le> 16 \<Longrightarrow> unat ((h + of_nat i) mod 16 :: u32) = (unat h + i) mod 16"
  by (simp add: unat_mod unat_word_ariths unat_of_nat word_less_nat_alt)

lemma slot_neq: "i < c \<Longrightarrow> c < 16 \<Longrightarrow> (h + i) mod 16 \<noteq> (h + c) mod (16::nat)"
  using mod_eq_dvd_iff_nat [of "h + i" "h + c" 16] by (auto dest: dvd_imp_le)

lemma push_frame:
  assumes "length f \<le> 1600"
  shows "map (\<lambda>j. if unat (of_nat j :: u32) < length f then f ! unat (of_nat j :: u32) else g j) [0..<unat (of_nat (length f) :: u32)] = f"
  using assms by (auto intro!: nth_equalityI simp: unat_of_nat)

interpretation net_fifo: bounded_fifo fifo_inv fifo_frames frame_ok 16 net_fifo_push net_fifo_pop
proof (unfold_locales, goal_cases)
  case (1 n f)
  then have h: "n_fifo_head n < 16" "unat (n_fifo_head n) < 16" and c: "n_fifo_count n < 16" "unat (n_fifo_count n) < 16" and f: "f \<noteq> []" "length f \<le> 1600"
    by (auto simp: fifo_inv_def fifo_frames_def frame_ok_def word_less_nat_alt)
  let ?t = "(n_fifo_head n + n_fifo_count n) mod 16"
  let ?n = "snd (net_fifo_push n f)"
  have push: "fst (net_fifo_push n f)"
    using c f by (simp add: net_fifo_push_def Let_def)
  have t: "unat ?t = (unat (n_fifo_head n) + unat (n_fifo_count n)) mod 16"
    using fifo_slot [of "n_fifo_head n" "unat (n_fifo_count n)"] h c by simp
  have old: "fifo_frame ?n ((n_fifo_head n + of_nat i) mod 16) = fifo_frame n ((n_fifo_head n + of_nat i) mod 16)"
    if "i < unat (n_fifo_count n)" for i
  proof -
    have "(n_fifo_head n + of_nat i) mod 16 \<noteq> ?t"
      unfolding word_eq_unat [of _ ?t] t using that h c slot_neq [of i "unat (n_fifo_count n)" "unat (n_fifo_head n)"]
      by (simp add: fifo_slot)
    then show ?thesis
      using c f by (simp add: net_fifo_push_def Let_def fifo_frame_def)
  qed
  have new: "fifo_frame ?n ?t = f"
    using c f by (simp add: net_fifo_push_def Let_def fifo_frame_def push_frame)
  have cnt: "unat (n_fifo_count ?n) = Suc (unat (n_fifo_count n))" "n_fifo_head ?n = n_fifo_head n"
    using c f by (simp_all add: net_fifo_push_def Let_def unat_word_ariths)
  have "fifo_frames ?n = fifo_frames n @ [f]"
    using old new by (simp add: fifo_frames_def cnt)
  moreover have "fifo_inv ?n"
    using 1(1) c f cnt by (auto simp: fifo_inv_def net_fifo_push_def Let_def word_le_nat_alt unat_of_nat)
  ultimately show ?case
    by (simp add: push)
next
  case (2 n f)
  then show ?case
    by (auto simp: net_fifo_push_def fifo_frames_def frame_ok_def word_le_nat_alt not_le)
next
  case (3 n)
  then have h: "n_fifo_head n < 16" "unat (n_fifo_head n) < 16" and c: "0 < unat (n_fifo_count n)" "unat (n_fifo_count n) \<le> 16"
    by (auto simp: fifo_inv_def fifo_frames_def word_less_nat_alt word_le_nat_alt)
  have cnt: "unat (n_fifo_count n - 1) = unat (n_fifo_count n) - 1"
    using c by (simp add: unat_sub word_le_nat_alt)
  have hd: "(n_fifo_head (net_fifo_pop n) + of_nat i) mod 16 = (n_fifo_head n + of_nat (Suc i)) mod 16" if "i < 16" for i
    unfolding word_eq_unat using that h fifo_slot [of "n_fifo_head n" 1]
    by (subst (1 2) fifo_slot) (simp_all add: net_fifo_pop_def word_less_nat_alt mod_simps)
  have "fifo_frames (net_fifo_pop n) = map (\<lambda>i. fifo_frame n ((n_fifo_head n + of_nat (Suc i)) mod 16)) [0..<unat (n_fifo_count n) - 1]"
    using c hd by (auto simp: fifo_frames_def cnt net_fifo_pop_def fifo_frame_def)
  moreover have "[0..<unat (n_fifo_count n)] = 0 # map Suc [0..<unat (n_fifo_count n) - 1]"
    using c by (simp add: map_Suc_upt upt_conv_Cons)
  ultimately have "fifo_frames (net_fifo_pop n) = tl (fifo_frames n)"
    by (simp add: fifo_frames_def comp_def)
  moreover have "fifo_inv (net_fifo_pop n)"
    using 3(1) c cnt fifo_slot [of "n_fifo_head n" 1] by (auto simp: fifo_inv_def net_fifo_pop_def word_less_nat_alt word_le_nat_alt)
  ultimately show ?case
    by simp
qed

lemma virtio_drain_last: "v_last_avail (p_virtio (b_plat (virtio_drain b avail used idx))) = idx"
proof (induction b avail used idx rule: virtio_drain.induct)
  case (1 b avail used idx)
  then show ?case
    by (subst virtio_drain.simps) simp
qed



text \<open>C33: the receive FIFO of the network device is a queue of at most 16 frames: pushing acceptable
  frames that fit appends them in order, and popping the older ones leaves exactly them.\<close>

theorem net_fifo_in_order:
  assumes "fifo_inv n" "\<forall>f\<in>set fs. frame_ok f" "length (fifo_frames n) + length fs \<le> 16"
  defines "n' \<equiv> fold (\<lambda>f n. snd (net_fifo_push n f)) fs n"
  shows "fifo_frames n' = fifo_frames n @ fs \<and>
    fifo_frames ((net_fifo_pop ^^ length (fifo_frames n)) n') = fs"
  using net_fifo.push_all [OF assms(1-3)] net_fifo.pop_all [of n' "length (fifo_frames n)"]
  by (simp add: n'_def)

theorem net_fifo_in_order_witness:
  "fifo_frames (fold (\<lambda>f n. snd (net_fifo_push n f)) [[1, 2], [3]] (p_net plat_init)) = [[1, 2], [3]]"
proof -
  have "fifo_inv (p_net plat_init)" "fifo_frames (p_net plat_init) = []"
    by (simp_all add: fifo_inv_def fifo_frames_def plat_init_def)
  then show ?thesis
    using net_fifo_in_order [of "p_net plat_init" "[[1, 2], [3]]"] by (simp add: frame_ok_def)
qed

lemma fifo_upd_vq: "fifo_inv (upd_vq k f n) = fifo_inv n" "fifo_frames (upd_vq k f n) = fifo_frames n"
  by (simp_all add: fifo_inv_def fifo_frames_def fifo_frame_def upd_vq_def)

text \<open>delivering one buffered frame to a posted receive buffer removes exactly the oldest frame of the
  FIFO and keeps the FIFO well-formed, wherever the guest's descriptors point.\<close>

theorem net_rx_one_pops:
  assumes "fifo_inv (p_net (b_plat b))" "n_fifo_count (p_net (b_plat b)) \<noteq> 0"
  shows "fifo_inv (p_net (b_plat (net_rx_one b avail used))) \<and>
    fifo_frames (p_net (b_plat (net_rx_one b avail used))) = tl (fifo_frames (p_net (b_plat b)))"
proof -
  have "fifo_frames (p_net (b_plat b)) \<noteq> []"
    using assms(2) by (simp add: fifo_frames_def unat_gt_0)
  then show ?thesis
    using net_fifo.pop_step [of "upd_vq VIRTIO_NET_RXQ f (p_net (b_plat b))" for f] assms(1)
    by (simp add: net_rx_one_def Let_def case_prod_unfold upd_net_def fifo_upd_vq)
qed

theorem net_rx_one_pops_witness:
  "fifo_frames (p_net (b_plat (net_rx_one net_bus 0x100 0x200))) = []"
proof -
  have "fifo_inv (p_net (b_plat net_bus))" "n_fifo_count (p_net (b_plat net_bus)) \<noteq> 0"
    "fifo_frames (p_net (b_plat net_bus)) = [[7]]"
    by (simp_all add: net_bus_def fifo_inv_def fifo_frames_def fifo_frame_def plat_init_def)
  then show ?thesis
    using net_rx_one_pops [of net_bus "0x100" "0x200"] by simp
qed

end
