(* ===== verification/Cpu.thy ===== *)
theory Cpu
  imports Decode Memory "HOL-Library.State_Monad"
begin

text \<open>
  The hart and machine state of \<open>src/src/cpu.h\<close>, with the cache model's and the decode cache's
  records, the register file access of \<open>src/src/cpu.c\<close>, and the state monad in which the
  machine-level operations are written.

  All harts of a machine share one memory and one (optional) cache model, and a hart reaches its
  siblings through the platform (SBI, LR/SC reservations). So the machine state holds the harts
  in a store indexed by hart number and a C function on \<open>CPU *cpu\<close> takes the number of the hart it
  runs on. A borrowed pointer that only says whether a component is attached is a flag or an
  option. \<open>xlen\<close> is 32 or 64; \<open>priv\<close> keeps the architectural numbering.
\<close>

subsection \<open>Constants\<close>

abbreviation (input) PRIV_U :: u32 where "PRIV_U \<equiv> 0"
abbreviation (input) PRIV_S :: u32 where "PRIV_S \<equiv> 1"
abbreviation (input) PRIV_M :: u32 where "PRIV_M \<equiv> 3"

abbreviation (input) MSTATUS_SIE :: u64 where "MSTATUS_SIE \<equiv> 0x2"
abbreviation (input) MSTATUS_MIE :: u64 where "MSTATUS_MIE \<equiv> 0x8"
abbreviation (input) MSTATUS_SPIE :: u64 where "MSTATUS_SPIE \<equiv> 0x20"
abbreviation (input) MSTATUS_MPIE :: u64 where "MSTATUS_MPIE \<equiv> 0x80"
abbreviation (input) MSTATUS_SPP :: u64 where "MSTATUS_SPP \<equiv> 0x100"
abbreviation (input) MSTATUS_MPP :: u64 where "MSTATUS_MPP \<equiv> 0x1800"
abbreviation (input) MSTATUS_MPRV :: u64 where "MSTATUS_MPRV \<equiv> 0x20000"
abbreviation (input) MSTATUS_SUM :: u64 where "MSTATUS_SUM \<equiv> 0x40000"
abbreviation (input) MSTATUS_MXR :: u64 where "MSTATUS_MXR \<equiv> 0x80000"
abbreviation (input) MSTATUS_FS :: u64 where "MSTATUS_FS \<equiv> 0x6000"
abbreviation (input) MSTATUS_MPP_SHIFT :: nat where "MSTATUS_MPP_SHIFT \<equiv> 11"

abbreviation (input) CAUSE_INSN_MISALIGNED :: u32 where "CAUSE_INSN_MISALIGNED \<equiv> 0"
abbreviation (input) CAUSE_INSN_ACCESS :: u32 where "CAUSE_INSN_ACCESS \<equiv> 1"
abbreviation (input) CAUSE_ILLEGAL_INSN :: u32 where "CAUSE_ILLEGAL_INSN \<equiv> 2"
abbreviation (input) CAUSE_BREAKPOINT :: u32 where "CAUSE_BREAKPOINT \<equiv> 3"
abbreviation (input) CAUSE_LOAD_MISALIGNED :: u32 where "CAUSE_LOAD_MISALIGNED \<equiv> 4"
abbreviation (input) CAUSE_LOAD_ACCESS :: u32 where "CAUSE_LOAD_ACCESS \<equiv> 5"
abbreviation (input) CAUSE_STORE_MISALIGNED :: u32 where "CAUSE_STORE_MISALIGNED \<equiv> 6"
abbreviation (input) CAUSE_STORE_ACCESS :: u32 where "CAUSE_STORE_ACCESS \<equiv> 7"
abbreviation (input) CAUSE_ECALL_U :: u32 where "CAUSE_ECALL_U \<equiv> 8"
abbreviation (input) CAUSE_ECALL_S :: u32 where "CAUSE_ECALL_S \<equiv> 9"
abbreviation (input) CAUSE_ECALL_M :: u32 where "CAUSE_ECALL_M \<equiv> 11"
abbreviation (input) CAUSE_INSN_PAGE_FAULT :: u32 where "CAUSE_INSN_PAGE_FAULT \<equiv> 12"
abbreviation (input) CAUSE_LOAD_PAGE_FAULT :: u32 where "CAUSE_LOAD_PAGE_FAULT \<equiv> 13"
abbreviation (input) CAUSE_STORE_PAGE_FAULT :: u32 where "CAUSE_STORE_PAGE_FAULT \<equiv> 15"

abbreviation (input) SSTATUS_MASK :: u64 where "SSTATUS_MASK \<equiv> 0xc6122"
abbreviation (input) S_INT_MASK :: u64 where "S_INT_MASK \<equiv> 0x222"

abbreviation (input) IRQ_SSOFT :: nat where "IRQ_SSOFT \<equiv> 1"
abbreviation (input) IRQ_MSOFT :: nat where "IRQ_MSOFT \<equiv> 3"
abbreviation (input) IRQ_STIMER :: nat where "IRQ_STIMER \<equiv> 5"
abbreviation (input) IRQ_MTIMER :: nat where "IRQ_MTIMER \<equiv> 7"
abbreviation (input) IRQ_SEXT :: nat where "IRQ_SEXT \<equiv> 9"
abbreviation (input) IRQ_MEXT :: nat where "IRQ_MEXT \<equiv> 11"

subsection \<open>State\<close>

datatype AccessType = ACC_FETCH | ACC_LOAD | ACC_STORE

datatype HaltReason = HALT_NONE | HALT_EXIT | HALT_EBREAK | HALT_ILLEGAL_INSN | HALT_UNIMP_SYSTEM
  | HALT_UNKNOWN_SYSCALL | HALT_MEM_FAULT

datatype HsmState = HSM_STARTED | HSM_STOPPED | HSM_START_PENDING | HSM_STOP_PENDING
  | HSM_SUSPENDED | HSM_SUSPEND_PENDING | HSM_RESUME_PENDING

record TlbEntry =
  t_valid :: bool
  t_vpn :: u64
  t_asid :: u32
  t_ppn :: u64
  t_pte_flags :: u32

record DecodedInsn =
  di_gen :: u64
  di_pa :: u64
  di_inst :: u32
  di_ilen :: u32

record DecodeCache =
  dc_gen :: u64
  dc_slots :: "u32 \<Rightarrow> DecodedInsn"

text \<open>The part of the JIT that a step can change: \<open>FENCE.I\<close> flushes it.\<close>

record Jit =
  j_gen :: u64
  j_used :: u64

record CacheLine =
  l_valid :: bool
  l_tag :: u32
  l_used :: u64

record Cache =
  ch_block_size :: u32
  ch_num_sets :: u32
  ch_assoc :: u32
  ch_offset_bits :: nat
  ch_index_bits :: nat
  ch_lines :: "nat \<Rightarrow> CacheLine"
  ch_tick :: u64
  ch_loads :: u64
  ch_stores :: u64
  ch_hits :: u64
  ch_misses :: u64

record CPU =
  regs :: "u32 \<Rightarrow> u64"
  fregs :: "u32 \<Rightarrow> u64"
  pc :: u64
  xlen :: nat
  hartid :: u32
  cache_on :: bool
  dcache :: "DecodeCache option"
  jit :: "Jit option"
  halted :: bool
  halt_reason :: HaltReason
  exit_code :: u32
  instret :: u64
  priv :: u32
  trapped :: bool
  sbi_timer_armed :: bool
  hsm_state :: HsmState
  reserve_valid :: bool
  reserve_addr :: u64
  tlb :: "u64 \<Rightarrow> TlbEntry"
  tlb_next :: u32
  csr :: "u32 \<Rightarrow> u64"

record Machine =
  harts :: "u32 \<Rightarrow> CPU"
  mem :: Memory
  mcache :: Cache

subsection \<open>Register access\<close>

definition sext_xlen :: "CPU \<Rightarrow> u64 \<Rightarrow> u64" where
  "sext_xlen c v = (if xlen c = 32 then scast (ucast v :: u32) else v)"

definition cause_interrupt :: "CPU \<Rightarrow> u64" where
  "cause_interrupt c = shl 1 (xlen c - 1)"

definition reg_read :: "CPU \<Rightarrow> u32 \<Rightarrow> u64" where
  "reg_read c i = (if i = 0 then 0 else regs c i)"

definition reg_write :: "CPU \<Rightarrow> u32 \<Rightarrow> u64 \<Rightarrow> CPU" where
  "reg_write c i v = (if i \<noteq> 0 then c\<lparr>regs := (regs c)(i := sext_xlen c v)\<rparr> else c)"

definition set_csr :: "u32 \<Rightarrow> u64 \<Rightarrow> CPU \<Rightarrow> CPU" where
  "set_csr a v c = c\<lparr>csr := (csr c)(a := v)\<rparr>"

definition halt_with :: "HaltReason \<Rightarrow> CPU \<Rightarrow> CPU" where
  "halt_with r c = c\<lparr>halt_reason := r, halted := True\<rparr>"

definition mmu_flush :: "CPU \<Rightarrow> CPU" where
  "mmu_flush c = c\<lparr>tlb := (\<lambda>i. (tlb c i)\<lparr>t_valid := False\<rparr>), tlb_next := 0\<rparr>"

definition dcache_new :: DecodeCache where
  "dcache_new = \<lparr>dc_gen = 1, dc_slots = (\<lambda>_. \<lparr>di_gen = 0, di_pa = 0, di_inst = 0, di_ilen = 0\<rparr>)\<rparr>"

definition dcache_flush :: "DecodeCache option \<Rightarrow> DecodeCache option" where
  "dcache_flush dc = map_option (\<lambda>d. d\<lparr>dc_gen := dc_gen d + 1\<rparr>) dc"

definition jit_flush :: "Jit option \<Rightarrow> Jit option" where
  "jit_flush j = map_option (\<lambda>j. j\<lparr>j_gen := j_gen j + 1, j_used := 0\<rparr>) j"

definition cpu_init :: "u64 \<Rightarrow> nat \<Rightarrow> CPU" where
  "cpu_init entry_pc xl =
     mmu_flush \<lparr>regs = (\<lambda>_. 0), fregs = (\<lambda>_. 0), pc = entry_pc, xlen = xl, hartid = 0,
       cache_on = False, dcache = None, jit = None, halted = False, halt_reason = HALT_NONE,
       exit_code = 0, instret = 0, priv = PRIV_M, trapped = False, sbi_timer_armed = False,
       hsm_state = HSM_STARTED, reserve_valid = False, reserve_addr = 0,
       tlb = (\<lambda>_. \<lparr>t_valid = False, t_vpn = 0, t_asid = 0, t_ppn = 0, t_pte_flags = 0\<rparr>), tlb_next = 0,
       csr = (\<lambda>_. 0)(CSR_MISA := shl (if xl = 64 then 2 else 1) (xl - 2) OR 0x14112e)\<rparr>"

definition halt_reason_str :: "HaltReason \<Rightarrow> string" where
  "halt_reason_str r = (case r of
       HALT_NONE \<Rightarrow> ''running''
     | HALT_EXIT \<Rightarrow> ''exit syscall''
     | HALT_EBREAK \<Rightarrow> ''ebreak''
     | HALT_ILLEGAL_INSN \<Rightarrow> ''illegal instruction''
     | HALT_UNIMP_SYSTEM \<Rightarrow> ''unimplemented system instruction''
     | HALT_UNKNOWN_SYSCALL \<Rightarrow> ''unknown syscall''
     | HALT_MEM_FAULT \<Rightarrow> ''memory access out of range'')"

subsection \<open>The machine monad\<close>

type_synonym 'a mach = "(Machine, 'a) state"

abbreviation (input) ret :: "'a \<Rightarrow> 'a mach" where
  "ret \<equiv> State_Monad.return"

definition get_cpu :: "u32 \<Rightarrow> CPU mach" where
  "get_cpu h = State (\<lambda>M. (harts M h, M))"

definition upd_cpu :: "u32 \<Rightarrow> (CPU \<Rightarrow> CPU) \<Rightarrow> unit mach" where
  "upd_cpu h f = State (\<lambda>M. ((), M\<lparr>harts := (harts M)(h := f (harts M h))\<rparr>))"

definition get_mem :: "Memory mach" where
  "get_mem = State (\<lambda>M. (mem M, M))"

text \<open>A memory access that returns a value, one that does not, and an update of the cache model.\<close>

definition mem_get :: "(Memory \<Rightarrow> 'a \<times> Memory) \<Rightarrow> 'a mach" where
  "mem_get f = State (\<lambda>M. let (v, m) = f (mem M) in (v, M\<lparr>mem := m\<rparr>))"

definition mem_upd :: "(Memory \<Rightarrow> Memory) \<Rightarrow> unit mach" where
  "mem_upd f = State (\<lambda>M. ((), M\<lparr>mem := f (mem M)\<rparr>))"

definition cache_upd :: "(Cache \<Rightarrow> Cache) \<Rightarrow> unit mach" where
  "cache_upd f = State (\<lambda>M. ((), M\<lparr>mcache := f (mcache M)\<rparr>))"

lemma run_prims [simp]:
  "run_state (get_cpu h) M = (harts M h, M)"
  "run_state (upd_cpu h f) M = ((), M\<lparr>harts := (harts M)(h := f (harts M h))\<rparr>)"
  "run_state get_mem M = (mem M, M)"
  "run_state (mem_get g) M = (let (v, m) = g (mem M) in (v, M\<lparr>mem := m\<rparr>))"
  "run_state (mem_upd k) M = ((), M\<lparr>mem := k (mem M)\<rparr>)"
  "run_state (cache_upd l) M = ((), M\<lparr>mcache := l (mcache M)\<rparr>)"
  by (simp_all add: get_cpu_def upd_cpu_def get_mem_def mem_get_def mem_upd_def cache_upd_def)

end
