(* ===== verification/Alu.thy ===== *)
theory Alu
  imports Cpu
begin

text \<open>
  The integer instructions of \<open>src/src/cpu.c\<close> that touch only the hart: the bit-manipulation
  extensions, OP-IMM, OP, their word forms, multiply and divide, and the branches. A group that
  may not recognise an encoding returns \<open>None\<close> where the C function returns 0 (bit manipulation) or
  raises an illegal-instruction trap (the word groups); the dispatcher in theory \<open>Step\<close> does the rest.
\<close>

subsection \<open>Bit-manipulation helpers\<close>

definition bm_mask :: "nat \<Rightarrow> u64" where
  "bm_mask n = (if n \<ge> 64 then NOT 0 else shl 1 n - 1)"

fun bm_clz :: "u64 \<Rightarrow> nat \<Rightarrow> nat" where
  "bm_clz v 0 = 0"
| "bm_clz v (Suc i) = (if shr v i AND 1 = 0 then Suc (bm_clz v i) else 0)"

fun bm_ctz_from :: "u64 \<Rightarrow> nat \<Rightarrow> nat \<Rightarrow> nat" where
  "bm_ctz_from v i 0 = 0"
| "bm_ctz_from v i (Suc left) = (if shr v i AND 1 = 0 then Suc (bm_ctz_from v (Suc i) left) else 0)"

definition bm_ctz :: "u64 \<Rightarrow> nat \<Rightarrow> nat" where
  "bm_ctz v n = bm_ctz_from v 0 n"

fun bm_cpop :: "u64 \<Rightarrow> nat \<Rightarrow> nat" where
  "bm_cpop v 0 = 0"
| "bm_cpop v (Suc i) = bm_cpop v i + unat (shr v i AND 1)"

definition bm_ror :: "u64 \<Rightarrow> nat \<Rightarrow> nat \<Rightarrow> u64" where
  "bm_ror v sh n =
     (let v = v AND bm_mask n; sh = sh mod n
      in if sh = 0 then v else (shr v sh OR shl v (n - sh)) AND bm_mask n)"

definition bm_rol :: "u64 \<Rightarrow> nat \<Rightarrow> nat \<Rightarrow> u64" where
  "bm_rol v sh n =
     (let v = v AND bm_mask n; sh = sh mod n
      in if sh = 0 then v else (shl v sh OR shr v (n - sh)) AND bm_mask n)"

definition bm_orcb :: "u64 \<Rightarrow> nat \<Rightarrow> u64" where
  "bm_orcb v n = fold (\<lambda>k r. if shr v (8 * k) AND 0xff \<noteq> 0 then r OR shl 0xff (8 * k) else r) [0..<n div 8] 0"

definition bm_rev8 :: "u64 \<Rightarrow> nat \<Rightarrow> u64" where
  "bm_rev8 v n =
     (let nbytes = n div 8
      in fold (\<lambda>i r. r OR shl (shr v (i * 8) AND 0xff) ((nbytes - 1 - i) * 8)) [0..<nbytes] 0)"

definition bm_clmul128 :: "u64 \<Rightarrow> u64 \<Rightarrow> nat \<Rightarrow> u64 \<times> u64" where
  "bm_clmul128 a b n =
     (let a = a AND bm_mask n; b = b AND bm_mask n
      in fold (\<lambda>i (rh, rl).
           if shr b i AND 1 \<noteq> 0
           then (if i > 0 then rh XOR shr a (64 - i) else rh, rl XOR shl a i)
           else (rh, rl)) [0..<min n 64] (0, 0))"

definition bm_bits128 :: "u64 \<Rightarrow> u64 \<Rightarrow> nat \<Rightarrow> nat \<Rightarrow> u64" where
  "bm_bits128 hi lo p w =
     (if p = 0 then lo
      else if p < 64 then shr lo p OR shl hi (64 - p)
      else if p < 128 then shr hi (p - 64)
      else 0) AND bm_mask w"

subsection \<open>Bit-manipulation groups\<close>

text \<open>The result of each group as a function of the operands; \<open>None\<close>: not a bit-manipulation encoding.\<close>

definition bitmanip_op :: "nat \<Rightarrow> u32 \<Rightarrow> u64 \<Rightarrow> u64 \<Rightarrow> u64 option" where
  "bitmanip_op n inst a b =
     (let f7 = funct7 inst; f3 = funct3 inst;
          idx = unat (ucast b :: u32) mod n;
          clmul = bm_clmul128 a b n
      in if f7 = 0x10 then
           (if f3 = 0x2 then Some (shl a 1 + b) else if f3 = 0x4 then Some (shl a 2 + b)
            else if f3 = 0x6 then Some (shl a 3 + b) else None)
         else if f7 = 0x20 then
           (if f3 = 0x7 then Some (a AND NOT b) else if f3 = 0x6 then Some (a OR NOT b)
            else if f3 = 0x4 then Some (NOT (a XOR b)) else None)
         else if f7 = 0x30 then
           (if f3 = 0x1 then Some (bm_rol a (unat (ucast b :: u32)) n)
            else if f3 = 0x5 then Some (bm_ror a (unat (ucast b :: u32)) n) else None)
         else if f7 = 0x05 then
           (if f3 = 0x1 then Some (bm_bits128 (fst clmul) (snd clmul) 0 n)
            else if f3 = 0x2 then Some (bm_bits128 (fst clmul) (snd clmul) (n - 1) n)
            else if f3 = 0x3 then Some (bm_bits128 (fst clmul) (snd clmul) n n)
            else if f3 = 0x4 then Some (if sint a < sint b then a else b)
            else if f3 = 0x5 then Some (if a < b then a else b)
            else if f3 = 0x6 then Some (if sint a < sint b then b else a)
            else if f3 = 0x7 then Some (if a < b then b else a) else None)
         else if f7 = 0x24 then
           (if f3 = 0x1 then Some (a AND NOT (shl 1 idx))
            else if f3 = 0x5 then Some (shr a idx AND 1) else None)
         else if f7 = 0x14 then (if f3 \<noteq> 0x1 then None else Some (a OR shl 1 idx))
         else if f7 = 0x34 then (if f3 \<noteq> 0x1 then None else Some (a XOR shl 1 idx))
         else if f7 = 0x04 then
           (if n \<noteq> 32 \<or> f3 \<noteq> 0x4 \<or> rs2 inst \<noteq> 0 then None else Some (a AND 0xffff))
         else None)"

definition exec_bitmanip_op :: "CPU \<Rightarrow> u32 \<Rightarrow> CPU option" where
  "exec_bitmanip_op c inst =
     map_option (reg_write c (rd inst))
       (bitmanip_op (xlen c) inst (reg_read c (rs1 inst)) (reg_read c (rs2 inst)))"

definition bitmanip_imm :: "nat \<Rightarrow> u32 \<Rightarrow> u64 \<Rightarrow> u64 option" where
  "bitmanip_imm n inst a =
     (let f3 = funct3 inst; f7 = funct7 inst; f6 = shr inst 26 AND 0x3f; rs2f = rs2 inst;
          shamt = unat (shr inst 20 AND (if n = 64 then 0x3f else 0x1f))
      in if f3 = 0x1 then
           (if f7 = 0x30 then
              (if rs2f = 0x00 then Some (of_nat (bm_clz a n))
               else if rs2f = 0x01 then Some (of_nat (bm_ctz a n))
               else if rs2f = 0x02 then Some (of_nat (bm_cpop a n))
               else if rs2f = 0x04 then Some (scast (ucast a :: u8))
               else if rs2f = 0x05 then Some (scast (ucast a :: u16)) else None)
            else if f6 = 0x12 then Some (a AND NOT (shl 1 shamt))
            else if f6 = 0x1a then Some (a XOR shl 1 shamt)
            else if f6 = 0x0a then Some (a OR shl 1 shamt)
            else None)
         else if f3 = 0x5 then
           (if f6 = 0x18 then Some (bm_ror a shamt n)
            else if f6 = 0x12 then Some (shr a shamt AND 1)
            else if f7 = 0x14 \<and> rs2f = 0x07 then Some (bm_orcb a n)
            else if (f7 = 0x34 \<or> f7 = 0x35) \<and> rs2f = 0x18 then Some (bm_rev8 a n)
            else None)
         else None)"

definition exec_bitmanip_imm :: "CPU \<Rightarrow> u32 \<Rightarrow> CPU option" where
  "exec_bitmanip_imm c inst =
     map_option (reg_write c (rd inst)) (bitmanip_imm (xlen c) inst (reg_read c (rs1 inst)))"

definition bitmanip_op32 :: "u32 \<Rightarrow> u64 \<Rightarrow> u64 \<Rightarrow> u64 option" where
  "bitmanip_op32 inst a b =
     (let f7 = funct7 inst; f3 = funct3 inst; auw = a AND 0xffffffff
      in if f7 = 0x04 then
           (if f3 = 0x0 then Some (auw + b)
            else if f3 = 0x4 \<and> rs2 inst = 0 then Some (a AND 0xffff) else None)
         else if f7 = 0x10 then
           (if f3 = 0x2 then Some (shl auw 1 + b) else if f3 = 0x4 then Some (shl auw 2 + b)
            else if f3 = 0x6 then Some (shl auw 3 + b) else None)
         else if f7 = 0x30 then
           (if f3 = 0x1 then Some (scast (ucast (bm_rol a (unat (ucast b :: u32)) 32) :: u32))
            else if f3 = 0x5 then Some (scast (ucast (bm_ror a (unat (ucast b :: u32)) 32) :: u32)) else None)
         else None)"

definition exec_bitmanip_op32 :: "CPU \<Rightarrow> u32 \<Rightarrow> CPU option" where
  "exec_bitmanip_op32 c inst =
     map_option (reg_write c (rd inst)) (bitmanip_op32 inst (reg_read c (rs1 inst)) (reg_read c (rs2 inst)))"

definition bitmanip_imm32 :: "u32 \<Rightarrow> u64 \<Rightarrow> u64 option" where
  "bitmanip_imm32 inst a =
     (let f3 = funct3 inst; f7 = funct7 inst; f6 = shr inst 26 AND 0x3f; rs2f = rs2 inst;
          w = ucast (ucast a :: u32) :: u64
      in if f3 = 0x1 then
           (if f6 = 0x02 then Some (shl (a AND 0xffffffff) (unat (shr inst 20 AND 0x3f)))
            else if f7 = 0x30 then
              (if rs2f = 0x00 then Some (of_nat (bm_clz w 32))
               else if rs2f = 0x01 then Some (of_nat (bm_ctz w 32))
               else if rs2f = 0x02 then Some (of_nat (bm_cpop w 32)) else None)
            else None)
         else if f3 = 0x5 \<and> f7 = 0x30 then Some (scast (ucast (bm_ror a (unat (shr inst 20 AND 0x1f)) 32) :: u32))
         else None)"

definition exec_bitmanip_imm32 :: "CPU \<Rightarrow> u32 \<Rightarrow> CPU option" where
  "exec_bitmanip_imm32 c inst =
     map_option (reg_write c (rd inst)) (bitmanip_imm32 inst (reg_read c (rs1 inst)))"

subsection \<open>Immediate arithmetic\<close>

definition op_imm_value :: "CPU \<Rightarrow> u32 \<Rightarrow> u64" where
  "op_imm_value c inst =
     (let a = reg_read c (rs1 inst);
          imm = scast (imm_i inst) :: u64;
          shamt = unat ((ucast imm :: u32) AND (if xlen c = 64 then 0x3f else 0x1f));
          arith = shr inst 30 AND 1 \<noteq> 0;
          f3 = funct3 inst
      in if f3 = 0x0 then a + imm
         else if f3 = 0x2 then of_flag (sint a < sint imm)
         else if f3 = 0x3 then of_flag (a < imm)
         else if f3 = 0x4 then a XOR imm
         else if f3 = 0x6 then a OR imm
         else if f3 = 0x7 then a AND imm
         else if f3 = 0x1 then shl a shamt
         else if arith then
           (if xlen c = 64 then sar a shamt else scast (sar (ucast a :: u32) shamt))
         else
           (if xlen c = 64 then shr a shamt else ucast (shr (ucast a :: u32) shamt)))"

definition exec_op_imm :: "CPU \<Rightarrow> u32 \<Rightarrow> CPU" where
  "exec_op_imm c inst =
     (case exec_bitmanip_imm c inst of
        Some c' \<Rightarrow> c'
      | None \<Rightarrow> reg_write c (rd inst) (op_imm_value c inst))"

subsection \<open>Multiply and divide\<close>

definition mulhu64 :: "u64 \<Rightarrow> u64 \<Rightarrow> u64" where
  "mulhu64 a b =
     (let alo = ucast (ucast a :: u32); ahi = shr a 32;
          blo = ucast (ucast b :: u32); bhi = shr b 32;
          lo_lo = alo * blo; lo_hi = alo * bhi; hi_lo = ahi * blo; hi_hi = ahi * bhi;
          cross = shr lo_lo 32 + ucast (ucast lo_hi :: u32) + ucast (ucast hi_lo :: u32)
      in hi_hi + shr lo_hi 32 + shr hi_lo 32 + shr cross 32)"

text \<open>C's \<open>/\<close> and \<open>%\<close> on signed values truncate towards zero.\<close>

definition cdiv :: "'a::len word \<Rightarrow> 'a word \<Rightarrow> 'a word" where
  "cdiv a b = word_of_int (sint a sdiv sint b)"

definition crem :: "'a::len word \<Rightarrow> 'a word \<Rightarrow> 'a word" where
  "crem a b = word_of_int (sint a smod sint b)"

definition muldiv64_value :: "u32 \<Rightarrow> u64 \<Rightarrow> u64 \<Rightarrow> u64" where
  "muldiv64_value f3 a b =
     (if f3 = 0x0 then a * b
      else if f3 = 0x1 then mulhu64 a b - (if sint a < 0 then b else 0) - (if sint b < 0 then a else 0)
      else if f3 = 0x2 then mulhu64 a b - (if sint a < 0 then b else 0)
      else if f3 = 0x3 then mulhu64 a b
      else if f3 = 0x4 then
        (if b = 0 then - 1 else if a = 0x8000000000000000 \<and> b = - 1 then 0x8000000000000000 else cdiv a b)
      else if f3 = 0x5 then (if b = 0 then - 1 else a div b)
      else if f3 = 0x6 then
        (if b = 0 then a else if a = 0x8000000000000000 \<and> b = - 1 then 0 else crem a b)
      else (if b = 0 then a else a mod b))"

definition exec_muldiv64 :: "CPU \<Rightarrow> u32 \<Rightarrow> CPU" where
  "exec_muldiv64 c inst =
     reg_write c (rd inst) (muldiv64_value (funct3 inst) (reg_read c (rs1 inst)) (reg_read c (rs2 inst)))"

definition muldiv32_value :: "u32 \<Rightarrow> u32 \<Rightarrow> u32 \<Rightarrow> u32" where
  "muldiv32_value f3 a b =
     (if f3 = 0x0 then ucast ((ucast a :: u64) * ucast b)
      else if f3 = 0x1 then ucast (sar ((scast a :: u64) * scast b) 32)
      else if f3 = 0x2 then ucast (sar ((scast a :: u64) * ucast b) 32)
      else if f3 = 0x3 then ucast (shr ((ucast a :: u64) * ucast b) 32)
      else if f3 = 0x4 then
        (if b = 0 then 0xffffffff else if a = 0x80000000 \<and> b = - 1 then 0x80000000 else cdiv a b)
      else if f3 = 0x5 then (if b = 0 then 0xffffffff else a div b)
      else if f3 = 0x6 then (if b = 0 then a else if a = 0x80000000 \<and> b = - 1 then 0 else crem a b)
      else (if b = 0 then a else a mod b))"

definition exec_muldiv :: "CPU \<Rightarrow> u32 \<Rightarrow> CPU" where
  "exec_muldiv c inst =
     (if xlen c = 64 then exec_muldiv64 c inst
      else reg_write c (rd inst)
             (ucast (muldiv32_value (funct3 inst) (ucast (reg_read c (rs1 inst))) (ucast (reg_read c (rs2 inst))))))"

subsection \<open>Register arithmetic\<close>

definition op_value :: "CPU \<Rightarrow> u32 \<Rightarrow> u64" where
  "op_value c inst =
     (let a = reg_read c (rs1 inst); b = reg_read c (rs2 inst);
          shamt = unat ((ucast b :: u32) AND (if xlen c = 64 then 0x3f else 0x1f));
          alt = (funct7 inst = 0x20);
          f3 = funct3 inst
      in if f3 = 0x0 then (if alt then a - b else a + b)
         else if f3 = 0x1 then shl a shamt
         else if f3 = 0x2 then of_flag (sint a < sint b)
         else if f3 = 0x3 then of_flag (a < b)
         else if f3 = 0x4 then a XOR b
         else if f3 = 0x5 then
           (if alt then (if xlen c = 64 then sar a shamt else scast (sar (ucast a :: u32) shamt))
            else (if xlen c = 64 then shr a shamt else ucast (shr (ucast a :: u32) shamt)))
         else if f3 = 0x6 then a OR b
         else a AND b)"

definition exec_op :: "CPU \<Rightarrow> u32 \<Rightarrow> CPU" where
  "exec_op c inst =
     (if funct7 inst = 0x01 then exec_muldiv c inst
      else (case exec_bitmanip_op c inst of
              Some c' \<Rightarrow> c'
            | None \<Rightarrow> reg_write c (rd inst) (op_value c inst)))"

subsection \<open>Word forms (RV64)\<close>

definition exec_op_imm32 :: "CPU \<Rightarrow> u32 \<Rightarrow> CPU option" where
  "exec_op_imm32 c inst =
     (if xlen c \<noteq> 64 then None
      else (case exec_bitmanip_imm32 c inst of
              Some c' \<Rightarrow> Some c'
            | None \<Rightarrow>
                (let a = ucast (reg_read c (rs1 inst)) :: u32; imm = imm_i inst;
                     shamt = unat (imm AND 0x1f); arith = shr inst 30 AND 1 \<noteq> 0; f3 = funct3 inst;
                     fin = (\<lambda>r :: u32. Some (reg_write c (rd inst) (scast r)))
                 in if f3 = 0x0 then fin (a + imm)
                    else if f3 = 0x1 then fin (shl a shamt)
                    else if f3 = 0x5 then fin (if arith then sar a shamt else shr a shamt)
                    else None)))"

definition muldivw_value :: "u32 \<Rightarrow> u32 \<Rightarrow> u32 \<Rightarrow> u32 option" where
  "muldivw_value f3 a b =
     (if f3 = 0x0 then Some (a * b)
      else if f3 = 0x4 then
        Some (if b = 0 then - 1 else if a = 0x80000000 \<and> b = - 1 then 0x80000000 else cdiv a b)
      else if f3 = 0x5 then Some (if b = 0 then - 1 else a div b)
      else if f3 = 0x6 then Some (if b = 0 then a else if a = 0x80000000 \<and> b = - 1 then 0 else crem a b)
      else if f3 = 0x7 then Some (if b = 0 then a else a mod b)
      else None)"

definition exec_muldivw :: "CPU \<Rightarrow> u32 \<Rightarrow> CPU option" where
  "exec_muldivw c inst =
     map_option (\<lambda>r. reg_write c (rd inst) (scast r))
       (muldivw_value (funct3 inst) (ucast (reg_read c (rs1 inst))) (ucast (reg_read c (rs2 inst))))"

definition exec_op32 :: "CPU \<Rightarrow> u32 \<Rightarrow> CPU option" where
  "exec_op32 c inst =
     (if xlen c \<noteq> 64 then None
      else if funct7 inst = 0x01 then exec_muldivw c inst
      else (case exec_bitmanip_op32 c inst of
              Some c' \<Rightarrow> Some c'
            | None \<Rightarrow>
                (let a = ucast (reg_read c (rs1 inst)) :: u32; b = ucast (reg_read c (rs2 inst)) :: u32;
                     shamt = unat (b AND 0x1f); alt = (funct7 inst = 0x20); f3 = funct3 inst;
                     fin = (\<lambda>r :: u32. Some (reg_write c (rd inst) (scast r)))
                 in if f3 = 0x0 then fin (if alt then a - b else a + b)
                    else if f3 = 0x1 then fin (shl a shamt)
                    else if f3 = 0x5 then fin (if alt then sar a shamt else shr a shamt)
                    else None)))"

subsection \<open>Branches\<close>

definition exec_branch :: "CPU \<Rightarrow> u32 \<Rightarrow> u32 \<Rightarrow> u64" where
  "exec_branch c inst ilen =
     (let a = reg_read c (rs1 inst); b = reg_read c (rs2 inst); f3 = funct3 inst;
          taken = (if f3 = 0x0 then a = b
                   else if f3 = 0x1 then a \<noteq> b
                   else if f3 = 0x4 then sint a < sint b
                   else if f3 = 0x5 then sint a \<ge> sint b
                   else if f3 = 0x6 then a < b
                   else if f3 = 0x7 then a \<ge> b
                   else False)
      in if taken then pc c + scast (imm_b inst) else pc c + ucast ilen)"

end
