(* ===== verification/Alu_Props.thy ===== *)
theory Alu_Props
  imports Alu
begin

text \<open>
  Correctness of the integer instructions of theory \<open>Alu\<close>: the high half of a product built from
  32-bit partial products, the division identities with their two special cases, the bit-scan,
  rotate and byte-reverse helpers, carry-less multiplication, and that the one 64-bit datapath
  computes the RV32 results on sign-extended registers.
\<close>

subsection \<open>Specifications\<close>

text \<open>Bit \<open>k\<close> of the carry-less product of the low \<open>n\<close> bits.\<close>

definition clmul_bit :: "u64 \<Rightarrow> u64 \<Rightarrow> nat \<Rightarrow> nat \<Rightarrow> bool" where
  "clmul_bit a b n k \<longleftrightarrow> odd (card {j. j < n \<and> j \<le> k \<and> k - j < n \<and> bit b j \<and> bit a (k - j)})"

definition wide_bit :: "u64 \<times> u64 \<Rightarrow> nat \<Rightarrow> bool" where
  "wide_bit r k = (if k < 64 then bit (snd r) k else bit (fst r) (k - 64))"

definition clmul_step :: "u64 \<Rightarrow> u64 \<Rightarrow> nat \<Rightarrow> u64 \<times> u64 \<Rightarrow> u64 \<times> u64" where
  "clmul_step a b = (\<lambda>i (rh, rl).
     if shr b i AND 1 \<noteq> 0 then (if i > 0 then rh XOR shr a (64 - i) else rh, rl XOR shl a i) else (rh, rl))"

text \<open>The RV32I register instructions and branch conditions on 32-bit operands.\<close>

definition rv32_op :: "u32 \<Rightarrow> u32 \<Rightarrow> u32 \<Rightarrow> u32 \<Rightarrow> u32" where
  "rv32_op f7 f3 a b =
     (let sh = unat b mod 32
      in if f3 = 0 then (if f7 = 0x20 then a - b else a + b)
         else if f3 = 1 then push_bit sh a
         else if f3 = 2 then (if a <s b then 1 else 0)
         else if f3 = 3 then (if a < b then 1 else 0)
         else if f3 = 4 then a XOR b
         else if f3 = 5 then (if f7 = 0x20 then signed_drop_bit sh a else drop_bit sh a)
         else if f3 = 6 then a OR b
         else a AND b)"

definition rv32_taken :: "u32 \<Rightarrow> u32 \<Rightarrow> u32 \<Rightarrow> bool" where
  "rv32_taken f3 a b =
     (if f3 = 0 then a = b else if f3 = 1 then a \<noteq> b
      else if f3 = 4 then a <s b else if f3 = 5 then b \<le>s a
      else if f3 = 6 then a < b else f3 = 7 \<and> b \<le> a)"

subsection \<open>Multiplication\<close>

lemma split_product:
  fixes B al ah bl bh :: nat
  assumes B: "0 < B" and "al < B" "bl < B"
  defines "c \<equiv> al * bl div B + al * bh mod B + ah * bl mod B"
  shows "(ah * B + al) * (bh * B + bl) div (B * B) = ah * bh + al * bh div B + ah * bl div B + c div B"
proof -
  define x where "x = al * bh"
  define y where "y = ah * bl"
  define z where "z = al * bl"
  have c: "c = z div B + x mod B + y mod B"
    by (simp add: c_def x_def y_def z_def)
  have "(ah * B + al) * (bh * B + bl) = ah * bh * (B * B) + x * B + y * B + z"
    by (simp add: x_def y_def z_def algebra_simps)
  also have "\<dots> = (ah * bh + x div B + y div B) * (B * B) + c * B + z mod B"
  proof -
    have "x * B = x div B * (B * B) + x mod B * B" "y * B = y div B * (B * B) + y mod B * B"
      "z = z div B * B + z mod B"
      by (metis div_mult_mod_eq distrib_right mult.assoc, metis div_mult_mod_eq distrib_right mult.assoc, simp)
    then show ?thesis
      unfolding c by (simp add: algebra_simps)
  qed
  also have "\<dots> = (ah * bh + x div B + y div B + c div B) * (B * B) + (c mod B * B + z mod B)"
  proof -
    have "c * B = c div B * (B * B) + c mod B * B"
      by (metis div_mult_mod_eq distrib_right mult.assoc)
    then show ?thesis
      by (simp add: algebra_simps)
  qed
  finally have eq: "(ah * B + al) * (bh * B + bl) = (ah * bh + x div B + y div B + c div B) * (B * B) + (c mod B * B + z mod B)" .
  have "c mod B * B + z mod B < B * B"
  proof -
    have "c mod B * B + z mod B < c mod B * B + B"
      using B by simp
    also have "\<dots> = (c mod B + 1) * B"
      by (simp add: algebra_simps)
    also have "\<dots> \<le> B * B"
      using B by (intro mult_right_mono) (simp_all add: Suc_leI)
    finally show ?thesis .
  qed
  then show ?thesis
    unfolding eq x_def [symmetric] y_def [symmetric] using B by (simp add: div_mult_self3)
qed

lemma unat_lo32: "unat (ucast (ucast x :: u32) :: u64) = unat x mod 2 ^ 32" for x :: u64
  by (simp add: unat_ucast_up) (simp add: unsigned_ucast_eq take_bit_eq_mod)

lemma unat_mult_lt: "unat x * unat y < 2 ^ 64 \<Longrightarrow> unat (x * y) = unat x * unat y" for x y :: u64
  by (simp add: unat_word_ariths)

lemma unat_add_lt: "unat x + unat y < 2 ^ 64 \<Longrightarrow> unat (x + y) = unat x + unat y" for x y :: u64
  by (simp add: unat_word_ariths)

lemma unat_mulhu64: "unat (mulhu64 a b) = unat a * unat b div 2 ^ 64"
proof -
  let ?B = "2 ^ 32 :: nat"
  define al where "al = unat a mod ?B"
  define ah where "ah = unat a div ?B"
  define bl where "bl = unat b mod ?B"
  define bh where "bh = unat b div ?B"
  have bounds: "al < ?B" "bl < ?B" "ah < ?B" "bh < ?B"
    using unat_bound [of a] unat_bound [of b] by (simp_all add: al_def bl_def ah_def bh_def less_mult_imp_div_less)
  have small: "x * y \<le> (?B - 1) * (?B - 1)" if "x < ?B" "y < ?B" for x y
    using that by (intro mult_mono) simp_all
  note [simp] = unat_lo32 unat_shr
  have p: "unat (ucast (ucast a :: u32) * ucast (ucast b :: u32) :: u64) = al * bl"
    "unat (ucast (ucast a :: u32) * shr b 32 :: u64) = al * bh"
    "unat (shr a 32 * ucast (ucast b :: u32) :: u64) = ah * bl"
    "unat (shr a 32 * shr b 32) = ah * bh"
    using small bounds by (simp_all add: unat_mult_lt al_def bl_def ah_def bh_def le_less_trans [OF small])
  define lo where "lo = (ucast (ucast a :: u32) * ucast (ucast b :: u32) :: u64)"
  define x where "x = (ucast (ucast a :: u32) * shr b 32 :: u64)"
  define y where "y = (shr a 32 * ucast (ucast b :: u32) :: u64)"
  define hh where "hh = shr a 32 * shr b 32"
  note p = p [folded lo_def x_def y_def hh_def]
  define c where "c = al * bl div ?B + al * bh mod ?B + ah * bl mod ?B"
  have "al * bl div ?B < ?B"
    using small [OF bounds(1,2)] by (simp add: less_mult_imp_div_less)
  then have cross: "unat (shr lo 32 + ucast (ucast x :: u32) + ucast (ucast y :: u32)) = c"
    using mod_less_divisor [of ?B "al * bh"] mod_less_divisor [of ?B "ah * bl"]
    by (simp add: unat_add_lt p c_def del: mod_less_divisor)
  have total: "ah * bh + al * bh div ?B + ah * bl div ?B + c div ?B = unat a * unat b div 2 ^ 64"
    using split_product [of ?B al bl ah bh] bounds
    by (simp add: c_def al_def ah_def bl_def bh_def)
  have "unat a * unat b div 2 ^ 64 < 2 ^ 64"
  proof -
    have "unat a * unat b < 2 ^ 64 * 2 ^ 64"
      using unat_bound [of a] unat_bound [of b] by (intro mult_strict_mono) simp_all
    then show ?thesis
      by (simp add: less_mult_imp_div_less)
  qed
  then show ?thesis
    unfolding mulhu64_def Let_def lo_def [symmetric] x_def [symmetric] y_def [symmetric] hh_def [symmetric]
    unfolding total [symmetric] by (simp add: unat_add_lt p cross)
qed

lemma uint_mulhu64: "uint (mulhu64 a b) = uint a * uint b div 2 ^ 64"
  by (metis unat_mulhu64 of_nat_mult of_nat_numeral of_nat_power uint_nat zdiv_int)

lemma mulhu64_int: "mulhu64 a b = word_of_int (uint a * uint b div 2 ^ 64)"
  by (metis uint_mulhu64 word_of_int_uint)

lemma uint_sint_wrap: "uint a = sint a + (if sint a < 0 then 2 ^ LENGTH('a) else 0)" for a :: "'a::len word"
proof -
  have lt: "uint a < 2 ^ LENGTH('a)"
    by simp
  have "sint a = uint a - 2 ^ LENGTH('a) * of_bool (bit (uint a) (LENGTH('a) - 1))"
    by (simp add: sint_uint signed_take_bit_eq_take_bit_minus take_bit_int_eq_self)
  then show ?thesis
    using lt by (cases "bit (uint a) (LENGTH('a) - 1)") simp_all
qed

lemma word_multiple: "of_int (2 ^ 64 * k) = (0::u64)"
  by (rule word_of_int_eq_0_iff [THEN iffD2]) simp

lemma mulh_words:
  "muldiv64_value 1 a b = word_of_int (sint a * sint b div 2 ^ 64)"
  "muldiv64_value 2 a b = word_of_int (sint a * uint b div 2 ^ 64)"
proof -
  define A where "A = (if sint a < 0 then 1 else 0 :: int)"
  define B where "B = (if sint b < 0 then 1 else 0 :: int)"
  have ua: "uint a = sint a + 2 ^ 64 * A" and ub: "uint b = sint b + 2 ^ 64 * B"
    using uint_sint_wrap [of a] uint_sint_wrap [of b] by (simp_all add: A_def B_def)
  have a: "a = of_int (sint a)" and b: "b = of_int (sint b)"
    by simp_all
  have cA: "(if sint a < 0 then b else 0) = of_int (A * sint b)" and cB: "(if sint b < 0 then a else 0) = of_int (B * sint a)"
    by (simp_all add: A_def B_def)
  have "uint a * uint b div 2 ^ 64 = (sint a * sint b + 2 ^ 64 * (A * sint b + B * sint a + 2 ^ 64 * (A * B))) div 2 ^ 64"
    by (simp add: ua ub algebra_simps)
  also have "\<dots> = sint a * sint b div 2 ^ 64 + (A * sint b + B * sint a + 2 ^ 64 * (A * B))"
    by (subst div_mult_self2) simp_all
  finally have "mulhu64 a b = of_int (sint a * sint b div 2 ^ 64) + of_int (A * sint b) + of_int (B * sint a)"
    unfolding mulhu64_int by (simp only: of_int_add word_multiple) simp
  then show "muldiv64_value 1 a b = word_of_int (sint a * sint b div 2 ^ 64)"
    unfolding muldiv64_value_def cA cB by simp
  have "uint a * uint b div 2 ^ 64 = (sint a * uint b + 2 ^ 64 * (A * uint b)) div 2 ^ 64"
    by (simp add: ua algebra_simps)
  also have "\<dots> = sint a * uint b div 2 ^ 64 + A * uint b"
    by (subst div_mult_self2) simp_all
  finally have "mulhu64 a b = of_int (sint a * uint b div 2 ^ 64) + of_int (A * uint b)"
    unfolding mulhu64_int by (simp only: of_int_add)
  moreover have "(if sint a < 0 then b else 0) = of_int (A * uint b)"
    by (simp add: A_def)
  ultimately show "muldiv64_value 2 a b = word_of_int (sint a * uint b div 2 ^ 64)"
    unfolding muldiv64_value_def by simp
qed

lemma cdiv_crem: "cdiv a b * b + crem a b = a"
proof -
  have "cdiv a b * of_int (sint b) + crem a b = of_int (sint a sdiv sint b * sint b + sint a smod sint b)"
    by (simp only: cdiv_def crem_def of_int_add of_int_mult)
  then show ?thesis
    by (simp add: sdiv_mult_smod_eq)
qed

lemma smod_bound: "l \<noteq> 0 \<Longrightarrow> \<bar>k smod l\<bar> < \<bar>l\<bar>" for k l :: int
  using abs_mod_less [of "\<bar>l\<bar>" "\<bar>k\<bar>"] by (simp add: signed_modulo_int_def abs_mult)

lemma smod_sign: "l \<noteq> 0 \<Longrightarrow> 0 \<le> k \<Longrightarrow> 0 \<le> k smod l" "l \<noteq> 0 \<Longrightarrow> k \<le> 0 \<Longrightarrow> k smod l \<le> 0" for k l :: int
  using pos_mod_sign [of "\<bar>l\<bar>" "\<bar>k\<bar>"] by (auto simp: signed_modulo_int_def sgn_if)

lemma sint_crem_eq: "b \<noteq> 0 \<Longrightarrow> sint (crem a b) = sint a smod sint b" for a b :: "'a::len word"
proof -
  assume "b \<noteq> 0"
  then have "\<bar>sint a smod sint b\<bar> < \<bar>sint b\<bar>"
    by (intro smod_bound) (simp add: signed_eq_0_iff)
  moreover have "- (2 ^ (LENGTH('a) - 1)) \<le> sint b" "sint b < 2 ^ (LENGTH('a) - 1)"
    using sint_ge [of b] sint_lt [of b] by simp_all
  ultimately have "- (2 ^ (LENGTH('a) - 1)) \<le> sint a smod sint b" "sint a smod sint b < 2 ^ (LENGTH('a) - 1)"
    by linarith+
  then show "sint (crem a b) = sint a smod sint b"
    by (simp add: crem_def signed_of_int signed_take_bit_int_eq_self)
qed

lemma sint_crem:
  fixes a b :: "'a::len word"
  assumes "b \<noteq> 0"
  shows "\<bar>sint (crem a b)\<bar> < \<bar>sint b\<bar>" "0 \<le> sint a \<Longrightarrow> 0 \<le> sint (crem a b)" "sint a \<le> 0 \<Longrightarrow> sint (crem a b) \<le> 0"
proof -
  have "sint b \<noteq> 0"
    using assms by (simp add: signed_eq_0_iff)
  then show "\<bar>sint (crem a b)\<bar> < \<bar>sint b\<bar>" "0 \<le> sint a \<Longrightarrow> 0 \<le> sint (crem a b)"
    "sint a \<le> 0 \<Longrightarrow> sint (crem a b) \<le> 0"
    by (simp_all add: sint_crem_eq assms smod_bound smod_sign)
qed

subsection \<open>Bit scans and rotates\<close>

lemma shr_bit: "shr v i AND 1 = (if bit v i then 1 else 0)" for v :: "'a::len word"
  using and_pow2_eq [of "shr v i" 0] by (simp add: bits)

lemma bm_clz_spec:
  "bm_clz v n \<le> n \<and> (\<forall>i. n - bm_clz v n \<le> i \<and> i < n \<longrightarrow> \<not> bit v i) \<and>
   (bm_clz v n < n \<longrightarrow> bit v (n - 1 - bm_clz v n))"
proof (induction n)
  case (Suc n)
  then show ?case
    by (auto simp: shr_bit less_Suc_eq)
qed simp

lemma bm_ctz_from_spec:
  "bm_ctz_from v k n \<le> n \<and> (\<forall>i<bm_ctz_from v k n. \<not> bit v (k + i)) \<and>
   (bm_ctz_from v k n < n \<longrightarrow> bit v (k + bm_ctz_from v k n))"
proof (induction v k n rule: bm_ctz_from.induct)
  case (2 v k n)
  then show ?case
    by (auto simp: shr_bit less_Suc_eq_0_disj)
qed simp

lemma bm_cpop_spec: "bm_cpop v n = card {i. i < n \<and> bit v i}"
proof (induction n)
  case (Suc n)
  have "{i. i < Suc n \<and> bit v i} = (if bit v n then insert n {i. i < n \<and> bit v i} else {i. i < n \<and> bit v i})"
    by (auto simp: less_Suc_eq)
  then show ?case
    using Suc by (simp add: shr_bit)
qed simp

lemma bit_bm_mask: "bit (bm_mask n) i \<longleftrightarrow> i < n \<and> i < 64"
proof -
  have "shl 1 n - 1 = (mask n :: u64)"
    by (simp add: shl_def mask_eq_exp_minus_1)
  then show ?thesis
    by (auto simp: bm_mask_def bit_mask_iff bit_not_iff)
qed

lemma bit_bm_ror:
  assumes "0 < n" "n \<le> 64" "i < n"
  shows "bit (bm_ror v s n) i \<longleftrightarrow> bit v ((i + s) mod n)"
proof (cases "s mod n = 0")
  case True
  then have "(i + s) mod n = i"
    using assms by (metis add.right_neutral mod_add_right_eq mod_less)
  then show ?thesis
    using True assms by (simp add: bm_ror_def Let_def bit_and_iff bit_bm_mask)
next
  case False
  define r where "r = s mod n"
  have r: "0 < r" "r < n"
    using False assms by (simp_all add: r_def)
  have "(i + s) mod n = (i + r) mod n"
    by (simp add: r_def mod_simps)
  also have "\<dots> = (if i + r < n then i + r else i + r - n)"
    using assms r by (simp add: mod_if)
  finally have idx: "(i + s) mod n = (if i + r < n then i + r else i + r - n)" .
  show ?thesis
    using False assms r unfolding bm_ror_def Let_def r_def [symmetric]
    by (auto simp: idx bits bit_bm_mask add.commute)
qed

lemma bit_bm_rol:
  assumes "0 < n" "n \<le> 64" "i < n"
  shows "bit (bm_rol v s n) i \<longleftrightarrow> bit v ((i + (n - s mod n)) mod n)"
proof (cases "s mod n = 0")
  case True
  then show ?thesis
    using assms by (simp add: bm_rol_def Let_def bit_and_iff bit_bm_mask)
next
  case False
  define r where "r = s mod n"
  have r: "0 < r" "r < n"
    using False assms by (simp_all add: r_def)
  have idx: "(i + (n - r)) mod n = (if i < r then i + (n - r) else i - r)"
    using assms r by (auto simp: mod_if)
  show ?thesis
    using False assms r unfolding bm_rol_def Let_def r_def [symmetric] idx
    by (auto simp: bits bit_bm_mask add.commute)
qed

lemma bm_ror_above: "0 < n \<Longrightarrow> n \<le> i \<Longrightarrow> \<not> bit (bm_ror v s n) i"
  by (auto simp: bm_ror_def Let_def bit_and_iff bit_bm_mask)

lemma bm_ror_rol:
  assumes "0 < n" "n \<le> 64"
  shows "bm_ror (bm_rol v s n) s n = v AND bm_mask n"
proof (rule bit_word_eqI)
  fix i :: nat assume "i < LENGTH(64)"
  show "bit (bm_ror (bm_rol v s n) s n) i = bit (v AND bm_mask n) i"
  proof (cases "i < n")
    case True
    have "((i + s) mod n + (n - s mod n)) mod n = (i + s mod n + (n - s mod n)) mod n"
      by (metis mod_add_left_eq mod_add_right_eq)
    also have "\<dots> = i"
      using assms True mod_less_divisor [of n s] by simp
    finally show ?thesis
      using assms True by (simp add: bit_bm_ror bit_bm_rol bit_and_iff bit_bm_mask)
  next
    case False
    then show ?thesis
      using assms bm_ror_above by (simp add: bit_and_iff bit_bm_mask)
  qed
qed

lemma bm_rev8_rev8: "bm_rev8 (bm_rev8 v 64) 64 = v" "bm_rev8 (bm_rev8 v 32) 32 = v AND 0xffffffff"
  by (simp_all add: bm_rev8_def upt_rec_numeral upt_rec) (simp_all add: bit_blast bits)

lemma bm_clz_least: "bm_clz v n = (LEAST k. k = n \<or> bit v (n - 1 - k))"
proof (rule Least_equality [symmetric])
  show "bm_clz v n = n \<or> bit v (n - 1 - bm_clz v n)"
    using bm_clz_spec [of v n] by (metis le_neq_implies_less)
next
  fix k assume k: "k = n \<or> bit v (n - 1 - k)"
  show "bm_clz v n \<le> k"
  proof (rule ccontr)
    assume "\<not> bm_clz v n \<le> k"
    then have "k < n" "n - bm_clz v n \<le> n - 1 - k" "n - 1 - k < n"
      using bm_clz_spec [of v n] by linarith+
    then show False
      using bm_clz_spec [of v n] k by blast
  qed
qed

lemma bm_ctz_least: "bm_ctz v n = (LEAST k. k = n \<or> bit v k)"
proof (rule Least_equality [symmetric])
  show "bm_ctz v n = n \<or> bit v (bm_ctz v n)"
    using bm_ctz_from_spec [of v 0 n] unfolding bm_ctz_def by (metis add_0 le_neq_implies_less)
next
  fix k assume "k = n \<or> bit v k"
  then show "bm_ctz v n \<le> k"
    using bm_ctz_from_spec [of v 0 n] unfolding bm_ctz_def by (metis add_0 not_le)
qed

subsection \<open>Carry-less multiplication\<close>

lemma clmul_step_bit:
  fixes a b :: u64
  assumes "i < 64" "k < 128"
  shows "wide_bit (clmul_step a b i r) k = (wide_bit r k \<noteq> (bit b i \<and> i \<le> k \<and> bit a (k - i)))"
proof -
  obtain rh rl where r: "r = (rh, rl)"
    by fastforce
  show ?thesis
    using assms
    by (cases "k < 64") (auto simp: clmul_step_def r wide_bit_def shr_bit bits)
qed

lemma clmul_fold:
  fixes a b :: u64
  assumes "m \<le> 64" "k < 128"
  shows "wide_bit (fold (clmul_step a b) [0..<m] (0, 0)) k = odd (card {j. j < m \<and> j \<le> k \<and> bit b j \<and> bit a (k - j)})"
  using assms(1)
proof (induction m)
  case 0
  then show ?case by (simp add: wide_bit_def)
next
  case (Suc m)
  have "{j. j < Suc m \<and> j \<le> k \<and> bit b j \<and> bit a (k - j)} =
      (if bit b m \<and> m \<le> k \<and> bit a (k - m) then insert m {j. j < m \<and> j \<le> k \<and> bit b j \<and> bit a (k - j)}
       else {j. j < m \<and> j \<le> k \<and> bit b j \<and> bit a (k - j)})"
    by (auto simp: less_Suc_eq)
  then show ?case
    using Suc clmul_step_bit [of m k a b] assms(2) by simp
qed

lemma bm_clmul128_bit:
  assumes "n \<le> 64" "k < 128"
  shows "wide_bit (bm_clmul128 a b n) k = clmul_bit a b n k"
proof -
  have "{j. j < n \<and> j \<le> k \<and> bit (b AND bm_mask n) j \<and> bit (a AND bm_mask n) (k - j)} =
        {j. j < n \<and> j \<le> k \<and> k - j < n \<and> bit b j \<and> bit a (k - j)}"
    using assms by (auto simp: bit_and_iff bit_bm_mask)
  then show ?thesis
    using clmul_fold [of n k "a AND bm_mask n" "b AND bm_mask n"] assms
    by (simp add: bm_clmul128_def clmul_step_def Let_def clmul_bit_def min_def)
qed

lemma bm_bits128_bit:
  assumes "i < n" "n \<le> 64" "p \<le> 64"
  shows "bit (bm_bits128 (fst r) (snd r) p n) i = wide_bit r (p + i)"
  using assms by (auto simp: bm_bits128_def wide_bit_def bits bit_bm_mask add.commute)

subsection \<open>RV32 on the 64-bit datapath\<close>

lemma ucast_word_of_int: "(ucast (word_of_int k :: u64) :: u32) = word_of_int k"
  by (simp add: unsigned_of_int word_of_int_eq_iff)

lemma ucast_arith:
  "ucast (a + b) = (ucast a + ucast b :: u32)" "ucast (a - b) = (ucast a - ucast b :: u32)" for a b :: u64
proof -
  have "ucast (of_int (uint a) + of_int (uint b) :: u64) = (of_int (uint a) + of_int (uint b) :: u32)"
    "ucast (of_int (uint a) - of_int (uint b) :: u64) = (of_int (uint a) - of_int (uint b) :: u32)"
    by (simp_all only: of_int_add [symmetric] of_int_diff [symmetric] ucast_word_of_int)
  then show "ucast (a + b) = (ucast a + ucast b :: u32)" "ucast (a - b) = (ucast a - ucast b :: u32)"
    by simp_all
qed

lemma ucast_scast: "(ucast (scast x :: u64) :: u32) = x" for x :: u32
  by (rule bit_word_eqI) (simp add: bits)

lemma sint_scast: "sint (scast x :: u64) = sint x" for x :: u32
proof -
  have "- (2 ^ 31) \<le> sint x" "sint x < 2 ^ 31"
    using sint_lt [of x] sint_ge [of x] by simp_all
  then have "signed_take_bit 63 (sint x) = sint x"
    by (intro signed_take_bit_int_eq_self) simp_all
  then show ?thesis
    unfolding scast_eq signed_of_int by simp
qed

lemma scast_less: "(scast x :: u64) < scast y \<longleftrightarrow> x < y" for x y :: u32
proof -
  have "uint (scast x :: u64) < uint (scast y :: u64) \<longleftrightarrow> uint x < uint y"
    using sint_lt [of x] sint_ge [of x] sint_lt [of y] sint_ge [of y]
    by (simp add: uint_sint_wrap sint_scast)
  then show ?thesis
    by (simp add: word_less_def)
qed

lemma ucast_bitwise:
  "ucast (a AND b) = (ucast a AND ucast b :: u32)" "ucast (a OR b) = (ucast a OR ucast b :: u32)"
  "ucast (a XOR b) = (ucast a XOR ucast b :: u32)" "ucast (push_bit n a) = (push_bit n (ucast a) :: u32)"
  for a b :: u64
  by (rule bit_word_eqI, auto simp: bits bit_simps)+

lemma ucast_ucast: "(ucast (ucast x :: u64) :: u32) = x" for x :: u32
  by (rule bit_word_eqI) (simp add: bits)

lemma shamt32: "unat (y AND 0x1f) = unat y mod 32" for y :: u32
  using unat_and_mask [of y 5] by (simp add: mask_eq_exp_minus_1)

lemma op_value_rv32:
  assumes "xlen c = 32" "reg_read c (rs1 inst) = scast x" "reg_read c (rs2 inst) = scast y"
  shows "ucast (op_value c inst) = rv32_op (funct7 inst) (funct3 inst) x y"
  unfolding op_value_def rv32_op_def Let_def assms
  by (simp add: shamt32 ucast_arith ucast_scast sint_scast scast_less of_flag_def word_sless_alt shl_def shr_def sar_def
      ucast_bitwise ucast_ucast)

lemma scast_eq_iff: "(scast x :: u64) = scast y \<longleftrightarrow> x = y" for x y :: u32
  by (metis ucast_scast)

lemma branch_rv32:
  assumes "reg_read c (rs1 inst) = scast x" "reg_read c (rs2 inst) = scast y"
  shows "exec_branch c inst ilen =
    (if rv32_taken (funct3 inst) x y then pc c + scast (imm_b inst) else pc c + ucast ilen)"
  unfolding exec_branch_def rv32_taken_def Let_def assms
  by (simp add: sint_scast scast_less scast_eq_iff word_sless_alt word_sle_eq linorder_not_less [symmetric])

lemma abs_prod: "\<bar>x\<bar> \<le> A \<Longrightarrow> \<bar>y\<bar> \<le> B \<Longrightarrow> \<bar>x * y\<bar> \<le> A * B" for x y A B :: int
  unfolding abs_mult by (rule mult_mono) simp_all

lemma of_int_sint_word: "of_int (sint w) = w" for w :: "'a::len word"
  by simp

lemma sint_of_prod64:
  assumes "\<bar>p\<bar> < 2 ^ 127"
  shows "sint (word_of_int (p div 2 ^ 64) :: u64) = p div 2 ^ 64"
proof -
  have "- (2 ^ 63) \<le> p div 2 ^ 64" "p div 2 ^ 64 < 2 ^ 63"
    using assms by (simp_all add: div_less_iff_less_mult less_eq_div_iff_mult_less_eq)
  then show ?thesis
    by (simp add: signed_of_int signed_take_bit_int_eq_self)
qed

lemma sint_of_prod32:
  assumes "\<bar>p\<bar> < 2 ^ 63"
  shows "sint (ucast (sar (word_of_int p :: u64) 32) :: u32) = p div 2 ^ 32"
proof -
  have "sint (word_of_int p :: u64) = p"
    using assms by (simp add: signed_of_int signed_take_bit_int_eq_self)
  then have "sar (word_of_int p :: u64) 32 = word_of_int (p div 2 ^ 32)"
    using sint_signed_drop_bit_eq [of 32 "word_of_int p :: u64"] of_int_sint_word [of "sar (word_of_int p :: u64) 32"]
    unfolding sar_def drop_bit_eq_div by metis
  moreover have "- (2 ^ 31) \<le> p div 2 ^ 32" "p div 2 ^ 32 < 2 ^ 31"
    using assms by (simp_all add: div_less_iff_less_mult less_eq_div_iff_mult_less_eq)
  ultimately show ?thesis
    by (simp add: ucast_word_of_int signed_of_int signed_take_bit_int_eq_self)
qed

lemma word_bounds32: "\<bar>sint x\<bar> \<le> 2 ^ 31" "\<bar>uint x\<bar> \<le> 2 ^ 32 - 1" for x :: u32
  using sint_lt [of x] sint_ge [of x] uint_lt2p [of x] by (simp_all add: abs_le_iff)

lemma word_bounds64: "\<bar>sint x\<bar> \<le> 2 ^ 63" "\<bar>uint x\<bar> \<le> 2 ^ 64 - 1" for x :: u64
  using sint_lt [of x] sint_ge [of x] uint_lt2p [of x] by (simp_all add: abs_le_iff)

lemma prod_bounds64: "\<bar>sint a * sint b\<bar> < 2 ^ 127" "\<bar>sint a * uint b\<bar> < 2 ^ 127" for a b :: u64
  using abs_prod [OF word_bounds64(1) [of a] word_bounds64(1) [of b]]
    abs_prod [OF word_bounds64(1) [of a] word_bounds64(2) [of b]] by simp_all

lemma prod_bounds32: "\<bar>sint a * sint b\<bar> < 2 ^ 63" "\<bar>sint a * uint b\<bar> < 2 ^ 63" for a b :: u32
  using abs_prod [OF word_bounds32(1) [of a] word_bounds32(1) [of b]]
    abs_prod [OF word_bounds32(1) [of a] word_bounds32(2) [of b]] by simp_all

lemma muldiv64_value_mulhu: "muldiv64_value 3 a b = mulhu64 a b"
  by (simp add: muldiv64_value_def)

lemma mulh64_int:
  "sint (muldiv64_value 1 a b) = sint a * sint b div 2 ^ 64"
  "sint (muldiv64_value 2 a b) = sint a * uint b div 2 ^ 64"
  "uint (muldiv64_value 3 a b) = uint a * uint b div 2 ^ 64"
  unfolding mulh_words muldiv64_value_mulhu
  by (rule sint_of_prod64 [OF prod_bounds64(1)], rule sint_of_prod64 [OF prod_bounds64(2)], rule uint_mulhu64)

lemma mulh32_int:
  "sint (muldiv32_value 1 a b) = sint a * sint b div 2 ^ 32"
  "sint (muldiv32_value 2 a b) = sint a * uint b div 2 ^ 32"
  "uint (muldiv32_value 3 a b) = uint a * uint b div 2 ^ 32"
proof -
  have e: "(scast a :: u64) * scast b = word_of_int (sint a * sint b)"
    "(scast a :: u64) * ucast b = word_of_int (sint a * uint b)"
    by (simp_all only: scast_eq ucast_eq of_int_mult)
  have "sint (ucast (sar ((scast a :: u64) * scast b) 32) :: u32) = sint a * sint b div 2 ^ 32"
    "sint (ucast (sar ((scast a :: u64) * ucast b) 32) :: u32) = sint a * uint b div 2 ^ 32"
    unfolding e by (intro sint_of_prod32 prod_bounds32)+
  then show "sint (muldiv32_value 1 a b) = sint a * sint b div 2 ^ 32"
    "sint (muldiv32_value 2 a b) = sint a * uint b div 2 ^ 32"
    by (simp_all add: muldiv32_value_def)
  show "uint (muldiv32_value 3 a b) = uint a * uint b div 2 ^ 32"
  proof -
    have "unat ((ucast a :: u64) * ucast b) = unat a * unat b"
      using unat_bound [of a] unat_bound [of b] mult_strict_mono [of "unat a" "2 ^ 32" "unat b" "2 ^ 32"]
      by (subst unat_mult_lt) (simp_all add: unat_ucast_up)
    then have "unat (shr ((ucast a :: u64) * ucast b) 32) = unat a * unat b div 2 ^ 32"
      by (simp add: unat_shr)
    moreover have "unat a * unat b div 2 ^ 32 < 2 ^ 32"
      using unat_bound [of a] unat_bound [of b] mult_strict_mono [of "unat a" "2 ^ 32" "unat b" "2 ^ 32"]
      by (simp add: div_less_iff_less_mult)
    ultimately have "unat (muldiv32_value 3 a b) = unat a * unat b div 2 ^ 32"
      by (simp add: muldiv32_value_def unsigned_ucast_eq take_bit_nat_eq_self)
    then show ?thesis
      by (metis of_nat_mult of_nat_numeral of_nat_power uint_nat zdiv_int)
  qed
qed

subsection \<open>Properties\<close>

text \<open>
  C27: the M extension's products. MULH, MULHSU and MULHU write exactly the upper half of the signed,
  mixed and unsigned double-width product, on RV64 (from 32-bit partial products and sign corrections,
  \<open>mulhu64\<close>) and on RV32 (from one 64-bit product).
\<close>

theorem muldiv_products:
  "muldiv64_value 0 a b = word_of_int (sint a * sint b) \<and>
   sint (muldiv64_value 1 a b) = sint a * sint b div 2 ^ 64 \<and>
   sint (muldiv64_value 2 a b) = sint a * uint b div 2 ^ 64 \<and>
   uint (muldiv64_value 3 a b) = uint a * uint b div 2 ^ 64 \<and>
   sint (muldiv32_value 1 x y) = sint x * sint y div 2 ^ 32 \<and>
   sint (muldiv32_value 2 x y) = sint x * uint y div 2 ^ 32 \<and>
   uint (muldiv32_value 3 x y) = uint x * uint y div 2 ^ 32"
  by (simp only: mulh64_int mulh32_int) (simp add: muldiv64_value_def)





text \<open>
  C37: the carry-less multiplications of Zbc. For a register width \<open>n\<close> of 32 or 64, bit \<open>i\<close> of
  CLMUL, CLMULR and CLMULH is bit \<open>i\<close>, \<open>n - 1 + i\<close> and \<open>n + i\<close> of the polynomial product of the
  operands over GF(2), which the code accumulates in two 64-bit halves.
\<close>

theorem bitmanip_clmul:
  assumes "n = 32 \<or> n = 64" "i < n" "funct7 inst = 0x05"
  shows "(funct3 inst = 1 \<longrightarrow> (\<exists>r. bitmanip_op n inst a b = Some r \<and> bit r i = clmul_bit a b n i)) \<and>
    (funct3 inst = 2 \<longrightarrow> (\<exists>r. bitmanip_op n inst a b = Some r \<and> bit r i = clmul_bit a b n (n - 1 + i))) \<and>
    (funct3 inst = 3 \<longrightarrow> (\<exists>r. bitmanip_op n inst a b = Some r \<and> bit r i = clmul_bit a b n (n + i)))"
proof -
  have n: "n \<le> 64" "n - 1 + i < 128" "n + i < 128" "i < 128"
    using assms by auto
  show ?thesis
    using assms n by (auto simp: bitmanip_op_def Let_def bm_bits128_bit bm_clmul128_bit)
qed

theorem bitmanip_clmul_witness:
  "\<exists>r. bitmanip_op 32 0x0a001033 7 5 = Some r \<and> bit r 3 = clmul_bit 7 5 32 3"
  using bitmanip_clmul [of 32 3 "0x0a001033" 7 5] by (simp add: fields evals)



end
