(* ===== verification/Cache_Model.thy ===== *)
theory Cache_Model
  imports Cpu "HOL-Library.Multiset"
begin

text \<open>
  The set-associative LRU cache model of \<open>src/src/cache.c\<close>: the geometry checks of \<open>cache_init\<close>,
  the access that tallies hits and misses, and the proof that each set behaves as a list of tags
  in order of recency. \<open>cache_report\<close> only prints; \<open>cache_free\<close> only releases the lines.
\<close>

subsection \<open>Geometry\<close>

definition is_pow2 :: "u32 \<Rightarrow> bool" where
  "is_pow2 x = (x \<noteq> 0 \<and> x AND (x - 1) = 0)"

text \<open>The loop of \<open>log2u\<close> counts a shift up while it is below the argument; \<open>1u << n\<close> is defined for \<open>n < 32\<close>.\<close>

function log2u_from :: "nat \<Rightarrow> u32 \<Rightarrow> nat" where
  "log2u_from n x = (if n < 32 \<and> shl 1 n < x then log2u_from (Suc n) x else n)"
  by pat_completeness auto
termination by (relation "measure (\<lambda>(n, x). 32 - n)") auto

declare log2u_from.simps [simp del]

definition log2u :: "u32 \<Rightarrow> nat" where
  "log2u x = log2u_from 0 x"

text \<open>
  The ways \<open>cache_init\<close> can end without a cache: a refused geometry (three messages), a failed
  allocation, and the remainder by \<open>assoc * block_size\<close> when that product wraps to zero, which C
  leaves undefined.
\<close>

datatype CacheError = BAD_BLOCK | BAD_ASSOC | BAD_SIZE | BAD_SETS | NO_LINES | DIV_BY_ZERO

definition cache_init :: "bool \<Rightarrow> u32 \<Rightarrow> u32 \<Rightarrow> u32 \<Rightarrow> CacheError + Cache" where
  "cache_init alloc_ok size_bytes assoc block_size =
     (if \<not> is_pow2 block_size \<or> block_size < 4 then Inl BAD_BLOCK
      else if \<not> is_pow2 assoc then Inl BAD_ASSOC
      else let per_set = assoc * block_size
      in if size_bytes = 0 then Inl BAD_SIZE
         else if per_set = 0 then Inl DIV_BY_ZERO
         else if size_bytes mod per_set \<noteq> 0 then Inl BAD_SIZE
         else let num_sets = size_bytes div per_set
         in if \<not> is_pow2 num_sets then Inl BAD_SETS
            else if \<not> alloc_ok then Inl NO_LINES
            else Inr \<lparr>ch_block_size = block_size, ch_num_sets = num_sets, ch_assoc = assoc,
                   ch_offset_bits = log2u block_size, ch_index_bits = log2u num_sets,
                   ch_lines = (\<lambda>_. \<lparr>l_valid = False, l_tag = 0, l_used = 0\<rparr>),
                   ch_tick = 0, ch_loads = 0, ch_stores = 0, ch_hits = 0, ch_misses = 0\<rparr>)"

subsection \<open>Access\<close>

definition cache_index :: "Cache \<Rightarrow> u32 \<Rightarrow> u32" where
  "cache_index c addr = shr addr (ch_offset_bits c) AND (ch_num_sets c - 1)"

definition cache_tag :: "Cache \<Rightarrow> u32 \<Rightarrow> u32" where
  "cache_tag c addr = shr addr (ch_offset_bits c + ch_index_bits c)"

definition cache_base :: "Cache \<Rightarrow> u32 \<Rightarrow> nat" where
  "cache_base c i = unat i * unat (ch_assoc c)"

text \<open>The two scans over the ways of a set.\<close>

fun hit_way :: "(nat \<Rightarrow> CacheLine) \<Rightarrow> nat \<Rightarrow> u32 \<Rightarrow> nat list \<Rightarrow> nat option" where
  "hit_way ls base tag [] = None"
| "hit_way ls base tag (w # ws) =
     (if l_valid (ls (base + w)) \<and> l_tag (ls (base + w)) = tag then Some w else hit_way ls base tag ws)"

fun victim_way :: "(nat \<Rightarrow> CacheLine) \<Rightarrow> nat \<Rightarrow> nat \<Rightarrow> nat list \<Rightarrow> nat" where
  "victim_way ls base v [] = v"
| "victim_way ls base v (w # ws) =
     (if \<not> l_valid (ls (base + w)) then w
      else victim_way ls base (if l_used (ls (base + w)) < l_used (ls (base + v)) then w else v) ws)"

definition cache_access :: "Cache \<Rightarrow> u32 \<Rightarrow> bool \<Rightarrow> Cache" where
  "cache_access c addr is_store =
     (let c = (if is_store then c\<lparr>ch_stores := ch_stores c + 1\<rparr> else c\<lparr>ch_loads := ch_loads c + 1\<rparr>);
          c = c\<lparr>ch_tick := ch_tick c + 1\<rparr>;
          tag = cache_tag c addr;
          base = cache_base c (cache_index c addr);
          ways = [0..<unat (ch_assoc c)];
          ls = ch_lines c
      in case hit_way ls base tag ways of
           Some w \<Rightarrow> c\<lparr>ch_lines := ls(base + w := (ls (base + w))\<lparr>l_used := ch_tick c\<rparr>),
                        ch_hits := ch_hits c + 1\<rparr>
         | None \<Rightarrow>
             (let v = victim_way ls base 0 ways
              in c\<lparr>ch_misses := ch_misses c + 1,
                   ch_lines := ls(base + v := \<lparr>l_valid = True, l_tag = tag, l_used = ch_tick c\<rparr>)\<rparr>))"

subsection \<open>The LRU specification\<close>

text \<open>A set as the list of its tags, most recently used first; an access moves its tag to the front.\<close>

definition set_lines :: "Cache \<Rightarrow> u32 \<Rightarrow> CacheLine list" where
  "set_lines c i = map (\<lambda>w. ch_lines c (cache_base c i + w)) [0..<unat (ch_assoc c)]"

definition recency :: "CacheLine list \<Rightarrow> u32 list" where
  "recency xs = map l_tag (rev (sort_key l_used (filter l_valid xs)))"

definition lru_view :: "Cache \<Rightarrow> u32 \<Rightarrow> u32 list" where
  "lru_view c i = recency (set_lines c i)"

definition lru_access :: "nat \<Rightarrow> u32 \<Rightarrow> u32 list \<Rightarrow> u32 list" where
  "lru_access n t L = t # take (n - 1) (filter (\<lambda>x. x \<noteq> t) L)"

text \<open>The well-formed caches: ticks of valid lines of a set are distinct and not in the future, tags are distinct.\<close>

definition set_ok :: "u64 \<Rightarrow> CacheLine list \<Rightarrow> bool" where
  "set_ok tick xs = (let V = filter l_valid xs
     in distinct (map l_used V) \<and> distinct (map l_tag V) \<and> (\<forall>l\<in>set V. l_used l \<le> tick))"

definition cache_inv :: "Cache \<Rightarrow> bool" where
  "cache_inv c = (ch_assoc c \<noteq> 0 \<and> ch_num_sets c \<noteq> 0 \<and> (\<forall>i<ch_num_sets c. set_ok (ch_tick c) (set_lines c i)) \<and>
     ch_hits c + ch_misses c = ch_loads c + ch_stores c)"

text \<open>Way and new line of an access.\<close>

definition access_way :: "Cache \<Rightarrow> u32 \<Rightarrow> nat" where
  "access_way c addr =
     (let base = cache_base c (cache_index c addr); ways = [0..<unat (ch_assoc c)]
      in case hit_way (ch_lines c) base (cache_tag c addr) ways of
           Some w \<Rightarrow> w | None \<Rightarrow> victim_way (ch_lines c) base 0 ways)"

subsection \<open>The scans\<close>

lemma hit_way_Some: "hit_way ls b t ws = Some w \<Longrightarrow> w \<in> set ws \<and> l_valid (ls (b + w)) \<and> l_tag (ls (b + w)) = t"
  by (induction ws) (auto split: if_splits)

lemma hit_way_None: "hit_way ls b t ws = None \<Longrightarrow> \<forall>w\<in>set ws. l_valid (ls (b + w)) \<longrightarrow> l_tag (ls (b + w)) \<noteq> t"
  by (induction ws) (auto split: if_splits)

lemma victim_way_in: "victim_way ls b v ws \<in> insert v (set ws)"
  by (induction ls b v ws rule: victim_way.induct) auto

lemma victim_way_spec:
  "(\<exists>w\<in>set ws. \<not> l_valid (ls (b + w))) \<and> \<not> l_valid (ls (b + victim_way ls b v ws)) \<and> victim_way ls b v ws \<in> set ws \<or>
   (\<forall>w\<in>set ws. l_valid (ls (b + w))) \<and>
   (\<forall>w\<in>insert v (set ws). l_used (ls (b + victim_way ls b v ws)) \<le> l_used (ls (b + w)))"
proof (induction ls b v ws rule: victim_way.induct)
  case (2 ls b v w ws)
  show ?case
  proof (cases "l_valid (ls (b + w))")
    case True
    let ?v = "if l_used (ls (b + w)) < l_used (ls (b + v)) then w else v"
    have le: "l_used (ls (b + ?v)) \<le> l_used (ls (b + v))" "l_used (ls (b + ?v)) \<le> l_used (ls (b + w))"
      by auto
    show ?thesis
      using 2 [OF _] True le by (auto dest: order_trans)
  qed simp
qed simp

subsection \<open>Sorting by recency\<close>

lemma sort_key_unique:
  fixes f :: "'a \<Rightarrow> 'b::linorder"
  assumes "mset ys = mset xs" "distinct (map f ys)" "sorted (map f ys)"
  shows "sort_key f xs = ys"
proof (rule properties_for_sort_key [OF assms(1) _ assms(3)])
  fix k assume k: "k \<in> set ys"
  have one: "filter (\<lambda>x. f k = f x) zs = [k]" if "distinct (map f zs)" "k \<in> set zs" for zs
    using that by (induction zs) (auto simp: filter_empty_conv image_iff)
  have "distinct (map f xs)" "k \<in> set xs"
    using assms(1,2) k by (metis mset_eq_imp_distinct_iff mset_map, metis mset_eq_setD)
  then show "filter (\<lambda>x. f k = f x) ys = filter (\<lambda>x. f k = f x) xs"
    using one assms(2) k by metis
qed

lemma distinct_map_sort: "distinct (map f (sort_key g xs)) = distinct (map f xs)"
  by (rule mset_eq_imp_distinct_iff) simp

lemma distinct_mapD: "distinct (map f xs) \<Longrightarrow> distinct xs"
  by (simp add: distinct_map)

lemma mset_filter_update:
  assumes "w < length xs" "P y" "distinct (filter P xs)"
  shows "mset (filter P (xs[w := y])) = add_mset y (mset (filter (\<lambda>l. l \<noteq> xs ! w) (filter P xs)))"
proof -
  have "mset (filter P (xs[w := y])) = add_mset y (filter_mset P (mset xs - {#xs ! w#}))"
    using assms(1,2) by (simp add: mset_update)
  also have "filter_mset P (mset xs - {#xs ! w#}) = mset (removeAll (xs ! w) (filter P xs))"
    using assms(3) by (simp add: distinct_remove1_removeAll [symmetric] mset_remove1)
  finally show ?thesis
    by (simp add: removeAll_filter_not_eq eq_commute)
qed

lemma recency_update:
  assumes "w < length xs" "l_valid y" "\<forall>l\<in>set (filter l_valid xs). l_used l < l_used y"
    "distinct (map l_used (filter l_valid xs))"
  shows "sort_key l_used (filter l_valid (xs[w := y])) =
    filter (\<lambda>l. l \<noteq> xs ! w) (sort_key l_used (filter l_valid xs)) @ [y]"
proof (rule sort_key_unique)
  let ?S = "filter (\<lambda>l. l \<noteq> xs ! w) (sort_key l_used (filter l_valid xs))"
  show "mset (?S @ [y]) = mset (filter l_valid (xs[w := y]))"
    using mset_filter_update [of w xs l_valid y] assms(1,2) distinct_mapD [OF assms(4)]
    by (simp add: filter_filter_mset conj_commute)
  have sub: "set ?S \<subseteq> set (filter l_valid xs)"
    by auto
  have d: "distinct (map l_used (sort_key l_used (filter l_valid xs)))"
    using assms(4) by (simp only: distinct_map_sort)
  then have "distinct (map l_used ?S)"
    by (rule distinct_map_filter)
  then show "distinct (map l_used (?S @ [y]))"
    using sub assms(3) by fastforce
  show "sorted (map l_used (?S @ [y]))"
    using sub assms(3) by (auto simp: sorted_append sorted_filter less_imp_le)
qed

lemma set_ok_update:
  assumes "set_ok tick xs" "w < length xs" "l_valid y" "tick < l_used y"
    "\<forall>l\<in>set (filter l_valid xs). l \<noteq> xs ! w \<longrightarrow> l_tag l \<noteq> l_tag y"
  shows "set_ok (l_used y) (xs[w := y])"
proof -
  let ?V = "filter l_valid xs" and ?V' = "filter (\<lambda>l. l \<noteq> xs ! w) (filter l_valid xs)"
  have ok: "distinct (map l_used ?V)" "distinct (map l_tag ?V)" "\<forall>l\<in>set ?V. l_used l < l_used y"
    using assms(1,4) by (auto simp: set_ok_def Let_def)
  have m: "mset (filter l_valid (xs[w := y])) = mset (y # ?V')"
    using mset_filter_update [of w xs l_valid y] assms(2,3) distinct_mapD [OF ok(1)] by simp
  have "distinct (map l_used (y # ?V'))" "distinct (map l_tag (y # ?V'))"
    using ok assms(5) distinct_map_filter [OF ok(1)] distinct_map_filter [OF ok(2)] by (auto simp: image_iff)
  then have "distinct (map l_used (filter l_valid (xs[w := y])))" "distinct (map l_tag (filter l_valid (xs[w := y])))"
    using m by (metis mset_eq_imp_distinct_iff mset_map)+
  moreover have "\<forall>l\<in>set (filter l_valid (xs[w := y])). l_used l \<le> l_used y"
    using mset_eq_setD [OF m] ok(3) by (auto simp: less_imp_le)
  ultimately show ?thesis
    by (simp add: set_ok_def)
qed

lemma sorted_hd_min:
  assumes "distinct (map f S)" "sorted (map f S)" "x \<in> set S" "\<forall>l\<in>set S. f x \<le> f l"
  shows "filter (\<lambda>l. l \<noteq> x) S = tl S"
proof (cases S)
  case (Cons a T)
  have "f a \<le> f x"
    using assms(2,3) Cons by auto
  then have "f a = f x"
    using assms(4) Cons by (simp add: order_antisym)
  then have "a = x"
    using assms(1,3) Cons by (auto simp: distinct_map inj_on_def)
  moreover have "x \<notin> set T"
    using assms(1) Cons \<open>a = x\<close> by (auto simp: distinct_map)
  then have "filter (\<lambda>l. l \<noteq> x) T = T"
    by (auto simp: filter_id_conv)
  ultimately show ?thesis
    using Cons by simp
qed (use assms in simp)

lemma tags_without:
  assumes "distinct (map l_tag S)" "x \<in> set S"
  shows "filter (\<lambda>t. t \<noteq> l_tag x) (map l_tag S) = map l_tag (filter (\<lambda>l. l \<noteq> x) S)"
proof -
  have "filter (\<lambda>l. l_tag l \<noteq> l_tag x) S = filter (\<lambda>l. l \<noteq> x) S"
    using assms by (intro filter_cong) (auto simp: distinct_map inj_on_def)
  then show ?thesis
    by (simp add: filter_map comp_def)
qed

lemma recency_lru:
  assumes ok: "set_ok tick xs" and w: "w < length xs" and y: "l_valid y" "tick < l_used y"
    and victim: "l_valid (xs ! w) \<and> l_tag (xs ! w) = l_tag y \<or>
      (\<forall>l\<in>set xs. l_valid l \<longrightarrow> l_tag l \<noteq> l_tag y) \<and>
      (\<not> l_valid (xs ! w) \<or> (\<forall>l\<in>set xs. l_valid l \<and> l_used (xs ! w) \<le> l_used l))"
  shows "recency (xs[w := y]) = lru_access (length xs) (l_tag y) (recency xs)"
proof -
  let ?V = "filter l_valid xs" and ?S = "sort_key l_used (filter l_valid xs)"
  have V: "distinct (map l_used ?V)" "distinct (map l_tag ?V)" "\<forall>l\<in>set ?V. l_used l < l_used y"
    using ok y by (auto simp: set_ok_def Let_def)
  have r: "recency (xs[w := y]) = l_tag y # map l_tag (rev (filter (\<lambda>l. l \<noteq> xs ! w) ?S))"
    using recency_update [OF w y(1) V(3,1)] by (simp add: recency_def)
  have len: "length ?S \<le> length xs"
    by simp
  have "map l_tag (rev (filter (\<lambda>l. l \<noteq> xs ! w) ?S)) = take (length xs - 1) (filter (\<lambda>t. t \<noteq> l_tag y) (map l_tag (rev ?S)))"
    using victim
  proof (elim disjE conjE)
    assume x: "l_valid (xs ! w)" "l_tag (xs ! w) = l_tag y"
    then have in_S: "xs ! w \<in> set (rev ?S)"
      using w by simp
    have "distinct (map l_tag (rev ?S))"
      using V(2) by (simp add: rev_map [symmetric] distinct_map_sort)
    from tags_without [OF this in_S]
    have e: "filter (\<lambda>t. t \<noteq> l_tag y) (map l_tag (rev ?S)) = map l_tag (rev (filter (\<lambda>l. l \<noteq> xs ! w) ?S))"
      using x(2) by (simp add: rev_filter)
    have "length (filter (\<lambda>l. l \<noteq> xs ! w) ?S) < length ?S"
      using in_S by (intro length_filter_less [of "xs ! w"]) auto
    then have "length (filter (\<lambda>l. l \<noteq> xs ! w) ?S) \<le> length xs - 1"
      using len by linarith
    then show ?thesis
      unfolding e by simp
  next
    assume fresh: "\<forall>l\<in>set xs. l_valid l \<longrightarrow> l_tag l \<noteq> l_tag y"
    then have e: "filter (\<lambda>t. t \<noteq> l_tag y) (map l_tag (rev ?S)) = map l_tag (rev ?S)"
      by (auto simp: filter_id_conv)
    {
      assume inv: "\<not> l_valid (xs ! w)"
      then have "filter (\<lambda>l. l \<noteq> xs ! w) ?S = ?S"
        by (auto simp: filter_id_conv)
      moreover have "length ?S < length xs"
        using inv w by (simp add: length_filter_less [of "xs ! w"])
      ultimately show ?thesis
        unfolding e by simp
    next
      assume full: "\<forall>l\<in>set xs. l_valid l \<and> l_used (xs ! w) \<le> l_used l"
      then have "?V = xs"
        by (simp add: filter_id_conv)
      moreover have "distinct (map l_used ?S)"
        using V(1) by (simp only: distinct_map_sort)
      ultimately have "filter (\<lambda>l. l \<noteq> xs ! w) ?S = tl ?S"
        using full w by (intro sorted_hd_min [where f = l_used]) auto
      moreover have "rev (tl ?S) = take (length xs - 1) (rev ?S)"
        using \<open>?V = xs\<close> butlast_conv_take [of "rev ?S"] by (simp add: butlast_rev)
      ultimately show ?thesis
        unfolding e by (simp add: take_map)
    }
  qed
  then show ?thesis
    unfolding r unfolding lru_access_def recency_def by simp
qed

subsection \<open>One access\<close>

lemma set_lines_upd:
  assumes "w < unat (ch_assoc c)"
  shows "set_lines (c\<lparr>ch_lines := (ch_lines c)(cache_base c i + w := y)\<rparr>) j =
    (if j = i then (set_lines c i)[w := y] else set_lines c j)"
proof (cases "j = i")
  case True
  then show ?thesis
    using assms by (intro nth_equalityI) (auto simp: set_lines_def cache_base_def nth_list_update)
next
  case False
  have "unat j * unat (ch_assoc c) + v \<noteq> unat i * unat (ch_assoc c) + w" if "v < unat (ch_assoc c)" for v
  proof
    assume "unat j * unat (ch_assoc c) + v = unat i * unat (ch_assoc c) + w"
    then have "(unat j * unat (ch_assoc c) + v) div unat (ch_assoc c) = (unat i * unat (ch_assoc c) + w) div unat (ch_assoc c)"
      by simp
    then have "unat j = unat i"
      using that assms by simp
    then show False
      using False by (simp add: word_eq_unat)
  qed
  then show ?thesis
    using False by (auto simp: set_lines_def cache_base_def)
qed

lemma set_lines_stat [simp]:
  "set_lines (c\<lparr>ch_hits := x\<rparr>) i = set_lines c i" "set_lines (c\<lparr>ch_misses := x\<rparr>) i = set_lines c i"
  "set_lines (c\<lparr>ch_tick := x\<rparr>) i = set_lines c i"
  "set_lines (c\<lparr>ch_loads := x\<rparr>) i = set_lines c i" "set_lines (c\<lparr>ch_stores := x\<rparr>) i = set_lines c i"
  by (simp_all add: set_lines_def cache_base_def)

lemma nth_set_lines: "w < unat (ch_assoc c) \<Longrightarrow> set_lines c i ! w = ch_lines c (cache_base c i + w)"
  by (simp add: set_lines_def)

lemma length_set_lines [simp]: "length (set_lines c i) = unat (ch_assoc c)"
  by (simp add: set_lines_def)

lemma cache_access_eq:
  fixes c addr
  defines "i \<equiv> cache_index c addr" and "t \<equiv> cache_tag c addr" and "w \<equiv> access_way c addr"
  defines "hit \<equiv> \<exists>l\<in>set (set_lines c i). l_valid l \<and> l_tag l = t"
  shows "cache_access c addr st =
    c\<lparr>ch_lines := (ch_lines c)(cache_base c i + w := \<lparr>l_valid = True, l_tag = t, l_used = ch_tick c + 1\<rparr>),
      ch_tick := ch_tick c + 1,
      ch_loads := ch_loads c + (if st then 0 else 1), ch_stores := ch_stores c + (if st then 1 else 0),
      ch_hits := ch_hits c + (if hit then 1 else 0), ch_misses := ch_misses c + (if hit then 0 else 1)\<rparr>"
proof (cases "hit_way (ch_lines c) (cache_base c i) t [0..<unat (ch_assoc c)]")
  case None
  then have "\<not> hit"
    using hit_way_None [OF None] by (auto simp: hit_def set_lines_def)
  then show ?thesis
    using None
    by (simp add: cache_access_def Let_def access_way_def w_def i_def t_def cache_index_def cache_tag_def cache_base_def)
next
  case (Some v)
  then have v: "l_valid (ch_lines c (cache_base c i + v))" "l_tag (ch_lines c (cache_base c i + v)) = t" "v < unat (ch_assoc c)"
    using hit_way_Some [OF Some] by auto
  then have "hit"
    by (auto simp: hit_def set_lines_def)
  moreover have "(ch_lines c (cache_base c i + v))\<lparr>l_used := u\<rparr> = \<lparr>l_valid = True, l_tag = t, l_used = u\<rparr>" for u
    using v by (cases "ch_lines c (cache_base c i + v)") simp
  ultimately show ?thesis
    using Some
    by (simp add: cache_access_def Let_def access_way_def w_def i_def t_def cache_index_def cache_tag_def cache_base_def)
qed

lemma access_way_cases:
  fixes c addr
  defines "xs \<equiv> set_lines c (cache_index c addr)" and "t \<equiv> cache_tag c addr" and "w \<equiv> access_way c addr"
  assumes "ch_assoc c \<noteq> 0"
  shows "w < unat (ch_assoc c) \<and>
    (l_valid (xs ! w) \<and> l_tag (xs ! w) = t \<or>
     (\<forall>l\<in>set xs. l_valid l \<longrightarrow> l_tag l \<noteq> t) \<and>
     (\<not> l_valid (xs ! w) \<or> (\<forall>l\<in>set xs. l_valid l \<and> l_used (xs ! w) \<le> l_used l)))"
proof (cases "hit_way (ch_lines c) (cache_base c (cache_index c addr)) t [0..<unat (ch_assoc c)]")
  case (Some v)
  then have "w = v"
    by (simp add: w_def access_way_def t_def Let_def)
  then show ?thesis
    using hit_way_Some [OF Some] by (simp add: xs_def nth_set_lines)
next
  case None
  let ?b = "cache_base c (cache_index c addr)"
  have w: "w = victim_way (ch_lines c) ?b 0 [0..<unat (ch_assoc c)]"
    using None by (simp add: w_def access_way_def t_def Let_def)
  have pos: "0 < unat (ch_assoc c)"
    using assms(4) by (simp add: unat_gt_0)
  then have lt: "w < unat (ch_assoc c)"
    using victim_way_in [of "ch_lines c" ?b 0 "[0..<unat (ch_assoc c)]"] w by auto
  moreover have "\<forall>l\<in>set xs. l_valid l \<longrightarrow> l_tag l \<noteq> t"
    using hit_way_None [OF None] by (auto simp: xs_def set_lines_def)
  moreover have "\<not> l_valid (xs ! w) \<or> (\<forall>l\<in>set xs. l_valid l \<and> l_used (xs ! w) \<le> l_used l)"
    using victim_way_spec [of "[0..<unat (ch_assoc c)]" "ch_lines c" ?b 0] lt
    unfolding w [symmetric] xs_def nth_set_lines [OF lt] by (auto simp: set_lines_def)
  ultimately show ?thesis
    by blast
qed

lemma cache_index_less: "ch_num_sets c \<noteq> 0 \<Longrightarrow> cache_index c addr < ch_num_sets c"
proof -
  assume "ch_num_sets c \<noteq> 0"
  then have "ch_num_sets c - 1 < ch_num_sets c"
    by (simp add: word_less_nat_alt unat_minus_one unat_gt_0)
  moreover have "cache_index c addr \<le> ch_num_sets c - 1"
    by (simp add: cache_index_def word_and_le1)
  ultimately show ?thesis
    by simp
qed

lemma recency_tags: "t \<in> set (recency xs) \<longleftrightarrow> (\<exists>l\<in>set xs. l_valid l \<and> l_tag l = t)"
  by (auto simp: recency_def)

lemma set_ok_tick: "set_ok tick xs \<Longrightarrow> tick \<le> tick' \<Longrightarrow> set_ok tick' xs"
  by (auto simp: set_ok_def Let_def)

lemma tick_advances: "x \<noteq> - 1 \<Longrightarrow> x < x + 1" for x :: u64
proof -
  assume "x \<noteq> - 1"
  then have "1 + x \<noteq> 0"
    by (metis add.inverse_unique)
  then show ?thesis
    using unatSuc [of x] by (simp add: word_less_nat_alt add.commute)
qed

lemma nat_pow2: "n AND (n - 1) = 0 \<Longrightarrow> 0 < n \<Longrightarrow> \<exists>k. n = 2 ^ k" for n :: nat
proof (induction n rule: less_induct)
  case (less n)
  show ?case
  proof (cases "even n")
    case True
    then obtain m where n: "n = 2 * m"
      by auto
    then have m: "0 < m" "2 * m - 1 = 2 * (m - 1) + 1"
      using less.prems(2) by simp_all
    have "(2 * m) AND (2 * (m - 1) + 1) = 2 * (m AND (m - 1))"
      by (simp add: and_rec [of "2 * m"] del: mult_Suc_right)
    then have "m AND (m - 1) = 0"
      using less.prems(1) unfolding n m(2) by simp
    then obtain k where "m = 2 ^ k"
      using less.IH [of m] m(1) n by auto
    then have "n = 2 ^ Suc k"
      using n by simp
    then show ?thesis ..
  next
    case False
    then obtain m where n: "n = 2 * m + 1"
      by (auto elim: oddE)
    have "(2 * m + 1) AND (2 * m) = 2 * m"
      by (subst and_rec) simp
    then have "n = 2 ^ 0"
      using less.prems(1) n by simp
    then show ?thesis ..
  qed
qed

lemma is_pow2_unat: "is_pow2 x \<Longrightarrow> \<exists>k<32. unat x = 2 ^ k"
proof -
  assume p: "is_pow2 x"
  then have "unat x AND (unat x - 1) = 0"
    unfolding is_pow2_def by (metis unat_minus_one unsigned_and_eq unsigned_0)
  with p obtain k where k: "unat x = 2 ^ k"
    using nat_pow2 [of "unat x"] by (auto simp: is_pow2_def unat_gt_0)
  then have "(2::nat) ^ k < 2 ^ 32"
    using unat_bound [of x] by simp
  then have "k < 32"
    by (rule power_less_imp_less_exp [rotated]) simp
  with k show ?thesis
    by blast
qed

lemma unat_pow2: "n < LENGTH('a) \<Longrightarrow> unat (2 ^ n :: 'a::len word) = 2 ^ n"
proof -
  assume n: "n < LENGTH('a)"
  have "unat (of_nat (2 ^ n) :: 'a word) = 2 ^ n"
    unfolding unsigned_of_nat using n by (simp only: take_bit_nat_eq_self power_strict_increasing of_nat_id)
  then show ?thesis
    by simp
qed

lemma log2u_from_pow2: "unat x = 2 ^ k \<Longrightarrow> k < 32 \<Longrightarrow> n \<le> k \<Longrightarrow> log2u_from n x = k"
proof (induction n x rule: log2u_from.induct)
  case (1 n x)
  have "unat (shl 1 n :: u32) = 2 ^ n"
    using 1 unat_pow2 [of n, where 'a = 32] by (simp add: shl_def push_bit_eq_mult)
  then have "n < 32 \<and> shl 1 n < x \<longleftrightarrow> n < k"
    using 1 by (auto simp: word_less_nat_alt)
  then show ?case
    using 1 by (subst log2u_from.simps) auto
qed

lemma pow2_product:
  fixes x y :: u32
  assumes "unat x = 2 ^ j" "unat y = 2 ^ k" "x * y \<noteq> 0"
  shows "unat (x * y) = unat x * unat y"
proof -
  have "j + k < 32"
  proof (rule ccontr)
    assume "\<not> j + k < 32"
    then have "(2::nat) ^ 32 dvd 2 ^ (j + k)"
      by (intro le_imp_power_dvd) simp
    then have "unat x * unat y mod 2 ^ 32 = 0"
      by (simp only: assms(1,2) power_add [symmetric] mod_eq_0_iff_dvd)
    then have "unat (x * y) = 0"
      by (simp add: unat_word_ariths)
    then show False
      using assms(3) unsigned_eq_0_iff [of "x * y"] by blast
  qed
  then have "(2::nat) ^ (j + k) < 2 ^ 32"
    by (intro power_strict_increasing) simp_all
  then have "unat x * unat y < 2 ^ 32"
    by (simp only: assms(1,2) power_add)
  then show ?thesis
    by (simp add: unat_word_ariths)
qed

lemma and_pow2_minus1: "unat n = 2 ^ k \<Longrightarrow> unat (x AND (n - 1)) = unat x mod 2 ^ k" for x n :: u32
proof -
  assume n: "unat n = 2 ^ k"
  have "of_nat (unat n) = n"
    by simp
  then have "n = 2 ^ k"
    unfolding n by simp
  then show ?thesis
    using unat_and_mask [of x k] by (simp add: mask_eq_exp_minus_1)
qed

lemma cache_init_ok:
  assumes "cache_init ok sz assoc bs = Inr c"
  shows "unat bs = 2 ^ ch_offset_bits c" "unat (ch_num_sets c) = 2 ^ ch_index_bits c"
    "unat sz = unat (ch_num_sets c) * unat assoc * unat bs" "assoc \<noteq> 0" "ch_assoc c = assoc" "ch_block_size c = bs"
    "ch_offset_bits c + ch_index_bits c < 32"
    "set_lines c i = replicate (unat assoc) \<lparr>l_valid = False, l_tag = 0, l_used = 0\<rparr>"
    "ch_hits c + ch_misses c = ch_loads c + ch_stores c"
proof -
  let ?n = "sz div (assoc * bs)"
  have g: "is_pow2 bs" "is_pow2 assoc" "is_pow2 ?n" "assoc * bs \<noteq> 0" "sz mod (assoc * bs) = 0"
    and c: "ch_num_sets c = ?n" "ch_offset_bits c = log2u bs" "ch_index_bits c = log2u ?n"
      "ch_assoc c = assoc" "ch_block_size c = bs"
    using assms by (auto simp: cache_init_def Let_def split: if_splits)
  obtain jb ja jn where p: "unat bs = 2 ^ jb" "jb < 32" "unat assoc = 2 ^ ja" "unat ?n = 2 ^ jn" "jn < 32"
    using is_pow2_unat g(1-3) by metis
  then have l: "log2u bs = jb" "log2u ?n = jn"
    by (simp_all add: log2u_def log2u_from_pow2)
  show "unat bs = 2 ^ ch_offset_bits c" "unat (ch_num_sets c) = 2 ^ ch_index_bits c" "ch_assoc c = assoc" "ch_block_size c = bs"
    using p l c by simp_all
  have "unat (assoc * bs) = unat assoc * unat bs"
    using pow2_product [OF p(3,1) g(4)] .
  moreover have "unat sz = unat ?n * unat (assoc * bs)"
    using g(5) by (metis div_mult_mod_eq add.right_neutral unat_div unat_mod unsigned_0)
  ultimately show sz: "unat sz = unat (ch_num_sets c) * unat assoc * unat bs"
    by (simp add: c)
  show "assoc \<noteq> 0"
    using g(2) by (simp add: is_pow2_def)
  have "(2::nat) ^ (jb + jn) \<le> unat sz"
    by (simp add: sz c p power_add)
  then have "(2::nat) ^ (jb + jn) < 2 ^ 32"
    using unat_bound [of sz] by simp
  then have "jb + jn < 32"
    by (rule power_less_imp_less_exp [rotated]) simp
  then show "ch_offset_bits c + ch_index_bits c < 32"
    using c l by simp
  show "set_lines c i = replicate (unat assoc) \<lparr>l_valid = False, l_tag = 0, l_used = 0\<rparr>"
    "ch_hits c + ch_misses c = ch_loads c + ch_stores c"
    using assms by (auto simp: cache_init_def Let_def set_lines_def map_replicate_const split: if_splits)
qed

text \<open>
  C23: an accepted geometry is consistent: the block size and the number of sets are the powers of two
  their bit counts say, sets times ways times block size is the requested size (the 32-bit product
  \<open>assoc * block_size\<close> cannot wrap to anything but zero), no later shift reaches the width of the
  address, the fresh cache is well-formed, and two addresses select the same set and tag exactly when
  they lie in the same block.
\<close>

theorem cache_init_geometry:
  assumes "cache_init ok sz assoc bs = Inr c"
  shows "unat bs = 2 ^ ch_offset_bits c \<and> unat (ch_num_sets c) = 2 ^ ch_index_bits c \<and>
    unat sz = unat (ch_num_sets c) * unat assoc * unat bs \<and> ch_offset_bits c + ch_index_bits c < 32 \<and> cache_inv c \<and>
    (cache_index c a = cache_index c b \<and> cache_tag c a = cache_tag c b \<longleftrightarrow> unat a div unat bs = unat b div unat bs)"
proof -
  note g = cache_init_ok [OF assms]
  have ix: "unat (cache_index c x) = unat x div unat bs mod 2 ^ ch_index_bits c" for x
    using g(1,2) by (simp add: cache_index_def and_pow2_minus1 unat_shr)
  have tg: "unat (cache_tag c x) = unat x div unat bs div 2 ^ ch_index_bits c" for x
    using g(1) by (simp add: cache_tag_def unat_shr power_add div_mult2_eq)
  have "cache_index c a = cache_index c b \<and> cache_tag c a = cache_tag c b \<longleftrightarrow> unat a div unat bs = unat b div unat bs"
    unfolding word_eq_unat ix tg by (metis div_mult_mod_eq)
  moreover have "cache_inv c"
    using g by (auto simp: cache_inv_def set_ok_def Let_def)
  ultimately show ?thesis
    using g by simp
qed

lemma demo_cache:
  obtains c where "cache_init True 64 2 16 = Inr c" "ch_assoc c = 2" "ch_tick c = 0"
proof -
  have "is_pow2 16" "is_pow2 2"
    by (simp_all add: is_pow2_def)
  then show ?thesis
    using that by (simp add: cache_init_def)
qed

theorem cache_init_geometry_witness:
  "\<exists>c. cache_init True 64 2 16 = Inr c \<and> cache_inv c \<and>
    (cache_index c 0x1234 = cache_index c 0x1238 \<and> cache_tag c 0x1234 = cache_tag c 0x1238)"
proof -
  obtain c where c: "cache_init True 64 2 16 = Inr c"
    using demo_cache by metis
  show ?thesis
    using cache_init_geometry [OF c, of "0x1234" "0x1238"] c by auto
qed

text \<open>
  C22: the cache model refines LRU sets. Seen as a list of tags in order of recency, the accessed set
  behaves as a list of at most \<open>assoc\<close> tags where an access moves or inserts its tag at the front and
  drops the last tag when the set is full; it is a hit exactly when the tag was in the list, no other
  set changes, and hits plus misses stays equal to loads plus stores. (The tick is a 64-bit
  counter; the statement covers every access before it wraps.)
\<close>

theorem cache_access_lru:
  fixes c addr st
  assumes "cache_inv c" "ch_tick c \<noteq> - 1"
  defines "i \<equiv> cache_index c addr" and "t \<equiv> cache_tag c addr" and "c' \<equiv> cache_access c addr st"
  shows "cache_inv c' \<and>
    lru_view c' i = lru_access (unat (ch_assoc c)) t (lru_view c i) \<and>
    (\<forall>j. j \<noteq> i \<longrightarrow> lru_view c' j = lru_view c j) \<and>
    ch_hits c' = ch_hits c + (if t \<in> set (lru_view c i) then 1 else 0)"
proof -
  define w where "w = access_way c addr"
  define y where "y = \<lparr>l_valid = True, l_tag = t, l_used = ch_tick c + 1\<rparr>"
  have inv: "ch_assoc c \<noteq> 0" "ch_num_sets c \<noteq> 0" "\<And>j. j < ch_num_sets c \<Longrightarrow> set_ok (ch_tick c) (set_lines c j)"
    "ch_hits c + ch_misses c = ch_loads c + ch_stores c"
    using assms(1) by (auto simp: cache_inv_def)
  have tick: "ch_tick c < ch_tick c + 1"
    using assms(2) by (rule tick_advances)
  have i: "i < ch_num_sets c"
    unfolding i_def using inv(2) by (rule cache_index_less)
  note way = access_way_cases [OF inv(1), of addr, folded i_def t_def w_def]
  have c': "set_lines c' j = (if j = i then (set_lines c i)[w := y] else set_lines c j)" for j
    using way set_lines_upd [of w c i y j] by (simp add: c'_def cache_access_eq i_def t_def w_def y_def set_lines_def cache_base_def)
  have fields: "ch_assoc c' = ch_assoc c" "ch_num_sets c' = ch_num_sets c" "ch_tick c' = ch_tick c + 1"
    "ch_hits c' = ch_hits c + (if t \<in> set (lru_view c i) then 1 else 0)"
    "ch_hits c' + ch_misses c' = ch_loads c' + ch_stores c'"
    using inv(4) by (auto simp: c'_def cache_access_eq lru_view_def recency_tags i_def t_def algebra_simps)
  have "set_ok (ch_tick c + 1) ((set_lines c i)[w := y])"
  proof -
    have "distinct (map l_tag (filter l_valid (set_lines c i)))"
      using inv(3) [OF i] by (simp add: set_ok_def Let_def)
    then have "\<forall>l\<in>set (filter l_valid (set_lines c i)). l \<noteq> set_lines c i ! w \<longrightarrow> l_tag l \<noteq> t"
      using way nth_mem [of w "set_lines c i"] by (auto simp: distinct_map inj_on_def)
    then show ?thesis
      using set_ok_update [OF inv(3) [OF i], of w y] way tick by (simp add: y_def)
  qed
  moreover have "set_ok (ch_tick c + 1) (set_lines c j)" if "j < ch_num_sets c" for j
    using set_ok_tick [OF inv(3) [OF that]] tick by simp
  ultimately have "cache_inv c'"
    unfolding cache_inv_def fields(5) using inv(1,2) by (simp add: fields(1-3) c')
  moreover have "lru_view c' i = lru_access (unat (ch_assoc c)) t (lru_view c i)"
    using recency_lru [OF inv(3) [OF i], of w y] way tick by (simp add: lru_view_def c' y_def)
  ultimately show ?thesis
    by (simp add: fields lru_view_def c')
qed

theorem cache_access_lru_witness:
  "\<exists>c. cache_init True 64 2 16 = Inr c \<and>
     lru_view (cache_access c 0x1234 True) (cache_index c 0x1234) = [cache_tag c 0x1234]"
proof -
  obtain c where c: "cache_init True 64 2 16 = Inr c" "ch_assoc c = 2" "ch_tick c = 0"
    using demo_cache by metis
  have "cache_inv c" "lru_view c i = []" for i
    using cache_init_ok [OF c(1)] by (auto simp: cache_inv_def set_ok_def lru_view_def recency_def)
  then show ?thesis
    using cache_access_lru [of c "0x1234" True] c by (auto simp: lru_access_def)
qed

text \<open>The product of a legal block size and a legal associativity may wrap to zero; the remainder by it is undefined in C.\<close>

lemma cache_init_overflow: "cache_init True 64 0x10000 0x10000 = Inl DIV_BY_ZERO"
  by (simp add: cache_init_def is_pow2_def)

end
