(* ===== verification/Pipeline_Model.thy ===== *)
theory Pipeline_Model
  imports Decode
begin

text \<open>
  The five-stage timing overlay of \<open>src/src/pipeline.c\<close>. \<open>pipeline_report\<close> prints the cycle total that
  \<open>pipeline_cycles\<close> computes.
\<close>

record Pipeline =
  pp_instrs :: u64
  pp_load_use_stalls :: u64
  pp_control_events :: u64
  pp_control_cycles :: u64
  pp_prev_load_rd :: u32

definition reads_reg :: "u32 \<Rightarrow> u32 \<Rightarrow> bool" where
  "reads_reg inst r =
     (if r = 0 then False
      else let op = opcode inst;
               uses_rs1 = (op = OP_IMM \<or> op = OP_REG \<or> op = OP_LOAD \<or> op = OP_STORE \<or> op = OP_BRANCH \<or> op = OP_JALR);
               uses_rs2 = (op = OP_REG \<or> op = OP_STORE \<or> op = OP_BRANCH)
           in if uses_rs1 \<and> rs1 inst = r then True
              else if uses_rs2 \<and> rs2 inst = r then True
              else False)"

definition pipeline_init :: Pipeline where
  "pipeline_init = \<lparr>pp_instrs = 0, pp_load_use_stalls = 0, pp_control_events = 0, pp_control_cycles = 0,
     pp_prev_load_rd = 0\<rparr>"

definition pipeline_observe :: "Pipeline \<Rightarrow> u32 \<Rightarrow> bool \<Rightarrow> Pipeline" where
  "pipeline_observe p inst redirected =
     (let p = (if pp_prev_load_rd p \<noteq> 0 \<and> reads_reg inst (pp_prev_load_rd p)
               then p\<lparr>pp_load_use_stalls := pp_load_use_stalls p + 1\<rparr> else p);
          p = (if redirected
               then p\<lparr>pp_control_events := pp_control_events p + 1,
                      pp_control_cycles := pp_control_cycles p + (if opcode inst = OP_JAL then 1 else 2)\<rparr>
               else p)
      in p\<lparr>pp_instrs := pp_instrs p + 1,
           pp_prev_load_rd := (if opcode inst = OP_LOAD then rd inst else 0)\<rparr>)"

definition pipeline_cycles :: "Pipeline \<Rightarrow> u64" where
  "pipeline_cycles p =
     (let fill = (if pp_instrs p > 0 then 4 else 0)
      in pp_instrs p + fill + pp_load_use_stalls p + pp_control_cycles p)"

subsection \<open>Specification\<close>

text \<open>A bubble between two adjacent instructions, the flush after one, and the cycles of a retired stream.\<close>

definition load_use :: "u32 \<Rightarrow> u32 \<Rightarrow> bool" where
  "load_use a b = (opcode a = OP_LOAD \<and> rd a \<noteq> 0 \<and> reads_reg b (rd a))"

definition flush_cost :: "u32 \<times> bool \<Rightarrow> nat" where
  "flush_cost x = (if snd x then if opcode (fst x) = OP_JAL then 1 else 2 else 0)"

fun bubbles :: "(u32 \<times> bool) list \<Rightarrow> nat" where
  "bubbles (a # b # xs) = (if load_use (fst a) (fst b) then 1 else 0) + bubbles (b # xs)"
| "bubbles _ = 0"

definition stream_cycles :: "(u32 \<times> bool) list \<Rightarrow> nat" where
  "stream_cycles xs = (if xs = [] then 0 else length xs + 4 + bubbles xs + sum_list (map flush_cost xs))"

abbreviation observe_all :: "Pipeline \<Rightarrow> (u32 \<times> bool) list \<Rightarrow> Pipeline" where
  "observe_all \<equiv> foldl (\<lambda>p (inst, r). pipeline_observe p inst r)"

lemma observe_all_counts:
  defines "tgt \<equiv> (\<lambda>a. if opcode (fst a) = OP_LOAD then rd (fst a) else 0)"
  shows "pp_instrs (observe_all p xs) = pp_instrs p + of_nat (length xs) \<and>
    pp_control_cycles (observe_all p xs) = pp_control_cycles p + of_nat (sum_list (map flush_cost xs)) \<and>
    (\<forall>a. pp_prev_load_rd p = tgt a \<longrightarrow>
      pp_load_use_stalls (observe_all p xs) = pp_load_use_stalls p + of_nat (bubbles (a # xs)))"
proof (induction xs arbitrary: p)
  case (Cons x xs)
  obtain inst r where x: "x = (inst, r)" by fastforce
  let ?q = "pipeline_observe p inst r"
  note IH = Cons [of ?q]
  have "pp_prev_load_rd ?q = tgt x"
    by (simp add: pipeline_observe_def Let_def tgt_def x)
  then have "pp_load_use_stalls (observe_all ?q xs) = pp_load_use_stalls ?q + of_nat (bubbles (x # xs))"
    using IH by blast
  moreover have "pp_load_use_stalls ?q = pp_load_use_stalls p + of_bool (load_use (fst a) (fst x))"
    if "pp_prev_load_rd p = tgt a" for a
    using that by (auto simp: pipeline_observe_def Let_def load_use_def tgt_def x reads_reg_def)
  ultimately have "\<forall>a. pp_prev_load_rd p = tgt a \<longrightarrow>
      pp_load_use_stalls (observe_all ?q xs) = pp_load_use_stalls p + of_nat (bubbles (a # x # xs))"
    by auto
  moreover have "pp_instrs ?q = pp_instrs p + 1" "pp_control_cycles ?q = pp_control_cycles p + of_nat (flush_cost x)"
    by (simp_all add: pipeline_observe_def Let_def flush_cost_def x)
  ultimately show ?case
    using IH by (simp add: x)
qed simp



end
