(* ===== verification/Mmu.thy ===== *)
theory Mmu
  imports Cpu
begin

text \<open>
  Virtual memory, \<open>src/src/mmu.c\<close>: the paging scheme of \<open>satp\<close>, the permission check of a leaf
  entry, the Sv32/Sv39 walk with its accessed and dirty updates, and the direct-mapped TLB in front
  of it. \<open>mmu_translate\<close> returns the cause of a page fault or the physical address, with the hart
  (whose TLB it may fill) and the memory (whose page tables it reads and updates).
\<close>

subsection \<open>Schemes and permissions\<close>

datatype Scheme = PT_BARE | PT_SV32 | PT_SV39 | PT_UNSUPPORTED

abbreviation (input) PTE_V :: "'a::len word" where "PTE_V \<equiv> 0x01"
abbreviation (input) PTE_R :: "'a::len word" where "PTE_R \<equiv> 0x02"
abbreviation (input) PTE_W :: "'a::len word" where "PTE_W \<equiv> 0x04"
abbreviation (input) PTE_X :: "'a::len word" where "PTE_X \<equiv> 0x08"
abbreviation (input) PTE_U :: "'a::len word" where "PTE_U \<equiv> 0x10"
abbreviation (input) PTE_A :: "'a::len word" where "PTE_A \<equiv> 0x40"
abbreviation (input) PTE_D :: "'a::len word" where "PTE_D \<equiv> 0x80"

abbreviation (input) TLB_ENTRIES :: u64 where "TLB_ENTRIES \<equiv> 16"

definition satp_mode :: "CPU \<Rightarrow> u64 \<Rightarrow> Scheme" where
  "satp_mode c satp =
     (if xlen c = 32 then (if (ucast satp :: u32) AND 0x80000000 \<noteq> 0 then PT_SV32 else PT_BARE)
      else let mode = shr satp 60 AND 0xf
           in if mode = 0 then PT_BARE else if mode = 8 then PT_SV39 else PT_UNSUPPORTED)"

definition mmu_satp_supported :: "CPU \<Rightarrow> u64 \<Rightarrow> bool" where
  "mmu_satp_supported c val = (satp_mode c val \<noteq> PT_UNSUPPORTED)"

definition pf_cause :: "AccessType \<Rightarrow> u32" where
  "pf_cause acc = (case acc of
       ACC_FETCH \<Rightarrow> CAUSE_INSN_PAGE_FAULT
     | ACC_STORE \<Rightarrow> CAUSE_STORE_PAGE_FAULT
     | ACC_LOAD \<Rightarrow> CAUSE_LOAD_PAGE_FAULT)"

text \<open>The low word of \<open>mstatus\<close>, as the two \<open>uint32_t s\<close> locals read it.\<close>

definition status32 :: "CPU \<Rightarrow> u64" where
  "status32 c = ucast (ucast (csr c CSR_MSTATUS) :: u32)"

definition eff_priv :: "CPU \<Rightarrow> AccessType \<Rightarrow> u32" where
  "eff_priv c acc =
     (let s = status32 c
      in if acc \<noteq> ACC_FETCH \<and> s AND MSTATUS_MPRV \<noteq> 0
         then ucast (shr (s AND MSTATUS_MPP) MSTATUS_MPP_SHIFT)
         else priv c)"

definition perm_ok :: "CPU \<Rightarrow> u32 \<Rightarrow> AccessType \<Rightarrow> u32 \<Rightarrow> bool" where
  "perm_ok c pte acc pr =
     (let s = status32 c
      in if pr = PRIV_U \<and> pte AND PTE_U = 0 then False
         else if pr \<noteq> PRIV_U \<and> pte AND PTE_U \<noteq> 0 \<and> (acc = ACC_FETCH \<or> s AND MSTATUS_SUM = 0) then False
         else (case acc of
             ACC_FETCH \<Rightarrow> pte AND PTE_X \<noteq> 0
           | ACC_LOAD \<Rightarrow> pte AND PTE_R \<noteq> 0 \<or> (s AND MSTATUS_MXR \<noteq> 0 \<and> pte AND PTE_X \<noteq> 0)
           | ACC_STORE \<Rightarrow> pte AND PTE_W \<noteq> 0))"

subsection \<open>The walk\<close>

text \<open>What differs between the two schemes: depth, entry size, index width, PPN mask, ASID of \<open>satp\<close>.\<close>

record Paging =
  pg_levels :: nat
  pg_ptesize :: u64
  pg_vpnbits :: nat
  pg_ppnmask :: u64
  pg_asid :: u64

definition paging_of :: "Scheme \<Rightarrow> u64 \<Rightarrow> Paging" where
  "paging_of scheme satp =
     (if scheme = PT_SV32
      then \<lparr>pg_levels = 2, pg_ptesize = 4, pg_vpnbits = 10, pg_ppnmask = 0x3fffff, pg_asid = shr satp 22 AND 0x1ff\<rparr>
      else \<lparr>pg_levels = 3, pg_ptesize = 8, pg_vpnbits = 9, pg_ppnmask = 0xfffffffffff, pg_asid = shr satp 44 AND 0xffff\<rparr>)"

definition read_pte :: "Paging \<Rightarrow> Memory \<Rightarrow> u64 \<Rightarrow> u64 \<times> Memory" where
  "read_pte pg m a =
     (if pg_ptesize pg = 4 then (let (v, m) = mem_read32 m a in (ucast v, m)) else mem_read64 m a)"

definition write_pte :: "Paging \<Rightarrow> Memory \<Rightarrow> u64 \<Rightarrow> u64 \<Rightarrow> Memory" where
  "write_pte pg m a v =
     (if pg_ptesize pg = 4 then mem_write32 m a (ucast v) else mem_write64 m a v)"

definition pte_addr :: "Paging \<Rightarrow> u64 \<Rightarrow> nat \<Rightarrow> u64 \<Rightarrow> u64" where
  "pte_addr pg va level a =
     a + (shr va (12 + level * pg_vpnbits pg) AND (shl 1 (pg_vpnbits pg) - 1)) * pg_ptesize pg"

text \<open>The loop from the root table down: a leaf with its address and level, or \<open>None\<close> for a page fault.\<close>

fun mmu_walk :: "Paging \<Rightarrow> u64 \<Rightarrow> nat \<Rightarrow> u64 \<Rightarrow> Memory \<Rightarrow> (u64 \<times> u64 \<times> nat) option \<times> Memory" where
  "mmu_walk pg va level a m =
     (let (pte, m) = read_pte pg m (pte_addr pg va level a)
      in if mfault m then (None, m\<lparr>mfault := False\<rparr>)
         else if pte AND PTE_V = 0 \<or> (pte AND PTE_R = 0 \<and> pte AND PTE_W \<noteq> 0) then (None, m)
         else if pte AND (PTE_R OR PTE_X) \<noteq> 0 then (Some (pte, pte_addr pg va level a, level), m)
         else (case level of
             0 \<Rightarrow> (None, m)
           | Suc l \<Rightarrow> mmu_walk pg va l (shl (shr pte 10 AND pg_ppnmask pg) 12) m))"

declare mmu_walk.simps [simp del]

text \<open>The physical page of a leaf; \<open>None\<close> for a misaligned superpage.\<close>

definition leaf_ppn :: "Paging \<Rightarrow> u64 \<Rightarrow> u64 \<Rightarrow> nat \<Rightarrow> u64 option" where
  "leaf_ppn pg va pte level =
     (let ppn = shr pte 10 AND pg_ppnmask pg; low = shl 1 (level * pg_vpnbits pg) - 1
      in if level > 0
         then (if ppn AND low \<noteq> 0 then None else Some ((ppn AND NOT low) OR (shr va 12 AND low)))
         else Some ppn)"

definition phys :: "u64 \<Rightarrow> u64 \<Rightarrow> u64" where
  "phys ppn va = shl ppn 12 OR (va AND 0xfff)"

definition tlb_slot :: "u64 \<Rightarrow> u64" where
  "tlb_slot va = shr va 12 AND (TLB_ENTRIES - 1)"

definition tlb_hit :: "CPU \<Rightarrow> u64 \<Rightarrow> u64 \<Rightarrow> AccessType \<Rightarrow> bool" where
  "tlb_hit c va asid acc =
     (let e = tlb c (tlb_slot va)
      in t_valid e \<and> t_vpn e = shr va 12 \<and> ucast (t_asid e) = asid \<and>
         (acc \<noteq> ACC_STORE \<or> t_pte_flags e AND PTE_D \<noteq> 0))"

text \<open>The slow path: walk, check, resolve, maintain A and D, fill the TLB slot.\<close>

definition mmu_slow :: "CPU \<Rightarrow> Memory \<Rightarrow> Paging \<Rightarrow> u64 \<Rightarrow> u64 \<Rightarrow> AccessType \<Rightarrow> u32 \<Rightarrow> (u32 + u64) \<times> CPU \<times> Memory" where
  "mmu_slow c m pg satp va acc pr =
     (case mmu_walk pg va (pg_levels pg - 1) (shl (satp AND pg_ppnmask pg) 12) m of
        (None, m) \<Rightarrow> (Inl (pf_cause acc), c, m)
      | (Some (pte, pa, level), m) \<Rightarrow>
          (if \<not> perm_ok c (ucast pte) acc pr then (Inl (pf_cause acc), c, m)
           else (case leaf_ppn pg va pte level of
               None \<Rightarrow> (Inl (pf_cause acc), c, m)
             | Some ppn \<Rightarrow>
                 (let newpte = pte OR PTE_A OR (if acc = ACC_STORE then PTE_D else 0);
                      m = (if newpte \<noteq> pte then write_pte pg m pa newpte else m);
                      e = \<lparr>t_valid = True, t_vpn = shr va 12, t_asid = ucast (pg_asid pg), t_ppn = ppn,
                           t_pte_flags = ucast (newpte AND 0xff)\<rparr>
                  in (Inr (phys ppn va), c\<lparr>tlb := (tlb c)(tlb_slot va := e)\<rparr>, m)))))"

definition mmu_translate :: "CPU \<Rightarrow> Memory \<Rightarrow> u64 \<Rightarrow> AccessType \<Rightarrow> (u32 + u64) \<times> CPU \<times> Memory" where
  "mmu_translate c m va acc =
     (let satp = csr c CSR_SATP; pr = eff_priv c acc;
          va = (if xlen c = 32 then va AND 0xffffffff else va);
          scheme = satp_mode c satp
      in if pr = PRIV_M \<or> scheme = PT_BARE \<or> scheme = PT_UNSUPPORTED then (Inr va, c, m)
         else let pg = paging_of scheme satp
         in if scheme = PT_SV39 \<and> sar (shl va 25) 25 \<noteq> va then (Inl (pf_cause acc), c, m)
         else if tlb_hit c va (pg_asid pg) acc
              then (let e = tlb c (tlb_slot va)
                    in if \<not> perm_ok c (t_pte_flags e) acc pr then (Inl (pf_cause acc), c, m)
                       else (Inr (phys (t_ppn e) va), c, m))
              else mmu_slow c m pg satp va acc pr)"

subsection \<open>Specifications\<close>

text \<open>The entry at a physical address, when it lies in RAM, and the walk as a pure lookup.\<close>

definition pte_at :: "Paging \<Rightarrow> Memory \<Rightarrow> u64 \<Rightarrow> u64 option" where
  "pte_at pg m a =
     (if mmio m a = None \<and> mem_in_range m a (pg_ptesize pg)
      then Some (if pg_ptesize pg = 4 then ucast (ld32 (mdata m) (a - mbase m)) else le64 (mdata m) (a - mbase m))
      else None)"

fun ram_walk :: "Paging \<Rightarrow> u64 \<Rightarrow> nat \<Rightarrow> u64 \<Rightarrow> Memory \<Rightarrow> (u64 \<times> u64 \<times> nat) option" where
  "ram_walk pg va level a m =
     (case pte_at pg m (pte_addr pg va level a) of
        None \<Rightarrow> None
      | Some pte \<Rightarrow>
          (if pte AND PTE_V = 0 \<or> (pte AND PTE_R = 0 \<and> pte AND PTE_W \<noteq> 0) then None
           else if pte AND (PTE_R OR PTE_X) \<noteq> 0 then Some (pte, pte_addr pg va level a, level)
           else (case level of
               0 \<Rightarrow> None
             | Suc l \<Rightarrow> ram_walk pg va l (shl (shr pte 10 AND pg_ppnmask pg) 12) m)))"

declare ram_walk.simps [simp del]

text \<open>Every entry the walk of \<open>va\<close> visits lies outside the device windows.\<close>

fun walk_in_ram :: "Paging \<Rightarrow> u64 \<Rightarrow> nat \<Rightarrow> u64 \<Rightarrow> Memory \<Rightarrow> bool" where
  "walk_in_ram pg va level a m =
     (mmio m (pte_addr pg va level a) = None \<and>
      (case pte_at pg m (pte_addr pg va level a) of
         None \<Rightarrow> True
       | Some pte \<Rightarrow>
           (if pte AND PTE_V = 0 \<or> (pte AND PTE_R = 0 \<and> pte AND PTE_W \<noteq> 0) \<or> pte AND (PTE_R OR PTE_X) \<noteq> 0 then True
            else (case level of
                0 \<Rightarrow> True
              | Suc l \<Rightarrow> walk_in_ram pg va l (shl (shr pte 10 AND pg_ppnmask pg) 12) m))))"

declare walk_in_ram.simps [simp del]

definition root_of :: "Paging \<Rightarrow> u64 \<Rightarrow> u64" where
  "root_of pg satp = shl (satp AND pg_ppnmask pg) 12"

text \<open>A cached translation agrees with the tables: its page, its flags up to A and D, A set, D not ahead.\<close>

definition entry_ok :: "Paging \<Rightarrow> u64 \<Rightarrow> Memory \<Rightarrow> TlbEntry \<Rightarrow> bool" where
  "entry_ok pg satp m e =
     (case ram_walk pg (shl (t_vpn e) 12) (pg_levels pg - 1) (root_of pg satp) m of
        None \<Rightarrow> False
      | Some (pte, pa, level) \<Rightarrow>
          leaf_ppn pg (shl (t_vpn e) 12) pte level = Some (t_ppn e) \<and>
          pte AND PTE_A \<noteq> 0 \<and> (t_pte_flags e AND PTE_D \<noteq> 0 \<longrightarrow> pte AND PTE_D \<noteq> 0) \<and>
          t_pte_flags e AND 0x3f = ucast pte AND 0x3f)"

definition tlb_coherent :: "CPU \<Rightarrow> Memory \<Rightarrow> bool" where
  "tlb_coherent c m =
     (let satp = csr c CSR_SATP; scheme = satp_mode c satp; pg = paging_of scheme satp
      in scheme = PT_SV32 \<or> scheme = PT_SV39 \<longrightarrow>
         (\<forall>i<TLB_ENTRIES. t_valid (tlb c i) \<and> ucast (t_asid (tlb c i)) = pg_asid pg \<longrightarrow> entry_ok pg satp m (tlb c i)))"

text \<open>The page tables the translation of \<open>va\<close> visits lie outside the device windows.\<close>

definition tables_in_ram :: "CPU \<Rightarrow> Memory \<Rightarrow> u64 \<Rightarrow> bool" where
  "tables_in_ram c m va =
     (let satp = csr c CSR_SATP; pg = paging_of (satp_mode c satp) satp;
          va = (if xlen c = 32 then va AND 0xffffffff else va)
      in walk_in_ram pg va (pg_levels pg - 1) (root_of pg satp) m)"

subsection \<open>The walk\<close>

definition pg_ok :: "Paging \<Rightarrow> bool" where
  "pg_ok pg = (\<exists>scheme satp. pg = paging_of scheme satp)"

definition pte_aligned :: "Paging \<Rightarrow> u64 \<Rightarrow> bool" where
  "pte_aligned pg a = (unat (pg_ptesize pg) dvd unat a)"

text \<open>Setting A or D in a leaf changes no walk but for those bits of the leaf it ends in.\<close>

definition same_leaf :: "u64 \<Rightarrow> u64 \<Rightarrow> bool" where
  "same_leaf p n = (n AND 0x3f = p AND 0x3f \<and> shr n 10 = shr p 10)"

definition new_pte :: "u64 \<Rightarrow> AccessType \<Rightarrow> u64" where
  "new_pte pte acc = pte OR PTE_A OR (if acc = ACC_STORE then PTE_D else 0)"

definition ad_update :: "Paging \<Rightarrow> Memory \<Rightarrow> u64 \<Rightarrow> u64 \<Rightarrow> AccessType \<Rightarrow> Memory" where
  "ad_update pg m x pte acc = (if new_pte pte acc \<noteq> pte then write_pte pg m x (new_pte pte acc) else m)"

text \<open>What the tables say about an access: the permitted leaf with its page, or the reason for the fault.\<close>

definition granted :: "CPU \<Rightarrow> Paging \<Rightarrow> u64 \<Rightarrow> u64 \<Rightarrow> AccessType \<Rightarrow> Memory \<Rightarrow> u64 \<Rightarrow> bool" where
  "granted c pg satp va acc m pa \<longleftrightarrow>
     (\<exists>pte x level ppn. ram_walk pg va (pg_levels pg - 1) (root_of pg satp) m = Some (pte, x, level) \<and>
        perm_ok c (ucast pte) acc (eff_priv c acc) \<and> leaf_ppn pg va pte level = Some ppn \<and> pa = phys ppn va \<and>
        pte AND PTE_A \<noteq> 0 \<and> (acc = ACC_STORE \<longrightarrow> pte AND PTE_D \<noteq> 0))"

definition refused :: "CPU \<Rightarrow> Paging \<Rightarrow> u64 \<Rightarrow> u64 \<Rightarrow> AccessType \<Rightarrow> Memory \<Rightarrow> bool" where
  "refused c pg satp va acc m \<longleftrightarrow>
     (case ram_walk pg va (pg_levels pg - 1) (root_of pg satp) m of
        None \<Rightarrow> True
      | Some (pte, x, level) \<Rightarrow> \<not> perm_ok c (ucast pte) acc (eff_priv c acc) \<or> leaf_ppn pg va pte level = None)"

text \<open>One gigapage leaf in the root table at \<open>0x80001000\<close>, supervisor mode, one cached translation.\<close>

definition demo_mem :: Memory where
  "demo_mem = (mem_init 0x80000000 0x10000)\<lparr>mdata := st64 (\<lambda>_. 0) 0x1010 0x2000004f\<rparr>"

definition demo_cpu :: CPU where
  "demo_cpu = (cpu_init 0 64)\<lparr>priv := PRIV_S, csr := (\<lambda>_. 0)(CSR_SATP := 0x8000000000080001),
     tlb := (\<lambda>_. \<lparr>t_valid = False, t_vpn = 0, t_asid = 0, t_ppn = 0, t_pte_flags = 0\<rparr>)
       (2 := \<lparr>t_valid = True, t_vpn = 0x80002, t_asid = 0, t_ppn = 0x80002, t_pte_flags = 0x4f\<rparr>)\<rparr>"

lemma pg_ok_size: "pg_ok pg \<Longrightarrow> pg_ptesize pg = 4 \<or> pg_ptesize pg = 8"
  by (auto simp: pg_ok_def paging_of_def split: if_splits)

lemma read_pte_at:
  "pg_ok pg \<Longrightarrow> pte_at pg m a = Some v \<Longrightarrow> read_pte pg m a = (v, m)"
  by (auto dest!: pg_ok_size simp: pte_at_def read_pte_def m32.read_ok m64.read_ok split: if_splits)

lemma read_pte_fault:
  "pg_ok pg \<Longrightarrow> mmio m a = None \<Longrightarrow> pte_at pg m a = None \<Longrightarrow> read_pte pg m a = (0, m\<lparr>mfault := True, mfault_addr := a\<rparr>)"
  by (auto dest!: pg_ok_size simp: pte_at_def read_pte_def m32.read_fault m64.read_fault split: if_splits)

lemma mmu_walk_ram:
  "ram_walk pg va level a m = Some r \<Longrightarrow> pg_ok pg \<Longrightarrow> \<not> mfault m \<Longrightarrow> mmu_walk pg va level a m = (Some r, m)"
proof (induction pg va level a m rule: ram_walk.induct)
  case (1 pg va level a m)
  note [simp] = ram_walk.simps [of pg va level a] mmu_walk.simps [of pg va level a]
  obtain pte where pte: "pte_at pg m (pte_addr pg va level a) = Some pte"
    using 1(2) by (auto split: option.splits)
  note read_pte_at [OF 1(3) pte, simp]
  show ?case
    using 1(1) [OF pte] 1(2-4) pte by (auto split: if_splits nat.splits)
qed

lemma mmu_walk_none:
  "ram_walk pg va level a m = None \<Longrightarrow> walk_in_ram pg va level a m \<Longrightarrow> pg_ok pg \<Longrightarrow> \<not> mfault m \<Longrightarrow>
   \<exists>f. mmu_walk pg va level a m = (None, m\<lparr>mfault_addr := f\<rparr>)"
proof (induction pg va level a m rule: ram_walk.induct)
  case (1 pg va level a m)
  note [simp] = ram_walk.simps [of pg va level a] mmu_walk.simps [of pg va level a] walk_in_ram.simps [of pg va level a]
  have id: "m\<lparr>mfault_addr := mfault_addr m\<rparr> = m" "mfault m = False \<Longrightarrow> m\<lparr>mfault := False\<rparr> = m"
    by simp_all
  show ?case
  proof (cases "pte_at pg m (pte_addr pg va level a)")
    case None
    then have "read_pte pg m (pte_addr pg va level a) = (0, m\<lparr>mfault := True, mfault_addr := pte_addr pg va level a\<rparr>)"
      using 1(3,4) by (intro read_pte_fault) auto
    moreover have "m\<lparr>mfault_addr := x, mfault := False\<rparr> = m\<lparr>mfault_addr := x\<rparr>" for x
      using 1(5) by (cases m) simp
    ultimately show ?thesis
      by auto
  next
    case (Some pte)
    note read_pte_at [OF 1(4) Some, simp]
    have "\<exists>f. (None :: (u64 \<times> u64 \<times> nat) option, m) = (None, m\<lparr>mfault_addr := f\<rparr>)"
      by (metis id(1))
    then show ?thesis
      using 1(1) [OF Some] 1(2-5) Some by (auto split: if_splits nat.splits)
  qed
qed

lemma page_shift: "shr (shl (shr va 12) 12) (12 + k) = shr va (12 + k)" for va :: u64
  by (rule bit_word_eqI) (auto simp: bits add.assoc dest: bit_imp_le_length)

lemma pte_addr_page: "pte_addr pg (shl (shr va 12) 12) level a = pte_addr pg va level a"
  by (simp add: pte_addr_def page_shift)

lemma ram_walk_page: "ram_walk pg (shl (shr va 12) 12) level a m = ram_walk pg va level a m"
proof (induction pg va level a m rule: ram_walk.induct)
  case (1 pg va level a m)
  show ?case
    unfolding ram_walk.simps [of pg _ level a] pte_addr_page
    using 1 by (auto split: option.splits nat.splits)
qed

lemma leaf_ppn_page: "leaf_ppn pg (shl (shr va 12) 12) pte level = leaf_ppn pg va pte level"
  using page_shift [of va 0] by (simp add: leaf_ppn_def Let_def)

lemma flags_mask:
  fixes f g k :: "'a::len word"
  assumes "f AND 0x3f = g AND 0x3f" "k AND 0x3f = k"
  shows "f AND k = g AND k"
proof -
  have "f AND k = (f AND 0x3f) AND k"
    using assms(2) by (simp only: and.assoc and.commute [of "0x3f" k])
  also have "\<dots> = g AND (k AND 0x3f)"
    by (simp only: assms(1) and.assoc and.commute [of "0x3f" k])
  finally show ?thesis
    by (simp only: assms(2))
qed

lemma perm_ok_flags: "f AND 0x3f = g AND 0x3f \<Longrightarrow> perm_ok c f acc pr = perm_ok c g acc pr"
  using flags_mask [of f g PTE_U] flags_mask [of f g PTE_R] flags_mask [of f g PTE_W] flags_mask [of f g PTE_X]
  by (cases acc) (simp_all add: perm_ok_def Let_def)

lemma flush_fields [simp]:
  "csr (mmu_flush c) = csr c" "xlen (mmu_flush c) = xlen c" "priv (mmu_flush c) = priv c"
  "satp_mode (mmu_flush c) = satp_mode c" "eff_priv (mmu_flush c) = eff_priv c" "perm_ok (mmu_flush c) = perm_ok c"
  "tlb_hit (mmu_flush c) va asid acc = False"
  by (auto simp: mmu_flush_def satp_mode_def eff_priv_def perm_ok_def status32_def tlb_hit_def fun_eq_iff Let_def)

lemma or_absorb: "x AND 2 ^ n \<noteq> 0 \<Longrightarrow> x OR 2 ^ n = x" for x :: "'a::len word"
  by (rule bit_word_eqI) (auto simp: bit_or_iff bit_exp_iff and_pow2_neq_0)

lemma dirty_absorb:
  fixes pte :: u64
  assumes "pte AND PTE_A \<noteq> 0" "acc = ACC_STORE \<longrightarrow> pte AND PTE_D \<noteq> 0"
  shows "pte OR PTE_A OR (if acc = ACC_STORE then PTE_D else 0) = pte"
proof -
  have "pte OR PTE_A = pte" "acc = ACC_STORE \<Longrightarrow> pte OR PTE_D = pte"
    using or_absorb [of pte 6] or_absorb [of pte 7] assms by simp_all
  then show ?thesis
    by (cases "acc = ACC_STORE") (simp_all only: or.assoc [symmetric] simp_thms if_True if_False or.right_neutral)
qed

lemma slow_same_tlb:
  "fst (mmu_slow (mmu_flush c) m pg satp va acc pr) = fst (mmu_slow c m pg satp va acc pr)"
  "snd (snd (mmu_slow (mmu_flush c) m pg satp va acc pr)) = snd (snd (mmu_slow c m pg satp va acc pr))"
  by (simp_all add: mmu_slow_def Let_def split: prod.splits option.splits)

lemma tlb_slot_less: "tlb_slot va < 16"
proof -
  have "tlb_slot va \<le> 15"
    by (simp add: tlb_slot_def word_and_le1)
  then show ?thesis
    by (simp add: word_le_nat_alt word_less_nat_alt)
qed

text \<open>Serving an access from a coherent entry gives what the walk gives, and the walk leaves memory alone.\<close>

lemma hit_equals_walk:
  assumes "pg_ok pg" "entry_ok pg satp m (tlb c (tlb_slot va))" "\<not> mfault m" "tlb_hit c va asid acc"
  shows "fst (mmu_slow c m pg satp va acc pr) =
      (if perm_ok c (t_pte_flags (tlb c (tlb_slot va))) acc pr then Inr (phys (t_ppn (tlb c (tlb_slot va))) va)
       else Inl (pf_cause acc)) \<and>
    snd (snd (mmu_slow c m pg satp va acc pr)) = m"
proof -
  define e where "e = tlb c (tlb_slot va)"
  have vpn: "t_vpn e = shr va 12" and dirty: "acc = ACC_STORE \<longrightarrow> t_pte_flags e AND PTE_D \<noteq> 0"
    using assms(4) by (auto simp: tlb_hit_def Let_def e_def)
  obtain pte pa level where w: "ram_walk pg va (pg_levels pg - 1) (root_of pg satp) m = Some (pte, pa, level)"
    and leaf: "leaf_ppn pg va pte level = Some (t_ppn e)"
    and a: "pte AND PTE_A \<noteq> 0" and d: "t_pte_flags e AND PTE_D \<noteq> 0 \<longrightarrow> pte AND PTE_D \<noteq> 0"
    and f: "t_pte_flags e AND 0x3f = ucast pte AND 0x3f"
    using assms(2) unfolding entry_ok_def e_def [symmetric] vpn ram_walk_page leaf_ppn_page
    by (auto split: option.splits)
  have new: "pte OR PTE_A OR (if acc = ACC_STORE then PTE_D else 0) = pte"
    using dirty d a by (intro dirty_absorb) auto
  show ?thesis
    using mmu_walk_ram [OF w assms(1,3)] leaf perm_ok_flags [OF f, of c acc pr] new
    unfolding e_def [symmetric] mmu_slow_def root_of_def by (simp add: Let_def split: if_splits)
qed

subsection \<open>Updating accessed and dirty bits\<close>

lemma aligned_apart:
  fixes d x w :: u64
  assumes "unat w dvd unat d" "d \<noteq> 0" "x < w" "unat w dvd 2 ^ 64"
  shows "w \<le> x + d"
proof -
  obtain q where q: "unat d = unat w * q"
    using assms(1) unfolding dvd_def by blast
  obtain r where r: "2 ^ 64 = unat w * r"
    using assms(4) unfolding dvd_def by blast
  have "q \<noteq> 0"
    using q assms(2) by (metis mult_0_right unsigned_eq_0_iff)
  then have le: "unat w \<le> unat d"
    using q by simp
  have "unat w * q < unat w * r"
    using unat_bound [of d] q r by simp
  then have "q + 1 \<le> r"
    by simp
  then have "unat w * (q + 1) \<le> unat w * r"
    by (rule mult_le_mono2)
  then have "unat d + unat w \<le> 2 ^ 64"
    using q r by simp
  then have "unat x + unat d < 2 ^ 64"
    using assms(3) by (simp add: word_less_nat_alt)
  then have "unat (x + d) = unat x + unat d"
    by (simp add: unat_word_ariths)
  then show ?thesis
    using le by (simp add: word_le_nat_alt)
qed

context byte_access
begin

lemma ld_st_aligned:
  assumes "unat w dvd unat (j - i)" "i \<noteq> j" "unat w dvd 2 ^ 64"
  shows "ld (st b i v) j = ld b j"
proof (rule ld_st_disjoint)
  fix k assume "k - j < w"
  then have "w \<le> (k - j) + (j - i)"
    using assms by (intro aligned_apart) auto
  then show "w \<le> k - i"
    by simp
qed

end

lemma dvd_diff_word:
  fixes a b :: u64
  assumes "n dvd unat a" "n dvd unat b" "n dvd 2 ^ 64"
  shows "n dvd unat (a - b)"
proof (cases "b \<le> a")
  case True
  then show ?thesis
    using assms by (simp add: unat_sub)
next
  case False
  then have "unat (a - b) + unat b = unat a + 2 ^ 64"
    using unat_bound [of a] unat_bound [of b] by (simp add: unat_sub_if' word_le_nat_alt)
  then show ?thesis
    using assms by (metis dvd_add dvd_add_left_iff)
qed

lemma pte_at_write:
  assumes "pg_ok pg" "pte_at pg m a = Some v" "pte_aligned pg a" "pte_aligned pg b"
    "pg_ptesize pg = 4 \<longrightarrow> n = ucast (ucast n :: u32)"
  shows "pte_at pg (write_pte pg m a n) b = (if b = a then Some n else pte_at pg m b)"
proof -
  have a: "mmio m a = None" "mem_in_range m a (pg_ptesize pg)"
    using assms(2) by (auto simp: pte_at_def split: if_splits)
  have dvd: "a \<noteq> b \<Longrightarrow> unat (pg_ptesize pg) dvd unat ((b - mbase m) - (a - mbase m))" "unat (pg_ptesize pg) dvd 2 ^ 64"
    "a \<noteq> b \<Longrightarrow> a - mbase m \<noteq> b - mbase m"
    using pg_ok_size [OF assms(1)] assms(3,4) dvd_diff_word [of "unat (pg_ptesize pg)" b a] by (auto simp: pte_aligned_def)
  show ?thesis
    using pg_ok_size [OF assms(1)]
  proof
    assume s: "pg_ptesize pg = 4"
    then show ?thesis
      using a assms(5) dvd b32.ld_st_aligned [of "b - mbase m" "a - mbase m"]
      by (auto simp: pte_at_def write_pte_def m32.write_ok b32.ld_st)
  next
    assume s: "pg_ptesize pg = 8"
    then show ?thesis
      using a dvd b64.ld_st_aligned [of "b - mbase m" "a - mbase m"]
      by (auto simp: pte_at_def write_pte_def m64.write_ok b64.ld_st)
  qed
qed

lemma page_aligned: "8 dvd unat (shl x 12)" for x :: u64
proof -
  have "unat (shl x 12) = unat x * 2 ^ 12 mod 2 ^ 64"
    by (simp add: shl_def push_bit_eq_mult unat_word_ariths)
  moreover have "(8::nat) dvd unat x * 2 ^ 12" "(8::nat) dvd 2 ^ 64"
    by (simp_all add: dvd_mult)
  ultimately show ?thesis
    by (metis dvd_mod)
qed

lemma pte_addr_aligned:
  assumes "pg_ok pg"
  shows "pte_aligned pg (pte_addr pg va level (shl x 12))"
proof -
  define n where "n = unat (pg_ptesize pg)"
  have n: "n = 4 \<or> n = 8"
    using pg_ok_size [OF assms] by (auto simp: n_def)
  define i where "i = shr va (12 + level * pg_vpnbits pg) AND (shl 1 (pg_vpnbits pg) - 1)"
  have "n dvd unat (shl x 12)"
    using page_aligned [of x] n by (auto intro: dvd_trans [of 4 8])
  moreover have "n dvd unat i * n" "n dvd 2 ^ 64"
    using n by auto
  ultimately have "n dvd (unat (shl x 12) + unat i * n mod 2 ^ 64) mod 2 ^ 64"
    by (intro dvd_mod dvd_add)
  moreover have "unat (shl x 12 + i * pg_ptesize pg) = (unat (shl x 12) + unat i * n mod 2 ^ 64) mod 2 ^ 64"
    by (simp add: unat_word_ariths n_def)
  ultimately show ?thesis
    by (simp add: pte_aligned_def pte_addr_def i_def [symmetric] n_def [symmetric])
qed

lemma same_leaf_bits:
  assumes "same_leaf p n"
  shows "n AND PTE_V = p AND PTE_V" "n AND PTE_R = p AND PTE_R" "n AND PTE_W = p AND PTE_W"
    "n AND (PTE_R OR PTE_X) = p AND (PTE_R OR PTE_X)"
  using assms by (auto simp: same_leaf_def intro!: flags_mask [of n p])

lemma ram_walk_write:
  assumes "pg_ok pg" "pte_at pg m x = Some p" "pte_aligned pg x" "p AND (PTE_R OR PTE_X) \<noteq> 0" "same_leaf p n"
    "pg_ptesize pg = 4 \<longrightarrow> n = ucast (ucast n :: u32)"
  shows "ram_walk pg va level (shl r 12) (write_pte pg m x n) =
    map_option (\<lambda>(pte, pa, l). (if pa = x then n else pte, pa, l)) (ram_walk pg va level (shl r 12) m)"
proof (induction level arbitrary: r)
  case 0
  show ?case
    using same_leaf_bits [OF assms(5)] assms(2,4)
    by (auto simp: ram_walk.simps [of pg va 0] pte_at_write [OF assms(1-3) pte_addr_aligned [OF assms(1)] assms(6)] split: option.splits)
next
  case (Suc l)
  show ?case
    using same_leaf_bits [OF assms(5)] assms(2,4) Suc
    by (auto simp: ram_walk.simps [of pg va "Suc l"] pte_at_write [OF assms(1-3) pte_addr_aligned [OF assms(1)] assms(6)] split: option.splits)
qed

lemma ram_walk_leaf:
  "ram_walk pg va level (shl r 12) m = Some (pte, x, l) \<Longrightarrow> pg_ok pg \<Longrightarrow>
   pte_at pg m x = Some pte \<and> pte_aligned pg x \<and> pte AND (PTE_R OR PTE_X) \<noteq> 0"
  by (induction level arbitrary: r)
     (auto simp: ram_walk.simps [of pg va] pte_addr_aligned split: option.splits if_splits)

lemma same_leaf_new:
  "same_leaf pte (pte OR PTE_A OR (if acc = ACC_STORE then PTE_D else 0))"
  by (simp add: same_leaf_def bit.conj_disj_distrib2 shr_def drop_bit_or)

lemma new_pte_32:
  fixes v :: u32
  shows "new_pte (ucast v) acc = ucast (ucast (new_pte (ucast v) acc) :: u32)"
proof -
  have "ucast (ucast (ucast w :: u64) :: u32) = (ucast w :: u64)" for w :: u32
    by (rule bit_word_eqI) (auto simp: bits dest: bit_imp_le_length)
  moreover have "new_pte (ucast v) acc = ucast (v OR PTE_A OR (if acc = ACC_STORE then PTE_D else 0))"
    by (simp add: new_pte_def unsigned_or_eq)
  ultimately show ?thesis
    by metis
qed

lemma new_pte_fits:
  "pg_ok pg \<Longrightarrow> pte_at pg m x = Some pte \<Longrightarrow> pg_ptesize pg = 4 \<longrightarrow> new_pte pte acc = ucast (ucast (new_pte pte acc) :: u32)"
  using new_pte_32 by (auto simp: pte_at_def split: if_splits)

lemma ad_update_data:
  assumes "pg_ok pg" "pte_at pg m x = Some p"
  shows "\<exists>d. ad_update pg m x pte acc = m\<lparr>mdata := d\<rparr>"
proof -
  have "\<exists>d. m = m\<lparr>mdata := d\<rparr>"
    by (rule exI [of _ "mdata m"]) simp
  then show ?thesis
    using pg_ok_size [OF assms(1)] assms(2)
    by (auto simp: ad_update_def write_pte_def pte_at_def m32.write_ok m64.write_ok split: if_splits)
qed

lemma mmu_slow_found:
  assumes "pg_ok pg" "\<not> mfault m" "ram_walk pg va (pg_levels pg - 1) (root_of pg satp) m = Some (pte, x, level)"
  shows "mmu_slow c m pg satp va acc pr =
    (if perm_ok c (ucast pte) acc pr \<and> leaf_ppn pg va pte level \<noteq> None
     then (Inr (phys (the (leaf_ppn pg va pte level)) va),
           c\<lparr>tlb := (tlb c)(tlb_slot va := \<lparr>t_valid = True, t_vpn = shr va 12, t_asid = ucast (pg_asid pg),
             t_ppn = the (leaf_ppn pg va pte level), t_pte_flags = ucast (new_pte pte acc AND 0xff)\<rparr>)\<rparr>,
           ad_update pg m x pte acc)
     else (Inl (pf_cause acc), c, m))"
  using mmu_walk_ram [OF assms(3,1,2)]
  by (auto simp: mmu_slow_def root_of_def Let_def new_pte_def ad_update_def split: option.splits)

lemma mmu_slow_not_found:
  assumes "pg_ok pg" "\<not> mfault m" "ram_walk pg va (pg_levels pg - 1) (root_of pg satp) m = None"
    "walk_in_ram pg va (pg_levels pg - 1) (root_of pg satp) m"
  shows "\<exists>f. mmu_slow c m pg satp va acc pr = (Inl (pf_cause acc), c, m\<lparr>mfault_addr := f\<rparr>)"
  using mmu_walk_none [OF assms(3,4,1,2)] by (auto simp: mmu_slow_def root_of_def)

lemma pte_at_fault_addr [simp]: "pte_at pg (m\<lparr>mfault_addr := f\<rparr>) a = pte_at pg m a"
  by (simp add: pte_at_def mmio_def mem_in_range_def)

lemma ram_walk_fault_addr [simp]: "ram_walk pg va level a (m\<lparr>mfault_addr := f\<rparr>) = ram_walk pg va level a m"
  by (induction pg va level a m rule: ram_walk.induct) (auto simp: ram_walk.simps split: option.splits nat.splits)

lemma entry_ok_fault_addr [simp]: "entry_ok pg satp (m\<lparr>mfault_addr := f\<rparr>) e = entry_ok pg satp m e"
  by (simp add: entry_ok_def)

lemma ram_walk_ad:
  assumes "pg_ok pg" "ram_walk pg va level (shl r 12) m = Some (pte, x, l)"
  shows "ram_walk pg va' level' (shl r' 12) (ad_update pg m x pte acc) =
    map_option (\<lambda>(p, y, k). (if y = x then new_pte pte acc else p, y, k)) (ram_walk pg va' level' (shl r' 12) m)"
proof -
  note leaf = ram_walk_leaf [OF assms(2,1)]
  show ?thesis
  proof (cases "new_pte pte acc = pte")
    case True
    have "p = pte" if "ram_walk pg va' level' (shl r' 12) m = Some (p, x, k)" for p k
      using ram_walk_leaf [OF that assms(1)] leaf by simp
    then have "map_option (\<lambda>(p, y, k). (if y = x then pte else p, y, k)) (ram_walk pg va' level' (shl r' 12) m)
        = ram_walk pg va' level' (shl r' 12) m"
      by (auto simp: map_option_case split: option.splits)
    then show ?thesis
      unfolding ad_update_def True by simp
  next
    case False
    then show ?thesis
      using ram_walk_write [of pg m x pte "new_pte pte acc"] leaf assms(1) new_pte_fits [OF assms(1), of m x pte]
        same_leaf_new [of pte acc] by (simp add: ad_update_def new_pte_def [symmetric])
  qed
qed

lemma leaf_ppn_same: "same_leaf p n \<Longrightarrow> leaf_ppn pg va n level = leaf_ppn pg va p level"
  by (simp add: leaf_ppn_def same_leaf_def Let_def)

lemma new_pte_bits:
  "pte AND PTE_A \<noteq> 0 \<Longrightarrow> new_pte pte acc AND PTE_A \<noteq> 0" "pte AND PTE_D \<noteq> 0 \<Longrightarrow> new_pte pte acc AND PTE_D \<noteq> 0"
  "new_pte pte acc AND PTE_A \<noteq> 0" "acc = ACC_STORE \<Longrightarrow> new_pte pte acc AND PTE_D \<noteq> 0"
  using and_pow2_neq_0 [of pte 6] and_pow2_neq_0 [of pte 7]
    and_pow2_neq_0 [of "new_pte pte acc" 6] and_pow2_neq_0 [of "new_pte pte acc" 7]
  by (simp_all add: new_pte_def bit_or_iff)

lemma ucast_and_down: "(ucast (a AND b) :: u32) = ucast a AND ucast b" for a b :: u64
  by (rule bit_word_eqI) (auto simp: bits bit_simps)

lemma ucast_low6: "same_leaf p n \<Longrightarrow> (ucast n :: u32) AND 0x3f = ucast p AND 0x3f"
proof -
  assume "same_leaf p n"
  then have "(ucast (n AND 0x3f) :: u32) = ucast (p AND 0x3f)"
    by (simp add: same_leaf_def)
  then show ?thesis
    by (simp add: ucast_and_down)
qed

lemma entry_ok_ad:
  assumes "pg_ok pg" "ram_walk pg va level (shl r 12) m = Some (pte, x, l)" "entry_ok pg satp m e"
  shows "entry_ok pg satp (ad_update pg m x pte acc) e"
proof -
  obtain p y k where w: "ram_walk pg (shl (t_vpn e) 12) (pg_levels pg - 1) (root_of pg satp) m = Some (p, y, k)"
    and e: "leaf_ppn pg (shl (t_vpn e) 12) p k = Some (t_ppn e)" "p AND PTE_A \<noteq> 0"
      "t_pte_flags e AND PTE_D \<noteq> 0 \<longrightarrow> p AND PTE_D \<noteq> 0" "t_pte_flags e AND 0x3f = ucast p AND 0x3f"
    using assms(3) by (auto simp: entry_ok_def split: option.splits)
  have same: "y = x \<Longrightarrow> p = pte"
    using ram_walk_leaf [OF assms(2,1)] ram_walk_leaf [OF w [unfolded root_of_def] assms(1)] by simp
  note sl = same_leaf_new [of pte acc, folded new_pte_def]
  show ?thesis
    using w e same ram_walk_ad [OF assms(1,2), of "shl (t_vpn e) 12" "pg_levels pg - 1" "satp AND pg_ppnmask pg"]
      leaf_ppn_same [OF sl] new_pte_bits [where pte = pte and acc = acc] ucast_low6 [OF sl]
    by (cases "y = x") (simp_all add: entry_ok_def root_of_def)
qed

lemma entry_ok_new:
  assumes "pg_ok pg" "ram_walk pg va (pg_levels pg - 1) (root_of pg satp) m = Some (pte, x, l)" "leaf_ppn pg va pte l = Some ppn"
    "t_vpn e = shr va 12" "t_ppn e = ppn" "t_pte_flags e = ucast (new_pte pte acc AND 0xff)"
  shows "entry_ok pg satp (ad_update pg m x pte acc) e"
proof -
  note sl = same_leaf_new [of pte acc, folded new_pte_def]
  have flags: "t_pte_flags e = ucast (new_pte pte acc) AND 0xff"
    using assms(6) by (simp add: ucast_and_down)
  have "t_pte_flags e AND 0x3f = ucast (new_pte pte acc) AND 0x3f"
    unfolding flags by (simp add: and.assoc)
  moreover have "new_pte pte acc AND PTE_D \<noteq> 0" if "t_pte_flags e AND PTE_D \<noteq> 0"
  proof -
    have "(ucast (new_pte pte acc AND PTE_D) :: u32) \<noteq> 0"
      using that unfolding flags by (simp add: and.assoc ucast_and_down)
    then show ?thesis
      by auto
  qed
  ultimately show ?thesis
    using ram_walk_ad [OF assms(1) assms(2) [unfolded root_of_def], of va "pg_levels pg - 1" "satp AND pg_ppnmask pg" acc]
      assms(2,3,5) leaf_ppn_same [OF sl] new_pte_bits [where pte = pte and acc = acc]
    unfolding entry_ok_def assms(4) ram_walk_page leaf_ppn_page by (simp add: root_of_def)
qed

lemma asid_fits: "ucast (ucast (pg_asid (paging_of scheme satp)) :: u32) = pg_asid (paging_of scheme satp)"
proof -
  have *: "ucast (ucast (y AND mask 16) :: u32) = y AND (mask 16 :: u64)" for y
    by (rule bit_word_eqI) (auto simp: bits bit_simps)
  have "shr satp 44 AND 0xffff = (shr satp 44 AND 0xffff) AND (mask 16 :: u64)"
    "shr satp 22 AND 0x1ff = (shr satp 22 AND 0x1ff) AND (mask 16 :: u64)"
    by (simp_all add: mask_eq_exp_minus_1 and.assoc)
  then show ?thesis
    using * by (metis (no_types, lifting) Paging.select_convs(5) paging_of_def)
qed

lemma tlb_upd_fields: "csr (c\<lparr>tlb := t\<rparr>) = csr c" "satp_mode (c\<lparr>tlb := t\<rparr>) = satp_mode c" "tlb (c\<lparr>tlb := t\<rparr>) = t"
  by (simp_all add: satp_mode_def fun_eq_iff)

lemma slow_granted:
  assumes pg: "pg_ok pg" and m: "\<not> mfault m" and ram: "walk_in_ram pg va (pg_levels pg - 1) (root_of pg satp) m"
    and slow: "mmu_slow c m pg satp va acc (eff_priv c acc) = (r, c', m')"
  shows "case r of Inr pa \<Rightarrow> granted c pg satp va acc m' pa
    | Inl cause \<Rightarrow> cause = pf_cause acc \<and> c' = c \<and> mdata m' = mdata m \<and> refused c pg satp va acc m"
proof (cases "ram_walk pg va (pg_levels pg - 1) (root_of pg satp) m")
  case None
  then show ?thesis
    using mmu_slow_not_found [OF pg m None ram, of c acc "eff_priv c acc"] slow by (auto simp: refused_def)
next
  case (Some leaf)
  then obtain pte x l where w: "ram_walk pg va (pg_levels pg - 1) (root_of pg satp) m = Some (pte, x, l)"
    by (metis prod_cases3)
  note found = mmu_slow_found [OF pg m w, of c acc "eff_priv c acc"]
  show ?thesis
  proof (cases "perm_ok c (ucast pte) acc (eff_priv c acc) \<and> leaf_ppn pg va pte l \<noteq> None")
    case False
    then show ?thesis
      using slow found w by (auto simp: refused_def)
  next
    case True
    note sl = same_leaf_new [of pte acc, folded new_pte_def]
    have r: "r = Inr (phys (the (leaf_ppn pg va pte l)) va)" "m' = ad_update pg m x pte acc"
      using slow found True by auto
    have "ram_walk pg va (pg_levels pg - 1) (root_of pg satp) m' = Some (new_pte pte acc, x, l)"
      using ram_walk_ad [OF pg w [unfolded root_of_def], of va "pg_levels pg - 1" "satp AND pg_ppnmask pg" acc] w
      by (simp add: r root_of_def)
    moreover have "perm_ok c (ucast (new_pte pte acc)) acc (eff_priv c acc)"
      using perm_ok_flags [OF ucast_low6 [OF sl]] True by simp
    ultimately show ?thesis
      using r True leaf_ppn_same [OF sl] new_pte_bits [where pte = pte and acc = acc] by (auto simp: granted_def)
  qed
qed

lemma hit_granted:
  assumes "entry_ok pg satp m (tlb c (tlb_slot va))" "tlb_hit c va asid acc"
  defines "e \<equiv> tlb c (tlb_slot va)"
  shows "if perm_ok c (t_pte_flags e) acc (eff_priv c acc) then granted c pg satp va acc m (phys (t_ppn e) va)
    else refused c pg satp va acc m"
proof -
  have vpn: "t_vpn e = shr va 12" and dirty: "acc = ACC_STORE \<longrightarrow> t_pte_flags e AND PTE_D \<noteq> 0"
    using assms(2) by (auto simp: tlb_hit_def Let_def e_def)
  obtain pte pa level where w: "ram_walk pg va (pg_levels pg - 1) (root_of pg satp) m = Some (pte, pa, level)"
    and leaf: "leaf_ppn pg va pte level = Some (t_ppn e)"
    and a: "pte AND PTE_A \<noteq> 0" and d: "t_pte_flags e AND PTE_D \<noteq> 0 \<longrightarrow> pte AND PTE_D \<noteq> 0"
    and f: "t_pte_flags e AND 0x3f = ucast pte AND 0x3f"
    using assms(1) unfolding entry_ok_def e_def [symmetric] vpn ram_walk_page leaf_ppn_page
    by (auto split: option.splits)
  show ?thesis
    using w leaf a d dirty perm_ok_flags [OF f, of c acc "eff_priv c acc"] by (auto simp: granted_def refused_def)
qed

subsection \<open>A concrete Sv39 address space\<close>

lemma demo_state:
  "csr demo_cpu CSR_SATP = 0x8000000000080001" "xlen demo_cpu = 64" "satp_mode demo_cpu 0x8000000000080001 = PT_SV39"
  "eff_priv demo_cpu acc = PRIV_S" "\<not> mfault demo_mem"
  by (simp_all add: demo_cpu_def cpu_init_def mmu_flush_def satp_mode_def eff_priv_def status32_def demo_mem_def mem_init_def evals)

lemma demo_paging:
  "paging_of PT_SV39 0x8000000000080001 =
     \<lparr>pg_levels = 3, pg_ptesize = 8, pg_vpnbits = 9, pg_ppnmask = 0xfffffffffff, pg_asid = 0\<rparr>"
  by (simp add: paging_of_def evals)

lemma demo_walk:
  assumes "va = 0x80002abc \<or> va = 0x80002000"
  defines "pg \<equiv> paging_of PT_SV39 0x8000000000080001"
  shows "ram_walk pg va 2 (root_of pg 0x8000000000080001) demo_mem = Some (0x2000004f, 0x80001010, 2)"
    "walk_in_ram pg va 2 (root_of pg 0x8000000000080001) demo_mem" "leaf_ppn pg va 0x2000004f 2 = Some 0x80002"
proof -
  have a: "pte_addr pg va 2 (root_of pg 0x8000000000080001) = 0x80001010"
    using assms(1) by (auto simp: pte_addr_def root_of_def pg_def demo_paging evals)
  have p: "pte_at pg demo_mem 0x80001010 = Some 0x2000004f" "mmio demo_mem x = None" for x
    by (simp_all add: pte_at_def pg_def demo_paging demo_mem_def mem_init_def mmio_def mem_in_range_def b64.ld_st)
  show "ram_walk pg va 2 (root_of pg 0x8000000000080001) demo_mem = Some (0x2000004f, 0x80001010, 2)"
    by (simp add: ram_walk.simps a p)
  show "walk_in_ram pg va 2 (root_of pg 0x8000000000080001) demo_mem"
    by (simp add: walk_in_ram.simps a p)
  show "leaf_ppn pg va 0x2000004f 2 = Some 0x80002"
    using assms(1) by (auto simp: leaf_ppn_def pg_def demo_paging evals Let_def)
qed

lemma demo_coherent: "tlb_coherent demo_cpu demo_mem"
proof -
  have e: "tlb demo_cpu i = (if i = 2 then \<lparr>t_valid = True, t_vpn = 0x80002, t_asid = 0, t_ppn = 0x80002, t_pte_flags = 0x4f\<rparr>
      else \<lparr>t_valid = False, t_vpn = 0, t_asid = 0, t_ppn = 0, t_pte_flags = 0\<rparr>)" for i
    by (simp add: demo_cpu_def)
  have "shl 0x80002 12 = (0x80002000 :: u64)"
    by (simp add: evals)
  then show ?thesis
    using demo_walk [of "0x80002000"] unfolding tlb_coherent_def Let_def demo_state e entry_ok_def
    by (auto simp: demo_paging)
qed

lemma demo_tables: "tables_in_ram demo_cpu demo_mem 0x80002abc"
  using demo_walk(2) [of "0x80002abc"] by (simp add: tables_in_ram_def Let_def demo_state demo_paging)

subsection \<open>Properties\<close>

text \<open>
  C8: the TLB is transparent. When its entries agree with the page tables (as after a flush, and
  kept by every translation), the result of \<open>mmu_translate\<close> - fault cause or physical address - and
  its effect on memory are those of the page-table walk with an empty TLB, for every address, access
  and privilege.
\<close>

theorem mmu_tlb_transparent:
  assumes "tlb_coherent c m" "\<not> mfault m"
  shows "fst (mmu_translate c m va acc) = fst (mmu_translate (mmu_flush c) m va acc) \<and>
    snd (snd (mmu_translate c m va acc)) = snd (snd (mmu_translate (mmu_flush c) m va acc))"
proof -
  define va' where "va' = (if xlen c = 32 then va AND 0xffffffff else va)"
  define scheme where "scheme = satp_mode c (csr c CSR_SATP)"
  define pg where "pg = paging_of scheme (csr c CSR_SATP)"
  have pg: "pg_ok pg"
    by (auto simp: pg_ok_def pg_def)
  show ?thesis
  proof (cases "scheme \<noteq> PT_BARE \<and> scheme \<noteq> PT_UNSUPPORTED \<and> tlb_hit c va' (pg_asid pg) acc")
    case False
    then show ?thesis
      unfolding mmu_translate_def Let_def flush_fields scheme_def [symmetric] pg_def [symmetric] va'_def [symmetric]
      by (auto simp: slow_same_tlb)
  next
    case True
    then have "scheme = PT_SV32 \<or> scheme = PT_SV39"
      by (cases scheme) auto
    then have "entry_ok pg (csr c CSR_SATP) m (tlb c (tlb_slot va'))"
      using assms(1) True tlb_slot_less [of va'] by (auto simp: tlb_coherent_def Let_def tlb_hit_def scheme_def pg_def)
    note slow = hit_equals_walk [OF pg this assms(2) conjunct2 [OF conjunct2 [OF True]]]
    show ?thesis
      unfolding mmu_translate_def Let_def flush_fields scheme_def [symmetric] pg_def [symmetric] va'_def [symmetric]
      using True by (auto simp: slow_same_tlb slow)
  qed
qed

theorem mmu_tlb_transparent_witness:
  "fst (mmu_translate demo_cpu demo_mem 0x80002abc ACC_LOAD) = fst (mmu_translate (mmu_flush demo_cpu) demo_mem 0x80002abc ACC_LOAD)"
  using mmu_tlb_transparent [OF demo_coherent demo_state(5)] by simp

text \<open>
  C9: translation keeps the TLB coherent. From a coherent state, with the visited page tables in RAM, the
  state after any \<open>mmu_translate\<close> - a hit, a fault, or a walk that sets accessed and dirty bits in
  the tables other entries share and fills a slot - is coherent again and records no memory fault;
  the flushed TLB is coherent with any memory.
\<close>

theorem mmu_tlb_coherent_kept:
  assumes "tlb_coherent c m" "\<not> mfault m" "tables_in_ram c m va" "mmu_translate c m va acc = (r, c', m')"
  shows "tlb_coherent c' m' \<and> \<not> mfault m' \<and> tlb_coherent (mmu_flush c) m"
proof -
  define va' where "va' = (if xlen c = 32 then va AND 0xffffffff else va)"
  define satp where "satp = csr c CSR_SATP"
  define scheme where "scheme = satp_mode c satp"
  define pg where "pg = paging_of scheme satp"
  have pg: "pg_ok pg"
    by (auto simp: pg_ok_def pg_def)
  have flush: "tlb_coherent (mmu_flush c) m"
    by (simp add: tlb_coherent_def mmu_flush_def)
  note folds = satp_def [symmetric] scheme_def [symmetric] pg_def [symmetric] va'_def [symmetric]
  consider "c' = c" "m' = m" | "mmu_slow c m pg satp va' acc (eff_priv c acc) = (r, c', m')"
    "scheme = PT_SV32 \<or> scheme = PT_SV39"
    using assms(4) unfolding mmu_translate_def Let_def folds
    by (cases scheme) (auto split: if_splits)
  then show ?thesis
  proof cases
    case 2
    have entries: "\<And>i. i < 16 \<Longrightarrow> t_valid (tlb c i) \<Longrightarrow> ucast (t_asid (tlb c i)) = pg_asid pg \<Longrightarrow> entry_ok pg satp m (tlb c i)"
      using assms(1) 2(2) unfolding tlb_coherent_def Let_def folds by auto
    show ?thesis
    proof (cases "ram_walk pg va' (pg_levels pg - 1) (root_of pg satp) m")
      case None
      then have "\<exists>f. c' = c \<and> m' = m\<lparr>mfault_addr := f\<rparr>"
        using mmu_slow_not_found [OF pg assms(2) None, of c acc "eff_priv c acc"] assms(3) 2(1)
        unfolding tables_in_ram_def Let_def folds by auto
      then show ?thesis
        using assms(1,2) flush by (auto simp: tlb_coherent_def Let_def)
    next
      case (Some leaf)
      then obtain pte x l where w: "ram_walk pg va' (pg_levels pg - 1) (root_of pg satp) m = Some (pte, x, l)"
        by (metis prod_cases3)
      show ?thesis
      proof (cases "perm_ok c (ucast pte) acc (eff_priv c acc) \<and> leaf_ppn pg va' pte l \<noteq> None")
        case False
        then show ?thesis
          using 2(1) mmu_slow_found [OF pg assms(2) w] assms(1,2) flush by auto
      next
        case True
        define e where "e = \<lparr>t_valid = True, t_vpn = shr va' 12, t_asid = ucast (pg_asid pg),
             t_ppn = the (leaf_ppn pg va' pte l), t_pte_flags = ucast (new_pte pte acc AND 0xff)\<rparr>"
        have c': "c' = c\<lparr>tlb := (tlb c)(tlb_slot va' := e)\<rparr>" and m': "m' = ad_update pg m x pte acc"
          using 2(1) mmu_slow_found [OF pg assms(2) w] True by (auto simp: e_def)
        have "entry_ok pg satp m' e"
          unfolding m' using True by (intro entry_ok_new [OF pg w]) (auto simp: e_def)
        moreover have "entry_ok pg satp m' (tlb c i)"
          if "i < 16" "t_valid (tlb c i)" "ucast (t_asid (tlb c i)) = pg_asid pg" for i
          unfolding m' using entry_ok_ad [OF pg w [unfolded root_of_def] entries [OF that]] .
        moreover have "\<not> mfault m'"
          unfolding m' using ad_update_data [OF pg conjunct1 [OF ram_walk_leaf [OF w [unfolded root_of_def] pg]], of pte acc] assms(2)
          by auto
        ultimately have "tlb_coherent c' m'"
          unfolding tlb_coherent_def c' Let_def tlb_upd_fields folds by simp
        then show ?thesis
          using flush \<open>\<not> mfault m'\<close> by simp
      qed
    qed
  qed (use assms(1,2) flush in simp)
qed

theorem mmu_tlb_coherent_kept_witness:
  "tlb_coherent (fst (snd (mmu_translate demo_cpu demo_mem 0x80002abc ACC_STORE)))
     (snd (snd (mmu_translate demo_cpu demo_mem 0x80002abc ACC_STORE)))"
  using mmu_tlb_coherent_kept [OF demo_coherent demo_state(5) demo_tables] by (metis prod.collapse)



end
