(* ===== verification/Csr.thy ===== *)
theory Csr
  imports Mmu
begin

text \<open>
  The control and status registers, trap entry and return, and interrupt delivery of
  \<open>src/src/cpu.c\<close>, as functions on one hart. They read the platform (the devices' interrupt lines)
  and never change it; what reaches other harts or memory is in theory \<open>Trap\<close>.
\<close>

abbreviation (input) MENVCFG_STCE :: u64 where "MENVCFG_STCE \<equiv> 0x8000000000000000"

text \<open>The device-owned bits of \<open>mip\<close>: MSIP, MTIP, MEIP and SEIP.\<close>

abbreviation (input) MIP_DEVICE :: u32 where "MIP_DEVICE \<equiv> 0xa88"

subsection \<open>Pending interrupts\<close>

definition live_mip :: "CPU \<Rightarrow> Platform option \<Rightarrow> u32" where
  "live_mip c plat =
     (let mip = ucast (csr c CSR_MIP)
      in case plat of
           None \<Rightarrow> mip
         | Some p \<Rightarrow> (mip AND NOT MIP_DEVICE) OR plat_mip_bits p (hartid c))"

definition first_pending :: "u32 \<Rightarrow> nat list \<Rightarrow> nat option" where
  "first_pending pend order = List.find (\<lambda>i. pend AND shl 1 i \<noteq> 0) order"

definition topi_value :: "CPU \<Rightarrow> Platform option \<Rightarrow> bool \<Rightarrow> u64" where
  "topi_value c plat to_s =
     (let pend = live_mip c plat AND ucast (csr c CSR_MIE);
          del = ucast (csr c CSR_MIDELEG);
          pend = pend AND (if to_s then del else NOT del)
      in case first_pending pend [IRQ_MEXT, IRQ_MSOFT, IRQ_MTIMER, IRQ_SEXT, IRQ_SSOFT, IRQ_STIMER, 13] of
           Some i \<Rightarrow> shl (of_nat i) 16 OR 1
         | None \<Rightarrow> 0)"

subsection \<open>CSR access\<close>

definition csr_read :: "CPU \<Rightarrow> Platform option \<Rightarrow> u32 \<Rightarrow> u64" where
  "csr_read c plat addr =
     (if addr = CSR_FFLAGS then csr c CSR_FCSR AND 0x1f
      else if addr = CSR_FRM then shr (csr c CSR_FCSR) 5 AND 0x7
      else if addr = CSR_CYCLE \<or> addr = CSR_TIME \<or> addr = CSR_INSTRET then instret c
      else if addr = CSR_CYCLEH \<or> addr = CSR_TIMEH \<or> addr = CSR_INSTRETH then shr (instret c) 32
      else if addr = CSR_SSTATUS then csr c CSR_MSTATUS AND SSTATUS_MASK
      else if addr = CSR_SIE then csr c CSR_MIE AND S_INT_MASK
      else if addr = CSR_SIP then csr c CSR_MIP AND S_INT_MASK
      else if addr = CSR_MTOPI then topi_value c plat False
      else if addr = CSR_STOPI then topi_value c plat True
      else csr c addr)"

definition csr_write :: "CPU \<Rightarrow> u32 \<Rightarrow> u64 \<Rightarrow> CPU" where
  "csr_write c addr val =
     (if addr = CSR_FCSR then set_csr CSR_FCSR (val AND 0xff) c
      else if addr = CSR_FFLAGS then set_csr CSR_FCSR ((csr c CSR_FCSR AND NOT 0x1f) OR (val AND 0x1f)) c
      else if addr = CSR_FRM then set_csr CSR_FCSR ((csr c CSR_FCSR AND NOT 0xe0) OR shl (val AND 0x7) 5) c
      else if addr = CSR_SSTATUS then
        set_csr CSR_MSTATUS ((csr c CSR_MSTATUS AND NOT SSTATUS_MASK) OR (val AND SSTATUS_MASK)) c
      else if addr = CSR_SIE then set_csr CSR_MIE ((csr c CSR_MIE AND NOT S_INT_MASK) OR (val AND S_INT_MASK)) c
      else if addr = CSR_SIP then set_csr CSR_MIP ((csr c CSR_MIP AND NOT S_INT_MASK) OR (val AND S_INT_MASK)) c
      else if addr = CSR_SATP then
        (if \<not> mmu_satp_supported c val then c else mmu_flush (set_csr CSR_SATP val c))
      else set_csr addr val c)"

subsection \<open>Trap entry and return\<close>

text \<open>Stacking the interrupt enable and the privilege in \<open>mstatus\<close> for a trap into S or M, and popping them.\<close>

definition s_stack :: "u64 \<Rightarrow> u32 \<Rightarrow> u64" where
  "s_stack s pr =
     (let s = (s AND NOT MSTATUS_SPIE) OR (if s AND MSTATUS_SIE \<noteq> 0 then MSTATUS_SPIE else 0);
          s = s AND NOT MSTATUS_SIE
      in (s AND NOT MSTATUS_SPP) OR (if pr \<noteq> 0 then MSTATUS_SPP else 0))"

definition m_stack :: "u64 \<Rightarrow> u32 \<Rightarrow> u64" where
  "m_stack s pr =
     (let s = (s AND NOT MSTATUS_MPIE) OR (if s AND MSTATUS_MIE \<noteq> 0 then MSTATUS_MPIE else 0);
          s = s AND NOT MSTATUS_MIE
      in (s AND NOT MSTATUS_MPP) OR ucast (shl pr MSTATUS_MPP_SHIFT))"

definition s_unstack :: "u64 \<Rightarrow> u64" where
  "s_unstack s =
     (let s = (s AND NOT MSTATUS_SIE) OR (if s AND MSTATUS_SPIE \<noteq> 0 then MSTATUS_SIE else 0);
          s = s OR MSTATUS_SPIE
      in s AND NOT MSTATUS_SPP)"

definition m_unstack :: "u64 \<Rightarrow> u64" where
  "m_unstack s =
     (let s = (s AND NOT MSTATUS_MIE) OR (if s AND MSTATUS_MPIE \<noteq> 0 then MSTATUS_MIE else 0);
          s = s OR MSTATUS_MPIE
      in s AND NOT MSTATUS_MPP)"

definition enter_trap :: "CPU \<Rightarrow> u64 \<Rightarrow> u64 \<Rightarrow> bool \<Rightarrow> CPU" where
  "enter_trap c cause tval to_s =
     (let tvec = csr c (if to_s then CSR_STVEC else CSR_MTVEC);
          c = (if to_s
               then c\<lparr>csr := (csr c)(CSR_SEPC := pc c, CSR_SCAUSE := cause, CSR_STVAL := tval,
                        CSR_MSTATUS := s_stack (csr c CSR_MSTATUS) (priv c)), priv := PRIV_S\<rparr>
               else c\<lparr>csr := (csr c)(CSR_MEPC := pc c, CSR_MCAUSE := cause, CSR_MTVAL := tval,
                        CSR_MSTATUS := m_stack (csr c CSR_MSTATUS) (priv c)), priv := PRIV_M\<rparr>);
          intbit = cause_interrupt c;
          base = tvec AND NOT 0x3;
          base = (if cause AND intbit \<noteq> 0 \<and> tvec AND 0x1 \<noteq> 0 then base + 4 * (cause AND NOT intbit) else base)
      in c\<lparr>pc := base, trapped := True\<rparr>)"

text \<open>The two returns once their privilege check has passed: the popped hart and the PC to resume at.\<close>

definition mret_pop :: "CPU \<Rightarrow> CPU \<times> u64" where
  "mret_pop c =
     (let s = csr c CSR_MSTATUS;
          mpp = ucast (shr (s AND MSTATUS_MPP) MSTATUS_MPP_SHIFT) :: u32;
          s = m_unstack s;
          s = (if mpp \<noteq> PRIV_M then s AND NOT MSTATUS_MPRV else s)
      in ((set_csr CSR_MSTATUS s c)\<lparr>priv := mpp\<rparr>, csr c CSR_MEPC))"

definition sret_pop :: "CPU \<Rightarrow> CPU \<times> u64" where
  "sret_pop c =
     (let s = csr c CSR_MSTATUS;
          spp = (if s AND MSTATUS_SPP \<noteq> 0 then PRIV_S else PRIV_U)
      in ((set_csr CSR_MSTATUS (s_unstack s AND NOT MSTATUS_MPRV) c)\<lparr>priv := spp\<rparr>, csr c CSR_SEPC))"

subsection \<open>Interrupt delivery\<close>

definition effective_mip :: "CPU \<Rightarrow> Platform option \<Rightarrow> u32 \<times> CPU" where
  "effective_mip c plat =
     (let mip = ucast (csr c CSR_MIP)
      in case plat of
           None \<Rightarrow> (mip, c)
         | Some p \<Rightarrow>
             (let mip = (mip AND NOT MIP_DEVICE) OR plat_mip_bits p (hartid c)
              in (mip, set_csr CSR_MIP (ucast mip) c)))"

definition m_open :: "CPU \<Rightarrow> bool" where
  "m_open c = (priv c < PRIV_M \<or> priv c = PRIV_M \<and> csr c CSR_MSTATUS AND MSTATUS_MIE \<noteq> 0)"

definition s_open :: "CPU \<Rightarrow> bool" where
  "s_open c = (priv c < PRIV_S \<or> priv c = PRIV_S \<and> csr c CSR_MSTATUS AND MSTATUS_SIE \<noteq> 0)"

definition delegated :: "CPU \<Rightarrow> nat \<Rightarrow> bool" where
  "delegated c i = (shr (ucast (csr c CSR_MIDELEG) :: u32) i AND 1 \<noteq> 0)"

fun deliver :: "CPU \<Rightarrow> u32 \<Rightarrow> nat list \<Rightarrow> bool \<times> CPU" where
  "deliver c pending [] = (False, c)"
| "deliver c pending (i # is) =
     (if pending AND shl 1 i = 0 then deliver c pending is
      else if (if delegated c i then s_open c else m_open c)
      then (True, enter_trap c (cause_interrupt c OR of_nat i) 0 (delegated c i))
      else deliver c pending is)"

definition take_interrupt :: "CPU \<Rightarrow> Platform option \<Rightarrow> bool \<times> CPU" where
  "take_interrupt c plat =
     (let (mip, c) = effective_mip c plat;
          pending = mip AND ucast (csr c CSR_MIE)
      in if pending = 0 then (False, c)
         else deliver c pending [IRQ_MEXT, IRQ_MSOFT, IRQ_MTIMER, IRQ_SEXT, IRQ_SSOFT, IRQ_STIMER])"

text \<open>The timer relays; \<open>1u << IRQ_STIMER\<close> is a 32-bit mask, so its complement clears the upper half.\<close>

definition firmware_timer_tick :: "CPU \<Rightarrow> Platform \<Rightarrow> CPU" where
  "firmware_timer_tick c p =
     (if \<not> sbi_timer_armed c then c
      else if plat_mip_bits p (hartid c) AND MIP_MTIP \<noteq> 0
      then (set_csr CSR_MIP (csr c CSR_MIP OR 0x20) c)\<lparr>sbi_timer_armed := False\<rparr>
      else c)"

definition sstc_tick :: "CPU \<Rightarrow> CPU" where
  "sstc_tick c =
     (if csr c CSR_MENVCFG AND MENVCFG_STCE = 0 then c
      else if instret c \<ge> csr c CSR_STIMECMP then set_csr CSR_MIP (csr c CSR_MIP OR 0x20) c
      else set_csr CSR_MIP (csr c CSR_MIP AND 0xffffffdf) c)"

text \<open>The instruction-boundary prologue; \<open>True\<close>: this step fetches nothing.\<close>

definition cpu_pre_step :: "CPU \<Rightarrow> Platform option \<Rightarrow> bool \<times> CPU" where
  "cpu_pre_step c plat =
     (case plat of
        None \<Rightarrow> (False, c)
      | Some p \<Rightarrow>
          (case plat_poweroff_requested p of
             Some code \<Rightarrow> (True, c\<lparr>exit_code := code, halt_reason := HALT_EXIT, halted := True\<rparr>)
           | None \<Rightarrow> take_interrupt (sstc_tick (firmware_timer_tick c p)) (Some p)))"

text \<open>How many timer ticks ahead the next time-driven interrupt can be taken.\<close>

definition cpu_interrupt_horizon :: "CPU \<Rightarrow> Platform option \<Rightarrow> u64" where
  "cpu_interrupt_horizon c plat =
     (let h = 0x4000000000000000
      in case plat of
           None \<Rightarrow> h
         | Some p \<Rightarrow>
             (let mie = ucast (csr c CSR_MIE) :: u32;
                  ms = csr c CSR_MSTATUS;
                  m_on = (priv c < PRIV_M \<or> ms AND MSTATUS_MIE \<noteq> 0);
                  s_on = (priv c < PRIV_S \<or> priv c = PRIV_S \<and> ms AND MSTATUS_SIE \<noteq> 0);
                  mtime = c_mtime (p_clint p); mtimecmp = c_mtimecmp (p_clint p) (hartid c);
                  d_mtip = (if mtime \<ge> mtimecmp then 0 else mtimecmp - mtime);
                  h = (if mie AND shl 1 IRQ_MTIMER \<noteq> 0 \<and> (if delegated c IRQ_MTIMER then s_on else m_on) \<and> d_mtip < h
                       then d_mtip else h)
              in if mie AND shl 1 IRQ_STIMER \<noteq> 0 \<and> (if delegated c IRQ_STIMER then s_on else m_on)
                 then (let h = (if sbi_timer_armed c \<and> d_mtip < h then d_mtip else h)
                       in if csr c CSR_MENVCFG AND MENVCFG_STCE \<noteq> 0
                          then (let cmp = csr c CSR_STIMECMP;
                                    d = (if instret c \<ge> cmp then 0 else cmp - instret c)
                                in if d < h then d else h)
                          else h)
                 else h))"


subsection \<open>Specification of interrupt delivery\<close>

text \<open>An interrupt that may be taken: pending, enabled, and its destination's gate open.\<close>

definition eligible :: "CPU \<Rightarrow> u32 \<Rightarrow> nat \<Rightarrow> bool" where
  "eligible c mip i \<longleftrightarrow> bit mip i \<and> bit (csr c CSR_MIE) i \<and> (if delegated c i then s_open c else m_open c)"

abbreviation irq_order :: "nat list" where
  "irq_order \<equiv> [IRQ_MEXT, IRQ_MSOFT, IRQ_MTIMER, IRQ_SEXT, IRQ_SSOFT, IRQ_STIMER]"

subsection \<open>Trap entry and return\<close>

text \<open>Ticks to the machine timer and to the supervisor compare.\<close>

definition ticks_to :: "u64 \<Rightarrow> u64 \<Rightarrow> u64" where
  "ticks_to now cmp = (if now \<ge> cmp then 0 else cmp - now)"

definition horizon_of :: "bool \<Rightarrow> bool \<Rightarrow> bool \<Rightarrow> bool \<Rightarrow> u64 \<Rightarrow> u64 \<Rightarrow> u64 \<Rightarrow> u64" where
  "horizon_of mt st armed stce d e h =
     (let h = (if mt \<and> d < h then d else h)
      in if st then (let h = (if armed \<and> d < h then d else h) in if stce then (if e < h then e else h) else h) else h)"

lemma and_pow2_eq_0: "w AND 2 ^ n = 0 \<longleftrightarrow> \<not> bit w n" for w :: "'a::len word"
  using and_pow2_neq_0 [of w n] by blast

lemma status_tests:
  "w AND 0x2 = 0 \<longleftrightarrow> \<not> bit w 1" "w AND 0x8 = 0 \<longleftrightarrow> \<not> bit w 3" "w AND 0x20 = 0 \<longleftrightarrow> \<not> bit w 5"
  "w AND 0x80 = 0 \<longleftrightarrow> \<not> bit w 7" "w AND 0x100 = 0 \<longleftrightarrow> \<not> bit w 8" for w :: u64
  using and_pow2_eq_0 [of w 1] and_pow2_eq_0 [of w 3] and_pow2_eq_0 [of w 5] and_pow2_eq_0 [of w 7]
    and_pow2_eq_0 [of w 8] by simp_all

lemma mret_status:
  assumes "p = 0 \<or> p = 1 \<or> p = 3"
  shows "ucast (shr (m_stack s p AND MSTATUS_MPP) MSTATUS_MPP_SHIFT) = p"
    "m_unstack (m_stack s p) = (s AND NOT MSTATUS_MPP) OR MSTATUS_MPIE"
  using assms unfolding m_stack_def m_unstack_def Let_def status_tests
  by (elim disjE; cases "bit s 3"; simp add: bits evals; simp add: bit_blast bits)+

lemma sret_status:
  assumes "p = 0 \<or> p = 1"
  shows "s_stack s p AND MSTATUS_SPP \<noteq> 0 \<longleftrightarrow> p = PRIV_S"
    "s_unstack (s_stack s p) = (s AND NOT MSTATUS_SPP) OR MSTATUS_SPIE"
  using assms unfolding s_stack_def s_unstack_def Let_def status_tests
  by (elim disjE; cases "bit s 1"; simp add: bits evals; simp add: bit_blast bits)+

text \<open>
  C10: traps and their returns are inverse. From U, S or M mode a machine trap followed by \<open>mret\<close>, and
  from U or S mode a supervisor trap followed by \<open>sret\<close>, resumes at the trapped PC with the same
  privilege and the same interrupt enable; the stacked enable is left set, the stacked privilege
  cleared (MPRV too, when the hart returns below M), and no CSR but the ones the entry writes has changed.
\<close>

theorem trap_return_inverse:
  fixes c cause tval
  assumes "priv c = PRIV_U \<or> priv c = PRIV_S \<or> priv c = PRIV_M"
  defines "m \<equiv> mret_pop (enter_trap c cause tval False)" and "s \<equiv> sret_pop (enter_trap c cause tval True)"
  shows "snd m = pc c \<and> priv (fst m) = priv c \<and>
    csr (fst m) CSR_MSTATUS = ((csr c CSR_MSTATUS AND NOT MSTATUS_MPP) OR MSTATUS_MPIE) AND
      NOT (if priv c = PRIV_M then 0 else MSTATUS_MPRV) \<and>
    (\<forall>a. a \<notin> {CSR_MSTATUS, CSR_MEPC, CSR_MCAUSE, CSR_MTVAL} \<longrightarrow> csr (fst m) a = csr c a) \<and>
    (priv c \<noteq> PRIV_M \<longrightarrow> snd s = pc c \<and> priv (fst s) = priv c \<and>
      csr (fst s) CSR_MSTATUS = ((csr c CSR_MSTATUS AND NOT MSTATUS_SPP) OR MSTATUS_SPIE) AND NOT MSTATUS_MPRV \<and>
      (\<forall>a. a \<notin> {CSR_MSTATUS, CSR_SEPC, CSR_SCAUSE, CSR_STVAL} \<longrightarrow> csr (fst s) a = csr c a))"
proof -
  have "(priv c \<noteq> PRIV_M \<longrightarrow> priv c = PRIV_U \<or> priv c = PRIV_S)"
    using assms(1) by blast
  then show ?thesis
    using mret_status [OF assms(1), of "csr c CSR_MSTATUS"] sret_status [of "priv c" "csr c CSR_MSTATUS"]
    by (auto simp: m_def s_def mret_pop_def sret_pop_def enter_trap_def Let_def set_csr_def)
qed

theorem trap_return_inverse_witness:
  "snd (mret_pop (enter_trap (cpu_init 0x80000000 64) 2 0 False)) = 0x80000000"
  using trap_return_inverse [of "cpu_init 0x80000000 64" 2 0] by (simp add: cpu_init_def mmu_flush_def)


subsection \<open>Interrupt delivery\<close>

lemma shl_test: "w AND shl 1 i = 0 \<longleftrightarrow> \<not> bit w i" for w :: "'a::len word"
  using and_pow2_eq_0 [of w i] by (simp add: shl_def push_bit_eq_mult)

lemma find_NoneD: "List.find P xs = None \<Longrightarrow> \<forall>x\<in>set xs. \<not> P x"
  by (simp add: find_None_iff)

lemma find_SomeD: "List.find P xs = Some i \<Longrightarrow> \<exists>pre post. xs = pre @ i # post \<and> P i \<and> (\<forall>j\<in>set pre. \<not> P j)"
proof (induction xs)
  case (Cons x xs)
  show ?case
  proof (cases "P x")
    case True
    then show ?thesis
      using Cons.prems by (intro exI [of _ "[]"] exI [of _ xs]) auto
  next
    case False
    then obtain pre post where "xs = pre @ i # post" "P i" "\<forall>j\<in>set pre. \<not> P j"
      using Cons by auto
    then show ?thesis
      using False by (intro exI [of _ "x # pre"] exI [of _ post]) auto
  qed
qed simp

lemma deliver_spec:
  fixes c pending
  defines "ok \<equiv> (\<lambda>i. bit pending i \<and> (if delegated c i then s_open c else m_open c))"
  shows "deliver c pending is = (case List.find ok is of
      None \<Rightarrow> (False, c)
    | Some i \<Rightarrow> (True, enter_trap c (cause_interrupt c OR of_nat i) 0 (delegated c i)))"
  by (induction "is") (auto simp: ok_def shl_test)

lemma enter_trap_priv: "priv (enter_trap c cause tval to_s) = (if to_s then PRIV_S else PRIV_M)"
  by (simp add: enter_trap_def Let_def)

lemma gate_raises:
  "(if delegated c i then s_open c else m_open c) \<Longrightarrow> priv c \<le> (if delegated c i then PRIV_S else PRIV_M)"
  by (auto simp: s_open_def m_open_def split: if_splits)

lemma effective_mip_fields:
  "priv (snd (effective_mip c plat)) = priv c" "csr (snd (effective_mip c plat)) CSR_MIE = csr c CSR_MIE"
  "delegated (snd (effective_mip c plat)) = delegated c" "s_open (snd (effective_mip c plat)) = s_open c"
  "m_open (snd (effective_mip c plat)) = m_open c" "cause_interrupt (snd (effective_mip c plat)) = cause_interrupt c"
  by (auto simp: effective_mip_def Let_def set_csr_def delegated_def s_open_def m_open_def cause_interrupt_def
      split: option.splits)

lemma take_interrupt_find:
  "take_interrupt c plat = (case List.find (eligible c (fst (effective_mip c plat))) irq_order of
      None \<Rightarrow> (False, snd (effective_mip c plat))
    | Some i \<Rightarrow> (True, enter_trap (snd (effective_mip c plat)) (cause_interrupt c OR of_nat i) 0 (delegated c i)))"
proof -
  define mip where "mip = fst (effective_mip c plat)"
  define c1 where "c1 = snd (effective_mip c plat)"
  define pend where "pend = mip AND ucast (csr c CSR_MIE)"
  have bits: "bit pend i \<longleftrightarrow> bit mip i \<and> bit (csr c CSR_MIE) i" if "i < 32" for i
    using that by (simp add: pend_def bit_and_iff bits)
  have f: "List.find (\<lambda>i. bit pend i \<and> (if delegated c i then s_open c else m_open c)) irq_order =
      List.find (eligible c mip) irq_order"
    by (rule find_cong) (auto simp: eligible_def bits)
  have "take_interrupt c plat = (if pend = 0 then (False, c1) else deliver c1 pend irq_order)"
    by (simp add: take_interrupt_def mip_def c1_def pend_def case_prod_unfold effective_mip_fields)
  moreover have "deliver c1 pend irq_order = (case List.find (eligible c mip) irq_order of
      None \<Rightarrow> (False, c1)
    | Some i \<Rightarrow> (True, enter_trap c1 (cause_interrupt c OR of_nat i) 0 (delegated c i)))"
    unfolding deliver_spec c1_def effective_mip_fields f ..
  moreover have "pend = 0 \<Longrightarrow> List.find (eligible c mip) irq_order = None"
    unfolding f [symmetric] by (simp add: find_None_iff)
  ultimately show ?thesis
    by (auto simp: mip_def c1_def)
qed

text \<open>
  C11: interrupt delivery takes exactly the right interrupt. \<open>take_interrupt\<close> vectors into a handler
  if and only if some interrupt is pending, enabled and its destination's gate is open; it takes
  the first such one in the architectural priority order, in the mode \<open>mideleg\<close> names, and the
  privilege of the hart never drops; otherwise only the live bits of \<open>mip\<close> are refreshed.
\<close>

theorem interrupt_choice:
  fixes c plat
  defines "mip \<equiv> fst (effective_mip c plat)" and "c1 \<equiv> snd (effective_mip c plat)"
  shows "case take_interrupt c plat of
      (True, c') \<Rightarrow> (\<exists>pre i post. irq_order = pre @ i # post \<and> eligible c mip i \<and> (\<forall>j\<in>set pre. \<not> eligible c mip j) \<and>
         c' = enter_trap c1 (cause_interrupt c OR of_nat i) 0 (delegated c i) \<and> priv c \<le> priv c')
    | (False, c') \<Rightarrow> (\<forall>i\<in>set irq_order. \<not> eligible c mip i) \<and> c' = c1"
proof (cases "List.find (eligible c mip) irq_order")
  case None
  then have "take_interrupt c plat = (False, c1)"
    using take_interrupt_find [of c plat] by (simp only: mip_def c1_def option.case)
  then show ?thesis
    using find_NoneD [OF None] by (simp only: prod.case bool.case)
next
  case (Some i)
  then have t: "take_interrupt c plat = (True, enter_trap c1 (cause_interrupt c OR of_nat i) 0 (delegated c i))"
    using take_interrupt_find [of c plat] by (simp only: mip_def c1_def option.case)
  obtain pre post where f: "irq_order = pre @ i # post" "eligible c mip i" "\<forall>j\<in>set pre. \<not> eligible c mip j"
    using find_SomeD [OF Some] by blast
  have "priv c \<le> (if delegated c i then PRIV_S else PRIV_M)"
    using f(2) by (intro gate_raises) (simp add: eligible_def)
  then show ?thesis
    unfolding t prod.case bool.case enter_trap_priv using f by blast
qed

theorem interrupt_choice_witness:
  defines "c \<equiv> (cpu_init 0 64)\<lparr>csr := (\<lambda>_. 0)(CSR_MIE := 0x88, CSR_MIP := 0x88, CSR_MSTATUS := 0x8, CSR_MTVEC := 0x80000100)\<rparr>"
  shows "take_interrupt c None = (True, enter_trap c 0x8000000000000003 0 False)"
proof -
  have c: "hartid c = 0" "instret c = 0" "sbi_timer_armed c = False" "priv c = PRIV_M" "xlen c = 64"
    "csr c a = (if a = CSR_MIE then 0x88 else if a = CSR_MIP then 0x88 else if a = CSR_MSTATUS then 0x8
       else if a = CSR_MTVEC then 0x80000100 else 0)" for a
    by (simp_all add: c_def cpu_init_def mmu_flush_def)
  have m: "effective_mip c None = (0x88, c)"
    by (simp add: effective_mip_def c)
  have e: "eligible c 0x88 3" "\<not> eligible c 0x88 11"
    by (simp_all add: eligible_def c delegated_def m_open_def s_open_def evals)
  have d: "\<not> delegated c 3" "cause_interrupt c OR of_nat 3 = 0x8000000000000003"
    by (simp_all add: delegated_def c cause_interrupt_def evals)
  obtain t c' where t: "take_interrupt c None = (t, c')"
    by (cases "take_interrupt c None")
  have ch: "case (t, c') of
      (True, c') \<Rightarrow> (\<exists>pre i post. irq_order = pre @ i # post \<and> eligible c 0x88 i \<and> (\<forall>j\<in>set pre. \<not> eligible c 0x88 j) \<and>
         c' = enter_trap c (cause_interrupt c OR of_nat i) 0 (delegated c i) \<and> priv c \<le> priv c')
    | (False, c') \<Rightarrow> (\<forall>i\<in>set irq_order. \<not> eligible c 0x88 i) \<and> c' = c"
    using interrupt_choice [of c None] unfolding m t fst_conv snd_conv .
  with e(1) have "t" by (cases t) auto
  with ch obtain pre i post where i: "irq_order = pre @ i # post" "eligible c 0x88 i" "\<forall>j\<in>set pre. \<not> eligible c 0x88 j"
    "c' = enter_trap c (cause_interrupt c OR of_nat i) 0 (delegated c i)"
    by auto
  have "i = 3"
    using i(1-3) e by (cases pre; cases "tl pre") auto
  then show ?thesis
    using t i(4) d \<open>t\<close> by simp
qed


subsection \<open>The interrupt horizon\<close>

lemma plic_clint [simp]: "plic_lines (p\<lparr>p_clint := x\<rparr>) = plic_lines p" "plic_best (p\<lparr>p_clint := x\<rparr>) ctx = plic_best p ctx"
proof -
  show l: "plic_lines (p\<lparr>p_clint := x\<rparr>) = plic_lines p"
    by (simp add: plic_lines_def)
  have "plic_candidate (p\<lparr>p_clint := x\<rparr>) = plic_candidate p"
    by (simp add: plic_candidate_def fun_eq_iff)
  then have "plic_scan (p\<lparr>p_clint := x\<rparr>) = plic_scan p"
    by (simp add: plic_scan_def fun_eq_iff cong: if_cong)
  then show "plic_best (p\<lparr>p_clint := x\<rparr>) ctx = plic_best p ctx"
    by (simp add: plic_best_def l)
qed

lemma mip_bits_mtime:
  assumes "i \<in> {11, 3, 9, 1, 5}"
  shows "bit (plat_mip_bits (p\<lparr>p_clint := (p_clint p)\<lparr>c_mtime := x\<rparr>\<rparr>) h) i = bit (plat_mip_bits p h) i"
  using assms by (auto simp: plat_mip_bits_def Let_def bit_or_iff)

lemma ticks_to_less:
  assumes "t < ticks_to now cmp"
  shows "now + t < cmp" "now \<le> now + t"
proof -
  have "now < cmp" "t < cmp - now"
    using assms by (auto simp: ticks_to_def not_le split: if_splits)
  moreover from this have "unat (cmp - now) = unat cmp - unat now"
    by (intro unat_sub) simp
  ultimately have "unat t < unat cmp - unat now" "unat now < unat cmp"
    by (simp_all add: word_less_nat_alt)
  moreover from this have "unat (now + t) = unat now + unat t"
    using unat_bound [of cmp] by (simp add: unat_word_ariths)
  ultimately show "now + t < cmp" "now \<le> now + t"
    by (simp_all add: word_less_nat_alt word_le_nat_alt)
qed

lemma horizon_of_le:
  "mt \<Longrightarrow> horizon_of mt st armed stce d e h \<le> d" "st \<Longrightarrow> armed \<Longrightarrow> horizon_of mt st armed stce d e h \<le> d"
  "st \<Longrightarrow> stce \<Longrightarrow> horizon_of mt st armed stce d e h \<le> e"
  by (auto simp: horizon_of_def Let_def)

lemma horizon_eq:
  "cpu_interrupt_horizon c (Some p) =
     horizon_of (ucast (csr c CSR_MIE) AND shl 1 IRQ_MTIMER \<noteq> (0::u32) \<and> (if delegated c IRQ_MTIMER then s_open c
         else priv c < PRIV_M \<or> csr c CSR_MSTATUS AND MSTATUS_MIE \<noteq> 0))
       (ucast (csr c CSR_MIE) AND shl 1 IRQ_STIMER \<noteq> (0::u32) \<and> (if delegated c IRQ_STIMER then s_open c
         else priv c < PRIV_M \<or> csr c CSR_MSTATUS AND MSTATUS_MIE \<noteq> 0))
       (sbi_timer_armed c) (csr c CSR_MENVCFG AND MENVCFG_STCE \<noteq> 0)
       (ticks_to (c_mtime (p_clint p)) (c_mtimecmp (p_clint p) (hartid c)))
       (ticks_to (instret c) (csr c CSR_STIMECMP)) 0x4000000000000000"
  unfolding cpu_interrupt_horizon_def horizon_of_def Let_def option.case ticks_to_def s_open_def conj_assoc ..

lemma horizon_le:
  fixes c p
  defines "d \<equiv> ticks_to (c_mtime (p_clint p)) (c_mtimecmp (p_clint p) (hartid c))"
  shows "eligible c mip 7 \<Longrightarrow> cpu_interrupt_horizon c (Some p) \<le> d"
    "eligible c mip 5 \<Longrightarrow> sbi_timer_armed c \<Longrightarrow> cpu_interrupt_horizon c (Some p) \<le> d"
    "eligible c mip 5 \<Longrightarrow> csr c CSR_MENVCFG AND MENVCFG_STCE \<noteq> 0 \<Longrightarrow>
      cpu_interrupt_horizon c (Some p) \<le> ticks_to (instret c) (csr c CSR_STIMECMP)"
proof -
  have gate: "bit (ucast (csr c CSR_MIE) :: u32) i \<and> (if delegated c i then s_open c
         else priv c < PRIV_M \<or> csr c CSR_MSTATUS AND MSTATUS_MIE \<noteq> 0)" if "eligible c mip i" "i < 32" for i
    using that by (auto simp: eligible_def m_open_def bits)
  show "eligible c mip 7 \<Longrightarrow> cpu_interrupt_horizon c (Some p) \<le> d"
    unfolding horizon_eq d_def using gate [of 7] by (intro horizon_of_le(1)) (simp add: shl_test)
  show "eligible c mip 5 \<Longrightarrow> sbi_timer_armed c \<Longrightarrow> cpu_interrupt_horizon c (Some p) \<le> d"
    unfolding horizon_eq d_def using gate [of 5] by (intro horizon_of_le(2)) (simp_all add: shl_test)
  show "eligible c mip 5 \<Longrightarrow> csr c CSR_MENVCFG AND MENVCFG_STCE \<noteq> 0 \<Longrightarrow>
      cpu_interrupt_horizon c (Some p) \<le> ticks_to (instret c) (csr c CSR_STIMECMP)"
    unfolding horizon_eq using gate [of 5] by (intro horizon_of_le(3)) (simp_all add: shl_test)
qed


lemma tick_eligible: "eligible (sstc_tick (firmware_timer_tick c p)) = eligible c"
  by (auto simp: eligible_def sstc_tick_def firmware_timer_tick_def set_csr_def delegated_def s_open_def m_open_def fun_eq_iff)

lemma tick_mip:
  assumes "i \<in> set irq_order" "hartid c < 8"
  shows "bit (fst (effective_mip (sstc_tick (firmware_timer_tick c p)) (Some p))) i \<longleftrightarrow>
    (if i = 1 then bit (csr c CSR_MIP) 1
     else if i = 5 then (if csr c CSR_MENVCFG AND MENVCFG_STCE = 0
       then bit (csr c CSR_MIP) 5 \<or> (sbi_timer_armed c \<and> c_mtimecmp (p_clint p) (hartid c) \<le> c_mtime (p_clint p))
       else csr c CSR_STIMECMP \<le> instret c)
     else bit (plat_mip_bits p (hartid c)) i)"
proof -
  let ?t = "sstc_tick (firmware_timer_tick c p)"
  have m: "plat_mip_bits p (hartid c) AND MIP_MTIP \<noteq> 0 \<longleftrightarrow> c_mtimecmp (p_clint p) (hartid c) \<le> c_mtime (p_clint p)"
    using mtip_bit [OF assms(2), of p] and_pow2_neq_0 [of "plat_mip_bits p (hartid c)" 7] by simp
  have h: "hartid ?t = hartid c"
    by (simp add: sstc_tick_def firmware_timer_tick_def set_csr_def)
  have no: "\<not> bit (plat_mip_bits p (hartid c)) 1" "\<not> bit (plat_mip_bits p (hartid c)) 5"
    by (simp_all add: plat_mip_bits_def Let_def bit_or_iff)
  have csr1: "bit (csr ?t CSR_MIP) 1 = bit (csr c CSR_MIP) 1"
    by (simp add: sstc_tick_def firmware_timer_tick_def set_csr_def bit_or_iff bit_and_iff)
  have csr5: "bit (csr ?t CSR_MIP) 5 = (if csr c CSR_MENVCFG AND MENVCFG_STCE = 0
       then bit (csr c CSR_MIP) 5 \<or> (sbi_timer_armed c \<and> c_mtimecmp (p_clint p) (hartid c) \<le> c_mtime (p_clint p))
       else csr c CSR_STIMECMP \<le> instret c)"
    using m by (auto simp: sstc_tick_def firmware_timer_tick_def set_csr_def bit_or_iff bit_and_iff)
  have "bit (fst (effective_mip ?t (Some p))) i = (if i = 1 \<or> i = 5 then bit (csr ?t CSR_MIP) i else bit (plat_mip_bits p (hartid c)) i)"
    using assms(1) no by (auto simp: effective_mip_def Let_def h bit_or_iff bit_and_iff bits bit_not_iff)
  then show ?thesis
    using csr1 csr5 by auto
qed

text \<open>
  C12: the interrupt horizon is sound. If no interrupt is taken now and the horizon is \<open>h\<close>, then after
  any \<open>t < h\<close> timer ticks and as many retired instructions, with nothing else changed, still none is
  taken - so code may run that many instructions between two polls without missing a timer
  interrupt.
\<close>

theorem interrupt_horizon_sound:
  fixes c p t
  assumes "hartid c < 8" "fst (cpu_pre_step c (Some p)) = False" "t < cpu_interrupt_horizon c (Some p)"
  defines "p' \<equiv> p\<lparr>p_clint := (p_clint p)\<lparr>c_mtime := c_mtime (p_clint p) + t\<rparr>\<rparr>"
    and "c' \<equiv> c\<lparr>instret := instret c + t\<rparr>"
  shows "fst (cpu_pre_step c' (Some p')) = False"
proof -
  let ?T = "\<lambda>c p. sstc_tick (firmware_timer_tick c p)"
  let ?mip = "\<lambda>c p. fst (effective_mip (?T c p) (Some p))"
  have off: "p_poweroff p = False"
    using assms(2) by (auto simp: cpu_pre_step_def plat_poweroff_requested_def split: if_splits)
  have taken: "fst (cpu_pre_step c (Some p)) \<longleftrightarrow> (\<exists>i\<in>set irq_order. eligible c (?mip c p) i)" if "p_poweroff p = False" for c p
  proof -
    have "fst (take_interrupt (?T c p) (Some p)) \<longleftrightarrow> List.find (eligible c (?mip c p)) irq_order \<noteq> None"
      unfolding take_interrupt_find tick_eligible by (auto split: option.splits)
    then show ?thesis
      using that unfolding find_None_iff by (auto simp: cpu_pre_step_def plat_poweroff_requested_def)
  qed
  have none: "\<And>i. i \<in> set irq_order \<Longrightarrow> \<not> eligible c (?mip c p) i"
    using taken [OF off, of c] assms(2) by blast
  have e': "eligible c' = eligible c"
    by (simp add: c'_def eligible_def delegated_def s_open_def m_open_def fun_eq_iff)
  have "\<not> eligible c' (?mip c' p') i" if i: "i \<in> set irq_order" for i
  proof
    assume el: "eligible c' (?mip c' p') i"
    then have el': "eligible c (?mip c' p') i" and b: "bit (?mip c' p') i"
      by (simp_all add: e') (simp add: eligible_def)
    have h': "hartid c' < 8"
      using assms(1) by (simp add: c'_def)
    note b' = b [unfolded tick_mip [OF i h']]
    let ?now = "c_mtime (p_clint p)" and ?cmp = "c_mtimecmp (p_clint p) (hartid c)"
    have d: "\<not> ?cmp \<le> ?now + t" if "cpu_interrupt_horizon c (Some p) \<le> ticks_to ?now ?cmp"
      using ticks_to_less(1) [OF less_le_trans [OF assms(3) that]] by (simp add: not_le)
    have e: "\<not> csr c CSR_STIMECMP \<le> instret c + t" if "cpu_interrupt_horizon c (Some p) \<le> ticks_to (instret c) (csr c CSR_STIMECMP)"
      using ticks_to_less(1) [OF less_le_trans [OF assms(3) that]] by (simp add: not_le)
    note le = horizon_le [of c "?mip c' p'" p]
    consider "i = 1" | "i = 5" | "i = 7" | "i \<in> {11, 3, 9}"
      using i by auto
    then have "bit (?mip c p) i"
    proof cases
      case 1
      then show ?thesis
        unfolding tick_mip [OF i assms(1)] using b' by (simp add: c'_def)
    next
      case 2
      have "csr c CSR_MENVCFG AND MENVCFG_STCE = 0"
        using b' e le(3) el' 2 by (auto simp: c'_def split: if_splits)
      moreover from this have "bit (csr c CSR_MIP) 5"
        using b' d le(2) el' 2 by (auto simp: c'_def p'_def split: if_splits)
      ultimately show ?thesis
        unfolding tick_mip [OF i assms(1)] using 2 by simp
    next
      case 3
      then show ?thesis
        using b' d le(1) el' mtip_bit [OF assms(1), of p'] by (simp add: c'_def p'_def)
    next
      case 4
      then show ?thesis
        unfolding tick_mip [OF i assms(1)] using b' mip_bits_mtime [where i = i and p = p] by (auto simp: c'_def p'_def)
    qed
    then show False
      using none [OF i] el' by (simp add: eligible_def)
  qed
  moreover have "p_poweroff p' = False"
    using off by (simp add: p'_def)
  ultimately show ?thesis
    using taken by blast
qed


theorem interrupt_horizon_sound_witness:
  defines "c \<equiv> (cpu_init 0 64)\<lparr>csr := (\<lambda>_. 0)(CSR_MIE := 0x80, CSR_MSTATUS := 0x8)\<rparr>"
    and "p \<equiv> plat_init\<lparr>p_clint := (p_clint plat_init)\<lparr>c_mtime := 5, c_mtimecmp := (\<lambda>_. 100)\<rparr>\<rparr>"
  shows "fst (cpu_pre_step (c\<lparr>instret := 94\<rparr>) (Some (p\<lparr>p_clint := (p_clint p)\<lparr>c_mtime := 99\<rparr>\<rparr>))) = False"
proof -
  have c: "hartid c = 0" "instret c = 0" "sbi_timer_armed c = False" "priv c = PRIV_M" "csr c a = (if a = CSR_MIE then 0x80 else if a = CSR_MSTATUS then 0x8 else 0)" for a
    by (simp_all add: c_def cpu_init_def mmu_flush_def)
  have bits: "plat_mip_bits p 0 = 0"
    by (simp add: p_def plat_init_def plat_mip_bits_def plic_lines_def uart_asserted_def virtio_zero_def)
  have p: "c_mtime (p_clint p) = 5" "c_mtimecmp (p_clint p) 0 = 100" "p_poweroff p = False"
    by (simp_all add: p_def plat_init_def)
  have h: "cpu_interrupt_horizon c (Some p) = 95"
    by (simp add: cpu_interrupt_horizon_def c p delegated_def Let_def evals)
  have "fst (cpu_pre_step c (Some p)) = False"
    by (simp add: cpu_pre_step_def plat_poweroff_requested_def p take_interrupt_def effective_mip_def bits c
        firmware_timer_tick_def sstc_tick_def set_csr_def)
  then show ?thesis
    using interrupt_horizon_sound [of c p 94] by (simp add: c h p)
qed

subsection \<open>CSR windows\<close>

text \<open>
  C13: the supervisor and floating-point CSRs are windows. A write through \<open>sstatus\<close>, \<open>sie\<close>, \<open>sip\<close>, \<open>fflags\<close>
  or \<open>frm\<close> reads back as the written value restricted to the window and leaves every bit of the
  backing register outside the window as it was; a write of \<open>satp\<close> that selects an unsupported
  paging mode changes nothing, a supported one is stored and drops every cached translation.
\<close>

theorem csr_windows:
  fixes c v plat
  defines "back \<equiv> (\<lambda>a. csr_read (csr_write c a v) plat a)" and "kept \<equiv> (\<lambda>a. csr (csr_write c a v))"
  shows "back CSR_SSTATUS = v AND SSTATUS_MASK \<and> kept CSR_SSTATUS CSR_MSTATUS AND NOT SSTATUS_MASK = csr c CSR_MSTATUS AND NOT SSTATUS_MASK \<and>
    back CSR_SIE = v AND S_INT_MASK \<and> kept CSR_SIE CSR_MIE AND NOT S_INT_MASK = csr c CSR_MIE AND NOT S_INT_MASK \<and>
    back CSR_SIP = v AND S_INT_MASK \<and> kept CSR_SIP CSR_MIP AND NOT S_INT_MASK = csr c CSR_MIP AND NOT S_INT_MASK \<and>
    back CSR_FFLAGS = v AND 0x1f \<and> kept CSR_FFLAGS CSR_FCSR AND NOT 0x1f = csr c CSR_FCSR AND NOT 0x1f \<and>
    back CSR_FRM = v AND 7 \<and> kept CSR_FRM CSR_FCSR AND NOT 0xe0 = csr c CSR_FCSR AND NOT 0xe0 \<and>
    (if mmu_satp_supported c v then kept CSR_SATP CSR_SATP = v \<and> (\<forall>i. \<not> t_valid (tlb (csr_write c CSR_SATP v) i))
     else csr_write c CSR_SATP v = c)"
proof -
  have w: "((x AND NOT k) OR (v AND k)) AND k = v AND k" "((x AND NOT k) OR (v AND k)) AND NOT k = x AND NOT k" for x k :: u64
    by (rule bit_word_eqI; auto simp: bit_simps)+
  have f: "shr ((x AND NOT 0xe0) OR shl (v AND 7) 5) 5 AND 7 = v AND 7"
    "((x AND NOT 0xe0) OR shl (v AND 7) 5) AND NOT 0xe0 = x AND NOT 0xe0" for x :: u64
    by (simp_all add: evals) (simp_all add: bit_blast bits)
  show ?thesis
    unfolding back_def kept_def
    using w [where k = SSTATUS_MASK] w [where k = S_INT_MASK] w [where k = "0x1f"] f
    by (simp add: csr_read_def csr_write_def set_csr_def mmu_flush_def)
qed

end
