(* ===== verification/Firmware.thy ===== *)
theory Firmware
  imports Csr
begin

text \<open>
  The environment below the guest when it has installed no trap handler: the SBI firmware of
  \<open>src/src/sbi.c\<close> and the system calls of \<open>src/src/syscall.c\<close>. Both run on the calling hart; hart state
  management also reaches a sibling hart, the timer call reaches the CLINT, and console output goes
  to the host's streams. The diagnostics printed for an unsupported descriptor or an unknown call
  are not part of the state.
\<close>

abbreviation (input) REG_A0 :: u32 where "REG_A0 \<equiv> 10"
abbreviation (input) REG_A1 :: u32 where "REG_A1 \<equiv> 11"
abbreviation (input) REG_A2 :: u32 where "REG_A2 \<equiv> 12"
abbreviation (input) REG_A6 :: u32 where "REG_A6 \<equiv> 16"
abbreviation (input) REG_A7 :: u32 where "REG_A7 \<equiv> 17"

abbreviation (input) SBI_SUCCESS :: u32 where "SBI_SUCCESS \<equiv> 0"
abbreviation (input) SBI_ERR_FAILED :: u32 where "SBI_ERR_FAILED \<equiv> - 1"
abbreviation (input) SBI_ERR_NOT_SUPPORTED :: u32 where "SBI_ERR_NOT_SUPPORTED \<equiv> - 2"
abbreviation (input) SBI_ERR_INVALID_PARAM :: u32 where "SBI_ERR_INVALID_PARAM \<equiv> - 3"
abbreviation (input) SBI_ERR_ALREADY_AVAILABLE :: u32 where "SBI_ERR_ALREADY_AVAILABLE \<equiv> - 6"

abbreviation (input) EXT_SET_TIMER :: u32 where "EXT_SET_TIMER \<equiv> 0"
abbreviation (input) EXT_PUTCHAR :: u32 where "EXT_PUTCHAR \<equiv> 1"
abbreviation (input) EXT_GETCHAR :: u32 where "EXT_GETCHAR \<equiv> 2"
abbreviation (input) EXT_SHUTDOWN :: u32 where "EXT_SHUTDOWN \<equiv> 8"
abbreviation (input) EXT_BASE :: u32 where "EXT_BASE \<equiv> 0x10"
abbreviation (input) EXT_TIME :: u32 where "EXT_TIME \<equiv> 0x54494D45"
abbreviation (input) EXT_SRST :: u32 where "EXT_SRST \<equiv> 0x53525354"
abbreviation (input) EXT_HSM :: u32 where "EXT_HSM \<equiv> 0x48534D"

abbreviation (input) SBI_SPEC_VERSION :: u32 where "SBI_SPEC_VERSION \<equiv> 0x1000000"
abbreviation (input) SBI_IMPL_ID :: u32 where "SBI_IMPL_ID \<equiv> 9"
abbreviation (input) QUANTA_VERSION :: u32 where "QUANTA_VERSION \<equiv> 0x200"

abbreviation (input) SYS_write :: u32 where "SYS_write \<equiv> 64"
abbreviation (input) SYS_exit :: u32 where "SYS_exit \<equiv> 93"
abbreviation (input) SYS_exit_group :: u32 where "SYS_exit_group \<equiv> 94"

subsection \<open>SBI\<close>

definition sbi_return :: "u32 \<Rightarrow> u32 \<Rightarrow> CPU \<Rightarrow> CPU" where
  "sbi_return error val c = reg_write (reg_write c REG_A0 (scast error)) REG_A1 (ucast val)"

definition sbi_halt :: "CPU \<Rightarrow> CPU" where
  "sbi_halt c = halt_with HALT_EXIT (c\<lparr>exit_code := 0\<rparr>)"

definition arm_clint :: "u32 \<Rightarrow> u64 \<Rightarrow> Memory \<Rightarrow> Memory" where
  "arm_clint hart deadline m =
     m\<lparr>mplat := map_option (\<lambda>p. p\<lparr>p_clint := (p_clint p)\<lparr>c_mtimecmp := (c_mtimecmp (p_clint p))(hart := deadline)\<rparr>\<rparr>) (mplat m)\<rparr>"

text \<open>\<open>csr[CSR_MIP] &= ~(1u << 5)\<close> widens a 32-bit mask, so it also clears the upper half.\<close>

definition cpu_arm_supervisor_timer :: "u32 \<Rightarrow> u64 \<Rightarrow> unit mach" where
  "cpu_arm_supervisor_timer h deadline = do {
     c \<leftarrow> get_cpu h;
     mem_upd (arm_clint (hartid c) deadline);
     upd_cpu h (\<lambda>c. set_csr CSR_MIP (csr c CSR_MIP AND ucast (NOT (shl 1 IRQ_STIMER :: u32))) c);
     upd_cpu h (\<lambda>c. c\<lparr>sbi_timer_armed := True\<rparr>)
   }"

definition sbi_set_timer :: "u32 \<Rightarrow> u32 \<Rightarrow> u32 \<Rightarrow> unit mach" where
  "sbi_set_timer h lo hi = cpu_arm_supervisor_timer h (shl (ucast hi) 32 OR ucast lo)"

definition sbi_probe :: "u32 \<Rightarrow> bool" where
  "sbi_probe eid \<longleftrightarrow> eid \<in> {EXT_SET_TIMER, EXT_PUTCHAR, EXT_GETCHAR, EXT_SHUTDOWN, EXT_BASE, EXT_TIME, EXT_SRST, EXT_HSM}"

definition sbi_base :: "u32 \<Rightarrow> u32 \<Rightarrow> CPU \<Rightarrow> CPU" where
  "sbi_base fid arg0 =
     (if fid = 0 then sbi_return SBI_SUCCESS SBI_SPEC_VERSION
      else if fid = 1 then sbi_return SBI_SUCCESS SBI_IMPL_ID
      else if fid = 2 then sbi_return SBI_SUCCESS QUANTA_VERSION
      else if fid = 3 then sbi_return SBI_SUCCESS (of_flag (sbi_probe arg0))
      else if fid = 4 \<or> fid = 5 \<or> fid = 6 then sbi_return SBI_SUCCESS 0
      else sbi_return SBI_ERR_NOT_SUPPORTED 0)"

definition hsm_hart :: "Machine \<Rightarrow> u32 \<Rightarrow> u32 \<Rightarrow> u32 option" where
  "hsm_hart M h hid =
     (case mplat (mem M) of
        None \<Rightarrow> if hid = hartid (harts M h) then Some h else None
      | Some p \<Rightarrow>
          if \<not> p_harts p then (if hid = hartid (harts M h) then Some h else None)
          else if hid \<ge> p_nharts p then None
          else Some hid)"

definition hsm_enter :: "u64 \<Rightarrow> u64 \<Rightarrow> CPU \<Rightarrow> CPU" where
  "hsm_enter pc0 opaque c =
     (let c = c\<lparr>pc := pc0, priv := PRIV_S\<rparr>;
          c = reg_write c REG_A0 (ucast (hartid c));
          c = reg_write c REG_A1 opaque;
          c = set_csr CSR_SATP 0 c;
          c = set_csr CSR_MSTATUS (csr c CSR_MSTATUS AND NOT 0x2) c;
          c = mmu_flush (c\<lparr>reserve_valid := False\<rparr>)
      in c\<lparr>hsm_state := HSM_STARTED, halt_reason := HALT_NONE, halted := False\<rparr>)"

definition hsm_code :: "HsmState \<Rightarrow> u32" where
  "hsm_code s = (case s of HSM_STARTED \<Rightarrow> 0 | HSM_STOPPED \<Rightarrow> 1 | HSM_START_PENDING \<Rightarrow> 2 | HSM_STOP_PENDING \<Rightarrow> 3
     | HSM_SUSPENDED \<Rightarrow> 4 | HSM_SUSPEND_PENDING \<Rightarrow> 5 | HSM_RESUME_PENDING \<Rightarrow> 6)"

definition sbi_hsm :: "u32 \<Rightarrow> u32 \<Rightarrow> unit mach" where
  "sbi_hsm h fid = do {
     c \<leftarrow> get_cpu h;
     M \<leftarrow> State_Monad.get;
     (if fid = 0 then
        (case hsm_hart M h (ucast (reg_read c REG_A0)) of
           None \<Rightarrow> upd_cpu h (sbi_return SBI_ERR_INVALID_PARAM 0)
         | Some t \<Rightarrow>
             if hsm_state (harts M t) = HSM_STARTED then upd_cpu h (sbi_return SBI_ERR_ALREADY_AVAILABLE 0)
             else if hsm_state (harts M t) \<noteq> HSM_STOPPED then upd_cpu h (sbi_return SBI_ERR_FAILED 0)
             else do {
               upd_cpu t (hsm_enter (reg_read c REG_A1) (reg_read c REG_A2));
               upd_cpu h (sbi_return SBI_SUCCESS 0)
             })
      else if fid = 1 then upd_cpu h (\<lambda>c. halt_with HALT_EXIT (c\<lparr>hsm_state := HSM_STOPPED\<rparr>))
      else if fid = 2 then
        (case hsm_hart M h (ucast (reg_read c REG_A0)) of
           None \<Rightarrow> upd_cpu h (sbi_return SBI_ERR_INVALID_PARAM 0)
         | Some t \<Rightarrow> upd_cpu h (sbi_return SBI_SUCCESS (hsm_code (hsm_state (harts M t)))))
      else if fid = 3 then
        (let type = (ucast (reg_read c REG_A0) :: u32)
         in if type = 0 then upd_cpu h (sbi_return SBI_SUCCESS 0)
            else if type = 0x80000000 then upd_cpu h (hsm_enter (reg_read c REG_A1) (reg_read c REG_A2))
            else upd_cpu h (sbi_return SBI_ERR_INVALID_PARAM 0))
      else upd_cpu h (sbi_return SBI_ERR_NOT_SUPPORTED 0))
   }"

definition sbi_call :: "u32 \<Rightarrow> unit mach" where
  "sbi_call h = do {
     c \<leftarrow> get_cpu h;
     let eid = (ucast (reg_read c REG_A7) :: u32);
     let fid = (ucast (reg_read c REG_A6) :: u32);
     let a0 = (ucast (reg_read c REG_A0) :: u32);
     let a1 = (ucast (reg_read c REG_A1) :: u32);
     (if eid = EXT_PUTCHAR then do {
        mem_upd (\<lambda>m. m\<lparr>mcon := mcon m @ [ucast (a0 AND 0xff)]\<rparr>);
        upd_cpu h (\<lambda>c. reg_write c REG_A0 0)
      }
      else if eid = EXT_GETCHAR then upd_cpu h (\<lambda>c. reg_write c REG_A0 (ucast (- 1 :: u32)))
      else if eid = EXT_SET_TIMER then do {
        sbi_set_timer h a0 a1;
        upd_cpu h (\<lambda>c. reg_write c REG_A0 0)
      }
      else if eid = EXT_SHUTDOWN then upd_cpu h sbi_halt
      else if eid = EXT_BASE then upd_cpu h (sbi_base fid a0)
      else if eid = EXT_TIME then
        (if fid = 0 then do { sbi_set_timer h a0 a1; upd_cpu h (sbi_return SBI_SUCCESS 0) }
         else upd_cpu h (sbi_return SBI_ERR_NOT_SUPPORTED 0))
      else if eid = EXT_SRST then
        (if fid = 0 then (if a0 \<le> 2 then upd_cpu h sbi_halt else upd_cpu h (sbi_return SBI_ERR_INVALID_PARAM 0))
         else upd_cpu h (sbi_return SBI_ERR_NOT_SUPPORTED 0))
      else if eid = EXT_HSM then sbi_hsm h fid
      else upd_cpu h (sbi_return SBI_ERR_NOT_SUPPORTED 0))
   }"

subsection \<open>System calls\<close>

definition put_byte :: "bool \<Rightarrow> u32 \<Rightarrow> nat \<Rightarrow> Memory \<Rightarrow> Memory" where
  "put_byte to_err buf i m =
     (let (b, m) = mem_read8 m (ucast (buf + of_nat i))
      in if to_err then m\<lparr>merr := merr m @ [b]\<rparr> else m\<lparr>mcon := mcon m @ [b]\<rparr>)"

definition sys_write :: "u32 \<Rightarrow> unit mach" where
  "sys_write h = do {
     c \<leftarrow> get_cpu h;
     let fd = (ucast (reg_read c REG_A0) :: u32);
     let buf = (ucast (reg_read c REG_A1) :: u32);
     let cnt = (ucast (reg_read c REG_A2) :: u32);
     (if fd \<noteq> 1 \<and> fd \<noteq> 2 then upd_cpu h (\<lambda>c. reg_write c REG_A0 (ucast (- 1 :: u32)))
      else do {
        mem_upd (fold (put_byte (fd = 2) buf) [0..<unat cnt]);
        upd_cpu h (\<lambda>c. reg_write c REG_A0 (ucast cnt))
      })
   }"

definition sys_exit :: "CPU \<Rightarrow> CPU" where
  "sys_exit c = halt_with HALT_EXIT (c\<lparr>exit_code := ucast (reg_read c REG_A0)\<rparr>)"

definition syscall_dispatch :: "u32 \<Rightarrow> unit mach" where
  "syscall_dispatch h = do {
     c \<leftarrow> get_cpu h;
     let num = (ucast (reg_read c REG_A7) :: u32);
     (if num = SYS_write then sys_write h
      else if num = SYS_exit \<or> num = SYS_exit_group then upd_cpu h sys_exit
      else upd_cpu h (halt_with HALT_UNKNOWN_SYSCALL))
   }"

end
