(* ===== verification/Softfloat.thy ===== *)
theory Softfloat
  imports Quanta_Prelude
begin

text \<open>
  IEEE-754 binary32 and binary64 arithmetic (\<open>src/src/softfloat.c\<close>): the two-word and four-word
  integer helpers, unpacking, the round-and-pack step and every operation, generic over the format
  descriptor as in the code.

  A C \<open>int\<close> used as an exponent or a shift count is an \<open>int\<close> (the values stay within a few
  thousand). An operation that takes \<open>unsigned *flags\<close> returns, beside its result, the flags it
  raises; the C code ORs exactly these into the accumulator. The fields of an unpacked infinity or
  NaN that C leaves uninitialised are 0 here; no operation reads them.
\<close>

abbreviation (input) SF_RNE :: u32 where "SF_RNE \<equiv> 0"
abbreviation (input) SF_RTZ :: u32 where "SF_RTZ \<equiv> 1"
abbreviation (input) SF_RDN :: u32 where "SF_RDN \<equiv> 2"
abbreviation (input) SF_RUP :: u32 where "SF_RUP \<equiv> 3"
abbreviation (input) SF_RMM :: u32 where "SF_RMM \<equiv> 4"

abbreviation (input) SF_NX :: u32 where "SF_NX \<equiv> 0x01"
abbreviation (input) SF_UF :: u32 where "SF_UF \<equiv> 0x02"
abbreviation (input) SF_OF :: u32 where "SF_OF \<equiv> 0x04"
abbreviation (input) SF_DZ :: u32 where "SF_DZ \<equiv> 0x08"
abbreviation (input) SF_NV :: u32 where "SF_NV \<equiv> 0x10"

abbreviation (input) F32_QNAN :: u32 where "F32_QNAN \<equiv> 0x7fc00000"
abbreviation (input) F64_QNAN :: u64 where "F64_QNAN \<equiv> 0x7ff8000000000000"

subsection \<open>Two-word integers\<close>

record u128 =
  hi :: u64
  lo :: u64

definition mk128 :: "u64 \<Rightarrow> u64 \<Rightarrow> u128" where
  "mk128 h l = \<lparr>hi = h, lo = l\<rparr>"

definition is0_128 :: "u128 \<Rightarrow> bool" where
  "is0_128 a \<longleftrightarrow> hi a OR lo a = 0"

definition clz64 :: "u64 \<Rightarrow> int" where
  "clz64 x =
     (if x = 0 then 64
      else let (n, x) = (0, x);
               (n, x) = (if x \<le> 0x00000000FFFFFFFF then (n + 32, shl x 32) else (n, x));
               (n, x) = (if x \<le> 0x0000FFFFFFFFFFFF then (n + 16, shl x 16) else (n, x));
               (n, x) = (if x \<le> 0x00FFFFFFFFFFFFFF then (n + 8, shl x 8) else (n, x));
               (n, x) = (if x \<le> 0x0FFFFFFFFFFFFFFF then (n + 4, shl x 4) else (n, x));
               (n, x) = (if x \<le> 0x3FFFFFFFFFFFFFFF then (n + 2, shl x 2) else (n, x))
           in if x \<le> 0x7FFFFFFFFFFFFFFF then n + 1 else n)"

definition clz128 :: "u128 \<Rightarrow> int" where
  "clz128 a = (if hi a \<noteq> 0 then clz64 (hi a) else 64 + clz64 (lo a))"

definition msb128 :: "u128 \<Rightarrow> int" where
  "msb128 a = 127 - clz128 a"

definition get_bit128 :: "u128 \<Rightarrow> int \<Rightarrow> u64" where
  "get_bit128 a i =
     (if i < 0 \<or> i > 127 then 0
      else (if i \<ge> 64 then shr (hi a) (nat (i - 64)) else shr (lo a) (nat i)) AND 1)"

definition cmp128 :: "u128 \<Rightarrow> u128 \<Rightarrow> int" where
  "cmp128 a b =
     (if hi a \<noteq> hi b then (if hi a < hi b then - 1 else 1)
      else if lo a \<noteq> lo b then (if lo a < lo b then - 1 else 1)
      else 0)"

definition add128 :: "u128 \<Rightarrow> u128 \<Rightarrow> u128" where
  "add128 a b = (let l = lo a + lo b in mk128 (hi a + hi b + of_flag (l < lo a)) l)"

definition sub128 :: "u128 \<Rightarrow> u128 \<Rightarrow> u128" where
  "sub128 a b = mk128 (hi a - hi b - of_flag (lo a < lo b)) (lo a - lo b)"

definition shl128 :: "u128 \<Rightarrow> int \<Rightarrow> u128" where
  "shl128 a n =
     (if n \<le> 0 then a
      else if n \<ge> 64 then mk128 (shl (lo a) (nat (n - 64))) 0
      else mk128 (shl (hi a) (nat n) OR shr (lo a) (nat (64 - n))) (shl (lo a) (nat n)))"

definition shr128_jam :: "u128 \<Rightarrow> int \<Rightarrow> u128 \<times> bool" where
  "shr128_jam a n =
     (if n \<le> 0 then (a, False)
      else if n \<ge> 128 then (mk128 0 0, \<not> is0_128 a)
      else if n \<ge> 64 then
        (let m = nat (n - 64);
             lostbits = lo a OR (if m \<noteq> 0 then hi a AND (shl 1 m - 1) else 0)
         in (mk128 0 (if m \<noteq> 0 then shr (hi a) m else hi a), lostbits \<noteq> 0))
      else
        (let lostbits = lo a AND (shl 1 (nat n) - 1)
         in (mk128 (shr (hi a) (nat n)) (shr (lo a) (nat n) OR shl (hi a) (nat (64 - n))), lostbits \<noteq> 0)))"

definition mul64 :: "u64 \<Rightarrow> u64 \<Rightarrow> u128" where
  "mul64 a b =
     (let al = ucast (ucast a :: u32); ah = shr a 32; bl = ucast (ucast b :: u32); bh = shr b 32;
          ll = al * bl; lh = al * bh; hl = ah * bl; hh = ah * bh;
          cross = shr ll 32 + ucast (ucast lh :: u32) + ucast (ucast hl :: u32)
      in mk128 (hh + shr lh 32 + shr hl 32 + shr cross 32) ((ll AND 0xffffffff) OR shl cross 32))"

definition udiv_step :: "u128 \<Rightarrow> u64 \<Rightarrow> nat \<Rightarrow> u64 \<times> u64 \<Rightarrow> u64 \<times> u64" where
  "udiv_step num den i = (\<lambda>(q, r).
     (let carry = shr r 63;
          r = shl r 1 OR (shr (lo num) i AND 1)
      in if carry \<noteq> 0 \<or> r \<ge> den then (q OR shl 1 i, r - den) else (q, r)))"

text \<open>The quotient and the remainder.\<close>

definition udiv128by64 :: "u128 \<Rightarrow> u64 \<Rightarrow> u64 \<times> u64" where
  "udiv128by64 num den = fold (udiv_step num den) (rev [0..<64]) (0, hi num)"

definition isqrt_step :: "u128 \<Rightarrow> nat \<Rightarrow> u64 \<times> u128 \<Rightarrow> u64 \<times> u128" where
  "isqrt_step x i = (\<lambda>(root, rem).
     (let rem = shl128 rem 2;
          rem = add128 rem (mk128 0 (shl (get_bit128 x (2 * int i + 1)) 1 OR get_bit128 x (2 * int i)));
          trial = add128 (shl128 (mk128 0 root) 2) (mk128 0 1)
      in if cmp128 rem trial \<ge> 0 then (shl root 1 OR 1, sub128 rem trial) else (shl root 1, rem)))"

definition isqrt128 :: "u128 \<Rightarrow> u64 \<times> bool" where
  "isqrt128 x = (let (root, rem) = fold (isqrt_step x) (rev [0..<64]) (0, mk128 0 0) in (root, \<not> is0_128 rem))"

definition srjam64 :: "u64 \<Rightarrow> int \<Rightarrow> u64" where
  "srjam64 a dist =
     (if dist = 0 then a
      else if dist \<ge> 64 then of_flag (a \<noteq> 0)
      else shr a (nat dist) OR (if a AND (shl 1 (nat dist) - 1) \<noteq> 0 then 1 else 0))"

subsection \<open>Formats, unpacking\<close>

record Fmt =
  mantbits :: nat
  expbits :: nat
  bias :: int
  width :: nat

definition F32 :: Fmt where
  "F32 = \<lparr>mantbits = 23, expbits = 8, bias = 127, width = 32\<rparr>"

definition F64 :: Fmt where
  "F64 = \<lparr>mantbits = 52, expbits = 11, bias = 1023, width = 64\<rparr>"

datatype Cls = CLS_ZERO | CLS_NORMAL | CLS_INF | CLS_NAN

record Up =
  sgn_of :: bool
  cls :: Cls
  snan :: bool
  sig :: u128
  exp2 :: int

definition qnan_bits :: "Fmt \<Rightarrow> u64" where
  "qnan_bits f = (if width f = 32 then ucast F32_QNAN else F64_QNAN)"

definition sign_bit :: "Fmt \<Rightarrow> u64" where
  "sign_bit f = shl 1 (width f - 1)"

definition pack_raw :: "Fmt \<Rightarrow> bool \<Rightarrow> u64 \<Rightarrow> u64 \<Rightarrow> u64" where
  "pack_raw f s expfield frac = shl (of_flag s) (width f - 1) OR shl expfield (mantbits f) OR frac"

definition make_inf :: "Fmt \<Rightarrow> bool \<Rightarrow> u64" where
  "make_inf f s = pack_raw f s (shl 1 (expbits f) - 1) 0"

definition make_zero :: "Fmt \<Rightarrow> bool \<Rightarrow> u64" where
  "make_zero f s = (if s then sign_bit f else 0)"

definition unpack :: "Fmt \<Rightarrow> u64 \<Rightarrow> Up" where
  "unpack f w =
     (let allones = shl 1 (expbits f) - 1;
          fracmask = shl 1 (mantbits f) - 1;
          s = shr w (width f - 1) AND 1 \<noteq> 0;
          ex = shr w (mantbits f) AND allones;
          frac = w AND fracmask;
          u = \<lparr>sgn_of = s, cls = CLS_ZERO, snan = False, sig = mk128 0 0, exp2 = 0\<rparr>
      in if ex = 0 then
           (if frac = 0 then u
            else u\<lparr>cls := CLS_NORMAL, sig := mk128 0 frac, exp2 := (1 - bias f) - int (mantbits f)\<rparr>)
         else if ex = allones then
           (if frac = 0 then u\<lparr>cls := CLS_INF\<rparr>
            else u\<lparr>cls := CLS_NAN, snan := (shr frac (mantbits f - 1) AND 1 = 0)\<rparr>)
         else u\<lparr>cls := CLS_NORMAL, sig := mk128 0 (shl 1 (mantbits f) OR frac),
                exp2 := (uint ex - bias f) - int (mantbits f)\<rparr>)"

subsection \<open>Round and pack\<close>

definition roundpack :: "Fmt \<Rightarrow> bool \<Rightarrow> int \<Rightarrow> u64 \<Rightarrow> u32 \<Rightarrow> u64 \<times> u32" where
  "roundpack f s ex sigp rm =
     (let R = (if width f = 32 then 7 else 10);
          roundMask = shl 1 R - 1;
          half = shl 1 (R - 1);
          roundInc = (if rm \<noteq> SF_RNE \<and> rm \<noteq> SF_RMM
                      then (if rm = (if s then SF_RDN else SF_RUP) then roundMask else 0)
                      else half);
          roundBits = sigp AND roundMask;
          infExp = uint (shl 1 (expbits f) - 1 :: u64);
          overflowBit = (if width f = 32 then 0x80000000 else 0x8000000000000000);
          finish = (\<lambda>ex sigp roundBits fl.
            (let fl = (if roundBits \<noteq> 0 then fl OR SF_NX else fl);
                 sg = shr (sigp + roundInc) R;
                 sg = (if rm = SF_RNE \<and> roundBits = half then sg AND NOT 1 else sg);
                 ex = (if sg = 0 then 0 else ex)
             in (shl (of_flag s) (width f - 1) + shl (word_of_int ex) (mantbits f) + sg, fl)))
      in if (word_of_int ex :: u32) \<ge> word_of_int (infExp - 2) then
           (if ex < 0 then
              (let isTiny = (ex < - 1 \<or> sigp + roundInc < overflowBit);
                   sigp = srjam64 sigp (- ex);
                   roundBits = sigp AND roundMask
               in finish 0 sigp roundBits (if isTiny \<and> roundBits \<noteq> 0 then SF_UF else 0))
            else if ex > infExp - 2 \<or> sigp + roundInc \<ge> overflowBit then
              (let inf = make_inf f s in (if roundInc \<noteq> 0 then inf else inf - 1, SF_OF OR SF_NX))
            else finish ex sigp roundBits 0)
         else finish ex sigp roundBits 0)"

definition round_mag :: "Fmt \<Rightarrow> bool \<Rightarrow> u128 \<Rightarrow> int \<Rightarrow> bool \<Rightarrow> u32 \<Rightarrow> u64 \<times> u32" where
  "round_mag f s mant e2 sticky rm =
     (if is0_128 mant then (make_zero f s, 0)
      else
        (let leadpos = (if width f = 32 then 30 else 62);
             mb = msb128 mant;
             expB = e2 + mb + bias f;
             shift = leadpos - mb;
             sigp = (if shift \<ge> 0 then
                       (let sigp = lo (shl128 mant shift) in if sticky then sigp OR 1 else sigp)
                     else
                       (let (r, lost) = shr128_jam mant (- shift) in if lost \<or> sticky then lo r OR 1 else lo r))
         in roundpack f s (expB - 1) sigp rm))"

subsection \<open>Four-word integers\<close>

text \<open>\<open>w[0]\<close> is the least significant word.\<close>

type_synonym u256 = "u64 list"

definition u256_from128 :: "u128 \<Rightarrow> u256" where
  "u256_from128 a = [lo a, hi a, 0, 0]"

definition is0_256 :: "u256 \<Rightarrow> bool" where
  "is0_256 a \<longleftrightarrow> a ! 0 OR a ! 1 OR a ! 2 OR a ! 3 = 0"

definition msb256 :: "u256 \<Rightarrow> int" where
  "msb256 a = (case List.find (\<lambda>i. a ! i \<noteq> 0) [3, 2, 1, 0] of
     Some i \<Rightarrow> int i * 64 + (63 - clz64 (a ! i)) | None \<Rightarrow> - 1)"

definition cmp256 :: "u256 \<Rightarrow> u256 \<Rightarrow> int" where
  "cmp256 a b = (case List.find (\<lambda>i. a ! i \<noteq> b ! i) [3, 2, 1, 0] of
     Some i \<Rightarrow> if a ! i < b ! i then - 1 else 1 | None \<Rightarrow> 0)"

fun add_words :: "u64 \<Rightarrow> u64 list \<Rightarrow> u64 list \<Rightarrow> u64 list" where
  "add_words carry (a # as) (b # bs) =
     (let s = a + carry; c1 = of_flag (s < carry);
          s = s + b; c2 = of_flag (s < b)
      in s # add_words (c1 + c2) as bs)"
| "add_words carry _ _ = []"

definition add256 :: "u256 \<Rightarrow> u256 \<Rightarrow> u256" where
  "add256 a b = add_words 0 a b"

fun sub_words :: "u64 \<Rightarrow> u64 list \<Rightarrow> u64 list \<Rightarrow> u64 list" where
  "sub_words borrow (a # as) (b # bs) =
     (let bi = b + borrow; b0 = of_flag (bi < borrow);
          d = a - bi; b1 = of_flag (a < bi)
      in d # sub_words (b0 + b1) as bs)"
| "sub_words borrow _ _ = []"

definition sub256 :: "u256 \<Rightarrow> u256 \<Rightarrow> u256" where
  "sub256 a b = sub_words 0 a b"

definition shl128_256 :: "u128 \<Rightarrow> int \<Rightarrow> u256" where
  "shl128_256 a n =
     (if n \<ge> 256 then [0, 0, 0, 0]
      else let s = u256_from128 a; word = nat n div 64; bt = nat n mod 64
           in map (\<lambda>i. if i \<ge> word then
                         (let v = shl (s ! (i - word)) bt
                          in if bt \<noteq> 0 \<and> i \<ge> word + 1 then v OR shr (s ! (i - word - 1)) (64 - bt) else v)
                       else 0) [0..<4])"

definition shr256_jam :: "u256 \<Rightarrow> int \<Rightarrow> u256 \<times> bool" where
  "shr256_jam a n =
     (if n \<le> 0 then (a, False)
      else if n \<ge> 256 then ([0, 0, 0, 0], \<not> is0_256 a)
      else let word = nat n div 64; bt = nat n mod 64;
               lost = ((\<exists>i\<in>set [0..<word]. a ! i \<noteq> 0) \<or> (bt \<noteq> 0 \<and> a ! word AND (shl 1 bt - 1) \<noteq> 0))
           in (map (\<lambda>i. if i + word < 4 then
                          (let v = shr (a ! (i + word)) bt
                           in if bt \<noteq> 0 \<and> i + word + 1 < 4 then v OR shl (a ! (i + word + 1)) (64 - bt) else v)
                        else 0) [0..<4], lost))"

subsection \<open>Addition\<close>

definition add_core :: "Fmt \<Rightarrow> bool \<Rightarrow> u128 \<Rightarrow> int \<Rightarrow> bool \<Rightarrow> u128 \<Rightarrow> int \<Rightarrow> u32 \<Rightarrow> u64 \<times> u32" where
  "add_core f sX sigX eX sY sigY eY rm =
     (let lX = eX + msb128 sigX; lY = eY + msb128 sigY;
          (sX, sigX, eX, sY, sigY, eY, lX) =
            (if lY > lX then (sY, sigY, eY, sX, sigX, eX, lY) else (sX, sigX, eX, sY, sigY, eY, lX));
          wbot = lX - 253;
          A = shl128_256 sigX (eX - wbot);
          shY = eY - wbot;
          (B, stickyY) = (if shY \<ge> 0 then (shl128_256 sigY shY, False)
                          else shr256_jam (u256_from128 sigY) (- shY));
          finish = (\<lambda>M s sticky.
            (if is0_256 M \<and> \<not> sticky then (make_zero f (rm = SF_RDN), 0)
             else
               (let mb = msb256 M;
                    (mant, e2, sticky) =
                      (if mb \<le> 127 then (mk128 (M ! 1) (M ! 0), wbot, sticky)
                       else (let (red, lost) = shr256_jam M (mb - 127)
                             in (mk128 (red ! 1) (red ! 0), wbot + (mb - 127), if lost then True else sticky)))
                in round_mag f s mant e2 sticky rm)))
      in if sX = sY then finish (add256 A B) sX stickyY
         else (let c = cmp256 A B
               in if c > 0 then
                    (let M = sub256 A B
                     in if stickyY then finish (sub256 M (u256_from128 (mk128 0 1))) sX True
                        else finish M sX False)
                  else if c < 0 then finish (sub256 B A) sY stickyY
                  else (make_zero f (rm = SF_RDN), 0)))"

subsection \<open>Arithmetic\<close>

definition nan_flags :: "bool \<Rightarrow> u32" where
  "nan_flags invalid = (if invalid then SF_NV else 0)"

definition fp_add :: "Fmt \<Rightarrow> u64 \<Rightarrow> u64 \<Rightarrow> bool \<Rightarrow> u32 \<Rightarrow> u64 \<times> u32" where
  "fp_add f a b sub rm =
     (let ua = unpack f a; ub = unpack f b;
          ub = (if sub then ub\<lparr>sgn_of := \<not> sgn_of ub\<rparr> else ub)
      in if cls ua = CLS_NAN \<or> cls ub = CLS_NAN then (qnan_bits f, nan_flags (snan ua \<or> snan ub))
         else if cls ua = CLS_INF \<or> cls ub = CLS_INF then
           (if cls ua = CLS_INF \<and> cls ub = CLS_INF then
              (if sgn_of ua \<noteq> sgn_of ub then (qnan_bits f, SF_NV) else (make_inf f (sgn_of ua), 0))
            else (make_inf f (if cls ua = CLS_INF then sgn_of ua else sgn_of ub), 0))
         else if cls ua = CLS_ZERO \<and> cls ub = CLS_ZERO then
           (if sgn_of ua = sgn_of ub then (make_zero f (sgn_of ua), 0) else (make_zero f (rm = SF_RDN), 0))
         else if cls ua = CLS_ZERO then (if sub then b XOR sign_bit f else b, 0)
         else if cls ub = CLS_ZERO then (a, 0)
         else add_core f (sgn_of ua) (sig ua) (exp2 ua) (sgn_of ub) (sig ub) (exp2 ub) rm)"

definition fp_mul :: "Fmt \<Rightarrow> u64 \<Rightarrow> u64 \<Rightarrow> u32 \<Rightarrow> u64 \<times> u32" where
  "fp_mul f a b rm =
     (let ua = unpack f a; ub = unpack f b; s = (sgn_of ua \<noteq> sgn_of ub)
      in if cls ua = CLS_NAN \<or> cls ub = CLS_NAN then (qnan_bits f, nan_flags (snan ua \<or> snan ub))
         else if cls ua = CLS_INF \<or> cls ub = CLS_INF then
           (if cls ua = CLS_ZERO \<or> cls ub = CLS_ZERO then (qnan_bits f, SF_NV) else (make_inf f s, 0))
         else if cls ua = CLS_ZERO \<or> cls ub = CLS_ZERO then (make_zero f s, 0)
         else round_mag f s (mul64 (lo (sig ua)) (lo (sig ub))) (exp2 ua + exp2 ub) False rm)"

definition norm_operand :: "Up \<Rightarrow> Fmt \<Rightarrow> Up" where
  "norm_operand u f =
     (if cls u \<noteq> CLS_NORMAL \<or> is0_128 (sig u) then u
      else let shift = int (mantbits f) - msb128 (sig u)
           in if shift > 0 then u\<lparr>sig := shl128 (sig u) shift, exp2 := exp2 u - shift\<rparr> else u)"

definition fp_div :: "Fmt \<Rightarrow> u64 \<Rightarrow> u64 \<Rightarrow> u32 \<Rightarrow> u64 \<times> u32" where
  "fp_div f a b rm =
     (let ua = unpack f a; ub = unpack f b; s = (sgn_of ua \<noteq> sgn_of ub)
      in if cls ua = CLS_NAN \<or> cls ub = CLS_NAN then (qnan_bits f, nan_flags (snan ua \<or> snan ub))
         else if cls ua = CLS_INF then
           (if cls ub = CLS_INF then (qnan_bits f, SF_NV) else (make_inf f s, 0))
         else if cls ub = CLS_INF then (make_zero f s, 0)
         else if cls ub = CLS_ZERO then
           (if cls ua = CLS_ZERO then (qnan_bits f, SF_NV) else (make_inf f s, SF_DZ))
         else if cls ua = CLS_ZERO then (make_zero f s, 0)
         else
           (let ua = norm_operand ua f; ub = norm_operand ub f;
                P = (if width f = 32 then 28 else 61);
                num = shl128 (sig ua) P;
                (q, rem) = udiv128by64 num (lo (sig ub))
            in round_mag f s (mk128 0 q) (exp2 ua - exp2 ub - P) (rem \<noteq> 0) rm))"

text \<open>\<open>e / 2\<close> is exact: \<open>e\<close> is even by then.\<close>

definition fp_sqrt :: "Fmt \<Rightarrow> u64 \<Rightarrow> u32 \<Rightarrow> u64 \<times> u32" where
  "fp_sqrt f a rm =
     (let ua = unpack f a
      in if cls ua = CLS_NAN then (qnan_bits f, nan_flags (snan ua))
         else if cls ua = CLS_ZERO then (a, 0)
         else if sgn_of ua then (qnan_bits f, SF_NV)
         else if cls ua = CLS_INF then (make_inf f False, 0)
         else
           (let ua = norm_operand ua f;
                (s, e) = (if odd (exp2 ua) then (shl128 (sig ua) 1, exp2 ua - 1) else (sig ua, exp2 ua));
                P = (if width f = 32 then 28 else 35);
                (root, rem_nz) = isqrt128 (shl128 s (2 * P))
            in round_mag f False (mk128 0 root) (e div 2 - P) rem_nz rm))"

definition fp_muladd :: "Fmt \<Rightarrow> u64 \<Rightarrow> u64 \<Rightarrow> u64 \<Rightarrow> u32 \<Rightarrow> u64 \<times> u32" where
  "fp_muladd f a b c rm =
     (let ua = unpack f a; ub = unpack f b; uc = unpack f c;
          psign = (sgn_of ua \<noteq> sgn_of ub);
          prod_invalid = ((cls ua = CLS_INF \<and> cls ub = CLS_ZERO) \<or> (cls ua = CLS_ZERO \<and> cls ub = CLS_INF))
      in if cls ua = CLS_NAN \<or> cls ub = CLS_NAN \<or> cls uc = CLS_NAN \<or> prod_invalid then
           (qnan_bits f, nan_flags (snan ua \<or> snan ub \<or> snan uc \<or> prod_invalid))
         else if cls ua = CLS_INF \<or> cls ub = CLS_INF then
           (if cls uc = CLS_INF \<and> sgn_of uc \<noteq> psign then (qnan_bits f, SF_NV) else (make_inf f psign, 0))
         else if cls uc = CLS_INF then (make_inf f (sgn_of uc), 0)
         else if cls ua = CLS_ZERO \<or> cls ub = CLS_ZERO then
           (if cls uc = CLS_ZERO then
              (if psign = sgn_of uc then (make_zero f psign, 0) else (make_zero f (rm = SF_RDN), 0))
            else (c, 0))
         else
           (let sigP = mul64 (lo (sig ua)) (lo (sig ub)); eP = exp2 ua + exp2 ub
            in if cls uc = CLS_ZERO then round_mag f psign sigP eP False rm
               else add_core f psign sigP eP (sgn_of uc) (sig uc) (exp2 uc) rm))"

subsection \<open>Comparison and classification\<close>

definition fcmp :: "Fmt \<Rightarrow> u64 \<Rightarrow> u64 \<Rightarrow> int" where
  "fcmp f a b =
     (let ua = unpack f a; ub = unpack f b
      in if cls ua = CLS_ZERO \<and> cls ub = CLS_ZERO then 0
         else if sgn_of ua \<noteq> sgn_of ub then (if sgn_of ua then - 1 else 1)
         else
           (let mag =
              (if cls ua = CLS_INF \<or> cls ub = CLS_INF then of_bool (cls ua = CLS_INF) - of_bool (cls ub = CLS_INF)
               else
                 (let la = exp2 ua + (if cls ua = CLS_ZERO then - 100000 else msb128 (sig ua));
                      lb = exp2 ub + (if cls ub = CLS_ZERO then - 100000 else msb128 (sig ub))
                  in if la \<noteq> lb then (if la < lb then - 1 else 1)
                     else cmp128 (shl128 (sig ua) (127 - msb128 (sig ua))) (shl128 (sig ub) (127 - msb128 (sig ub)))))
            in if sgn_of ua then - mag else mag))"

definition fp_eq :: "Fmt \<Rightarrow> u64 \<Rightarrow> u64 \<Rightarrow> bool \<times> u32" where
  "fp_eq f a b =
     (let ua = unpack f a; ub = unpack f b
      in if cls ua = CLS_NAN \<or> cls ub = CLS_NAN then (False, nan_flags (snan ua \<or> snan ub))
         else (fcmp f a b = 0, 0))"

definition fp_lt :: "Fmt \<Rightarrow> u64 \<Rightarrow> u64 \<Rightarrow> bool \<times> u32" where
  "fp_lt f a b =
     (let ua = unpack f a; ub = unpack f b
      in if cls ua = CLS_NAN \<or> cls ub = CLS_NAN then (False, SF_NV) else (fcmp f a b < 0, 0))"

definition fp_le :: "Fmt \<Rightarrow> u64 \<Rightarrow> u64 \<Rightarrow> bool \<times> u32" where
  "fp_le f a b =
     (let ua = unpack f a; ub = unpack f b
      in if cls ua = CLS_NAN \<or> cls ub = CLS_NAN then (False, SF_NV) else (fcmp f a b \<le> 0, 0))"

definition fp_minmax :: "Fmt \<Rightarrow> u64 \<Rightarrow> u64 \<Rightarrow> bool \<Rightarrow> u64 \<times> u32" where
  "fp_minmax f a b want_max =
     (let ua = unpack f a; ub = unpack f b
      in if cls ua = CLS_NAN \<or> cls ub = CLS_NAN then
           (if cls ua = CLS_NAN \<and> cls ub = CLS_NAN then qnan_bits f else if cls ua = CLS_NAN then b else a,
            nan_flags (snan ua \<or> snan ub))
         else
           (let c = fcmp f a b
            in (if c = 0 then (if sgn_of ua = (\<not> want_max) then a else b)
                else if want_max then (if c > 0 then a else b)
                else if c < 0 then a else b, 0)))"

definition fp_classify :: "Fmt \<Rightarrow> u64 \<Rightarrow> u32" where
  "fp_classify f a =
     (let u = unpack f a;
          subnormal = (shr a (mantbits f) AND (shl 1 (expbits f) - 1) = 0)
      in case cls u of
           CLS_INF \<Rightarrow> if sgn_of u then shl 1 0 else shl 1 7
         | CLS_ZERO \<Rightarrow> if sgn_of u then shl 1 3 else shl 1 4
         | CLS_NAN \<Rightarrow> if snan u then shl 1 8 else shl 1 9
         | CLS_NORMAL \<Rightarrow> if subnormal then (if sgn_of u then shl 1 2 else shl 1 5)
                           else if sgn_of u then shl 1 1 else shl 1 6)"

subsection \<open>Conversions\<close>

definition single :: "u64 \<times> u32 \<Rightarrow> u32 \<times> u32" where
  "single r = (ucast (fst r), snd r)"

definition f32_to_f64 :: "u32 \<Rightarrow> u64 \<times> u32" where
  "f32_to_f64 a =
     (let u = unpack F32 (ucast a)
      in if cls u = CLS_NAN then (F64_QNAN, nan_flags (snan u))
         else if cls u = CLS_INF then (make_inf F64 (sgn_of u), 0)
         else if cls u = CLS_ZERO then (make_zero F64 (sgn_of u), 0)
         else round_mag F64 (sgn_of u) (sig u) (exp2 u) False SF_RNE)"

definition f64_to_f32 :: "u64 \<Rightarrow> u32 \<Rightarrow> u32 \<times> u32" where
  "f64_to_f32 a rm =
     (let u = unpack F64 a
      in if cls u = CLS_NAN then (F32_QNAN, nan_flags (snan u))
         else if cls u = CLS_INF then (ucast (make_inf F32 (sgn_of u)), 0)
         else if cls u = CLS_ZERO then (ucast (make_zero F32 (sgn_of u)), 0)
         else single (round_mag F32 (sgn_of u) (sig u) (exp2 u) False rm))"

text \<open>The magnitude, the overflow flag and the inexact flag.\<close>

definition to_int_mag :: "u64 \<Rightarrow> int \<Rightarrow> bool \<Rightarrow> u32 \<Rightarrow> u64 \<times> bool \<times> bool" where
  "to_int_mag sg e2 s rm =
     (if sg = 0 then (0, False, False)
      else if e2 \<ge> 0 then
        (let top = 63 - clz64 sg
         in if top + e2 > 63 then (0, True, False) else (shl sg (nat e2), False, False))
      else
        (let rsh = - e2;
             floorv = (if rsh \<ge> 64 then 0 else shr sg (nat rsh));
             roundbit = (if rsh \<ge> 1 \<and> rsh \<le> 64 then shr sg (nat (rsh - 1)) AND 1 \<noteq> 0 else False);
             belowmask = (if rsh - 1 \<ge> 64 then - 1 else if rsh \<ge> 1 then shl 1 (nat (rsh - 1)) - 1 else 0);
             sticky = (sg AND belowmask \<noteq> 0);
             inexact = (roundbit \<or> sticky);
             inc = (if rm = SF_RNE then roundbit \<and> (sticky \<or> floorv AND 1 \<noteq> 0)
                    else if rm = SF_RTZ then False
                    else if rm = SF_RDN then s \<and> inexact
                    else if rm = SF_RUP then \<not> s \<and> inexact
                    else if rm = SF_RMM then roundbit
                    else False)
         in (floorv + of_flag inc, False, inexact)))"

definition fp_to_int :: "Fmt \<Rightarrow> u64 \<Rightarrow> bool \<Rightarrow> nat \<Rightarrow> u32 \<Rightarrow> u64 \<times> u32" where
  "fp_to_int f a is_signed intbits rm =
     (let u = unpack f a;
          allbits = (if intbits \<ge> 64 then - 1 else shl 1 intbits - 1);
          maxpos = (if is_signed then shl 1 (intbits - 1) - 1 else allbits);
          minneg = (if is_signed then shl 1 (intbits - 1) else 0)
      in if cls u = CLS_NAN then (maxpos, SF_NV)
         else if cls u = CLS_ZERO then (0, 0)
         else if cls u = CLS_INF then (if sgn_of u then minneg else maxpos, SF_NV)
         else
           (let (mag, overflow, inexact) = to_int_mag (lo (sig u)) (exp2 u) (sgn_of u) rm;
                nx = (if inexact then SF_NX else 0)
            in if sgn_of u then
                 (if overflow \<or> mag > minneg then (minneg, SF_NV)
                  else if \<not> is_signed \<and> mag \<noteq> 0 then (0, SF_NV)
                  else (- mag AND allbits, nx))
               else if overflow \<or> mag > maxpos then (maxpos, SF_NV)
               else (mag, nx)))"

definition int_to_fp :: "Fmt \<Rightarrow> u64 \<Rightarrow> bool \<Rightarrow> u32 \<Rightarrow> u64 \<times> u32" where
  "int_to_fp f mag s rm = (if mag = 0 then (0, 0) else round_mag f s (mk128 0 mag) 0 False rm)"

definition sint_to_fp :: "Fmt \<Rightarrow> u64 \<Rightarrow> u32 \<Rightarrow> u64 \<times> u32" where
  "sint_to_fp f a rm = (let s = (a <s 0) in int_to_fp f (if s then - a else a) s rm)"

subsection \<open>Typed entry points\<close>

definition f32_add :: "u32 \<Rightarrow> u32 \<Rightarrow> u32 \<Rightarrow> u32 \<times> u32" where
  "f32_add a b rm = single (fp_add F32 (ucast a) (ucast b) False rm)"

definition f32_sub :: "u32 \<Rightarrow> u32 \<Rightarrow> u32 \<Rightarrow> u32 \<times> u32" where
  "f32_sub a b rm = single (fp_add F32 (ucast a) (ucast b) True rm)"

definition f32_mul :: "u32 \<Rightarrow> u32 \<Rightarrow> u32 \<Rightarrow> u32 \<times> u32" where
  "f32_mul a b rm = single (fp_mul F32 (ucast a) (ucast b) rm)"

definition f32_div :: "u32 \<Rightarrow> u32 \<Rightarrow> u32 \<Rightarrow> u32 \<times> u32" where
  "f32_div a b rm = single (fp_div F32 (ucast a) (ucast b) rm)"

definition f32_sqrt :: "u32 \<Rightarrow> u32 \<Rightarrow> u32 \<times> u32" where
  "f32_sqrt a rm = single (fp_sqrt F32 (ucast a) rm)"

definition f32_muladd :: "u32 \<Rightarrow> u32 \<Rightarrow> u32 \<Rightarrow> u32 \<Rightarrow> u32 \<times> u32" where
  "f32_muladd a b c rm = single (fp_muladd F32 (ucast a) (ucast b) (ucast c) rm)"

definition f64_add :: "u64 \<Rightarrow> u64 \<Rightarrow> u32 \<Rightarrow> u64 \<times> u32" where
  "f64_add a b rm = fp_add F64 a b False rm"

definition f64_sub :: "u64 \<Rightarrow> u64 \<Rightarrow> u32 \<Rightarrow> u64 \<times> u32" where
  "f64_sub a b rm = fp_add F64 a b True rm"

definition f64_mul :: "u64 \<Rightarrow> u64 \<Rightarrow> u32 \<Rightarrow> u64 \<times> u32" where
  "f64_mul a b rm = fp_mul F64 a b rm"

definition f64_div :: "u64 \<Rightarrow> u64 \<Rightarrow> u32 \<Rightarrow> u64 \<times> u32" where
  "f64_div a b rm = fp_div F64 a b rm"

definition f64_sqrt :: "u64 \<Rightarrow> u32 \<Rightarrow> u64 \<times> u32" where
  "f64_sqrt a rm = fp_sqrt F64 a rm"

definition f64_muladd :: "u64 \<Rightarrow> u64 \<Rightarrow> u64 \<Rightarrow> u32 \<Rightarrow> u64 \<times> u32" where
  "f64_muladd a b c rm = fp_muladd F64 a b c rm"

definition f32_eq :: "u32 \<Rightarrow> u32 \<Rightarrow> bool \<times> u32" where
  "f32_eq a b = fp_eq F32 (ucast a) (ucast b)"

definition f32_lt :: "u32 \<Rightarrow> u32 \<Rightarrow> bool \<times> u32" where
  "f32_lt a b = fp_lt F32 (ucast a) (ucast b)"

definition f32_le :: "u32 \<Rightarrow> u32 \<Rightarrow> bool \<times> u32" where
  "f32_le a b = fp_le F32 (ucast a) (ucast b)"

definition f32_min :: "u32 \<Rightarrow> u32 \<Rightarrow> u32 \<times> u32" where
  "f32_min a b = single (fp_minmax F32 (ucast a) (ucast b) False)"

definition f32_max :: "u32 \<Rightarrow> u32 \<Rightarrow> u32 \<times> u32" where
  "f32_max a b = single (fp_minmax F32 (ucast a) (ucast b) True)"

definition f32_classify :: "u32 \<Rightarrow> u32" where
  "f32_classify a = fp_classify F32 (ucast a)"

definition f64_eq :: "u64 \<Rightarrow> u64 \<Rightarrow> bool \<times> u32" where
  "f64_eq a b = fp_eq F64 a b"

definition f64_lt :: "u64 \<Rightarrow> u64 \<Rightarrow> bool \<times> u32" where
  "f64_lt a b = fp_lt F64 a b"

definition f64_le :: "u64 \<Rightarrow> u64 \<Rightarrow> bool \<times> u32" where
  "f64_le a b = fp_le F64 a b"

definition f64_min :: "u64 \<Rightarrow> u64 \<Rightarrow> u64 \<times> u32" where
  "f64_min a b = fp_minmax F64 a b False"

definition f64_max :: "u64 \<Rightarrow> u64 \<Rightarrow> u64 \<times> u32" where
  "f64_max a b = fp_minmax F64 a b True"

definition f64_classify :: "u64 \<Rightarrow> u32" where
  "f64_classify a = fp_classify F64 a"

definition f32_to_i32 :: "u32 \<Rightarrow> u32 \<Rightarrow> u32 \<times> u32" where
  "f32_to_i32 a rm = single (fp_to_int F32 (ucast a) True 32 rm)"

definition f32_to_u32 :: "u32 \<Rightarrow> u32 \<Rightarrow> u32 \<times> u32" where
  "f32_to_u32 a rm = single (fp_to_int F32 (ucast a) False 32 rm)"

definition f32_to_i64 :: "u32 \<Rightarrow> u32 \<Rightarrow> u64 \<times> u32" where
  "f32_to_i64 a rm = fp_to_int F32 (ucast a) True 64 rm"

definition f32_to_u64 :: "u32 \<Rightarrow> u32 \<Rightarrow> u64 \<times> u32" where
  "f32_to_u64 a rm = fp_to_int F32 (ucast a) False 64 rm"

definition f64_to_i32 :: "u64 \<Rightarrow> u32 \<Rightarrow> u32 \<times> u32" where
  "f64_to_i32 a rm = single (fp_to_int F64 a True 32 rm)"

definition f64_to_u32 :: "u64 \<Rightarrow> u32 \<Rightarrow> u32 \<times> u32" where
  "f64_to_u32 a rm = single (fp_to_int F64 a False 32 rm)"

definition f64_to_i64 :: "u64 \<Rightarrow> u32 \<Rightarrow> u64 \<times> u32" where
  "f64_to_i64 a rm = fp_to_int F64 a True 64 rm"

definition f64_to_u64 :: "u64 \<Rightarrow> u32 \<Rightarrow> u64 \<times> u32" where
  "f64_to_u64 a rm = fp_to_int F64 a False 64 rm"

definition i32_to_f32 :: "u32 \<Rightarrow> u32 \<Rightarrow> u32 \<times> u32" where
  "i32_to_f32 a rm = single (sint_to_fp F32 (scast a) rm)"

definition u32_to_f32 :: "u32 \<Rightarrow> u32 \<Rightarrow> u32 \<times> u32" where
  "u32_to_f32 a rm = single (int_to_fp F32 (ucast a) False rm)"

definition i64_to_f32 :: "u64 \<Rightarrow> u32 \<Rightarrow> u32 \<times> u32" where
  "i64_to_f32 a rm = single (sint_to_fp F32 a rm)"

definition u64_to_f32 :: "u64 \<Rightarrow> u32 \<Rightarrow> u32 \<times> u32" where
  "u64_to_f32 a rm = single (int_to_fp F32 a False rm)"

definition i32_to_f64 :: "u32 \<Rightarrow> u32 \<Rightarrow> u64 \<times> u32" where
  "i32_to_f64 a rm = sint_to_fp F64 (scast a) rm"

definition u32_to_f64 :: "u32 \<Rightarrow> u32 \<Rightarrow> u64 \<times> u32" where
  "u32_to_f64 a rm = int_to_fp F64 (ucast a) False rm"

definition i64_to_f64 :: "u64 \<Rightarrow> u32 \<Rightarrow> u64 \<times> u32" where
  "i64_to_f64 a rm = sint_to_fp F64 a rm"

definition u64_to_f64 :: "u64 \<Rightarrow> u32 \<Rightarrow> u64 \<times> u32" where
  "u64_to_f64 a rm = int_to_fp F64 a False rm"

end
