(* ===== verification/Exec.thy ===== *)
theory Exec
  imports Alu Rvc Cache_Model Firmware Softfloat
begin

text \<open>
  Instruction execution (\<open>src/src/cpu.c\<close>): traps, loads and stores, the A, F and D extensions, Zicsr
  and the privileged instructions, and \<open>cpu_step\<close>, one fetch-decode-execute step of hart \<open>h\<close>.

  The handlers run in the machine monad. A handler that only reads and writes its own hart is a
  function on the hart; when such a handler can end in an illegal-instruction trap it returns an
  option, \<open>None\<close> standing for the call \<open>raise_trap(cpu, CAUSE_ILLEGAL_INSN, inst)\<close>, which the C code
  makes before it changes anything.
\<close>

subsection \<open>Traps\<close>

definition legacy_trap :: "u32 \<Rightarrow> u32 \<Rightarrow> unit mach" where
  "legacy_trap h cause =
     (if cause = CAUSE_ECALL_S then sbi_call h
      else if cause = CAUSE_ECALL_U \<or> cause = CAUSE_ECALL_M then syscall_dispatch h
      else if cause = CAUSE_BREAKPOINT then upd_cpu h (halt_with HALT_EBREAK)
      else if cause \<in> {CAUSE_INSN_MISALIGNED, CAUSE_INSN_ACCESS, CAUSE_LOAD_MISALIGNED, CAUSE_LOAD_ACCESS,
                        CAUSE_STORE_MISALIGNED, CAUSE_STORE_ACCESS} then upd_cpu h (halt_with HALT_MEM_FAULT)
      else upd_cpu h (halt_with HALT_ILLEGAL_INSN))"

definition trap_to_s :: "CPU \<Rightarrow> u32 \<Rightarrow> bool" where
  "trap_to_s c cause \<longleftrightarrow> priv c \<le> PRIV_S \<and> shr (csr c CSR_MEDELEG) (unat cause) AND 1 \<noteq> 0"

definition trap_vector :: "CPU \<Rightarrow> u32 \<Rightarrow> u64" where
  "trap_vector c cause = (if trap_to_s c cause then csr c CSR_STVEC else csr c CSR_MTVEC) AND NOT 3"

definition raise_trap :: "u32 \<Rightarrow> u32 \<Rightarrow> u64 \<Rightarrow> unit mach" where
  "raise_trap h cause tval = do {
     c \<leftarrow> get_cpu h;
     (if trap_vector c cause = 0 then legacy_trap h cause
      else upd_cpu h (\<lambda>c. enter_trap c (ucast cause) tval (trap_to_s c cause)))
   }"

definition illegal :: "u32 \<Rightarrow> u32 \<Rightarrow> unit mach" where
  "illegal h inst = raise_trap h CAUSE_ILLEGAL_INSN (ucast inst)"

definition run_or_illegal :: "u32 \<Rightarrow> u32 \<Rightarrow> (CPU \<Rightarrow> u32 \<Rightarrow> CPU option) \<Rightarrow> unit mach" where
  "run_or_illegal h inst exec = do {
     c \<leftarrow> get_cpu h;
     (case exec c inst of None \<Rightarrow> illegal h inst | Some c' \<Rightarrow> upd_cpu h (\<lambda>_. c'))
   }"

subsection \<open>Loads and stores\<close>

definition void_reservation :: "u64 \<Rightarrow> CPU \<Rightarrow> CPU" where
  "void_reservation word c = (if reserve_valid c \<and> reserve_addr c = word then c\<lparr>reserve_valid := False\<rparr> else c)"

text \<open>The sweep over the sibling harts touches each hart once and independently.\<close>

definition break_reservation :: "u32 \<Rightarrow> u64 \<Rightarrow> unit mach" where
  "break_reservation h addr =
     (let word = addr AND NOT 3
      in do {
        m \<leftarrow> get_mem;
        (case mplat m of
           Some p \<Rightarrow>
             if p_harts p \<and> p_nharts p > 1 then
               State_Monad.update (\<lambda>M. M\<lparr>harts := (\<lambda>i. if i < p_nharts p then void_reservation word (harts M i) else harts M i)\<rparr>)
             else upd_cpu h (void_reservation word)
         | None \<Rightarrow> upd_cpu h (void_reservation word))
      })"

definition mmu :: "u32 \<Rightarrow> u64 \<Rightarrow> AccessType \<Rightarrow> (u32 + u64) mach" where
  "mmu h va acc = State (\<lambda>M.
     let (r, c, m) = mmu_translate (harts M h) (mem M) va acc
     in (r, M\<lparr>harts := (harts M)(h := c), mem := m\<rparr>))"

definition observe :: "u32 \<Rightarrow> u64 \<Rightarrow> bool \<Rightarrow> unit mach" where
  "observe h pa is_store = do {
     c \<leftarrow> get_cpu h;
     (if cache_on c then cache_upd (\<lambda>ch. cache_access ch (ucast pa) is_store) else ret ())
   }"

definition load_value :: "CPU \<Rightarrow> u32 \<Rightarrow> u64 \<Rightarrow> u64 mach" where
  "load_value c f3 pa =
     (if f3 = 0x0 then do { v \<leftarrow> mem_get (\<lambda>m. mem_read8 m pa); ret (scast v) }
      else if f3 = 0x1 then do { v \<leftarrow> mem_get (\<lambda>m. mem_read16 m pa); ret (scast v) }
      else if f3 = 0x2 then do { v \<leftarrow> mem_get (\<lambda>m. mem_read32 m pa); ret (scast v) }
      else if f3 = 0x3 \<and> xlen c = 64 then mem_get (\<lambda>m. mem_read64 m pa)
      else if f3 = 0x4 then do { v \<leftarrow> mem_get (\<lambda>m. mem_read8 m pa); ret (ucast v) }
      else if f3 = 0x5 then do { v \<leftarrow> mem_get (\<lambda>m. mem_read16 m pa); ret (ucast v) }
      else if f3 = 0x6 \<and> xlen c = 64 then do { v \<leftarrow> mem_get (\<lambda>m. mem_read32 m pa); ret (ucast v) }
      else ret 0)"

text \<open>The result is what the C function stores through \<open>pa_out\<close>, if it does.\<close>

definition exec_load :: "u32 \<Rightarrow> u32 \<Rightarrow> u64 option mach" where
  "exec_load h inst = do {
     c \<leftarrow> get_cpu h;
     let va = reg_read c (rs1 inst) + scast (imm_i inst);
     r \<leftarrow> mmu h va ACC_LOAD;
     (case r of
        Inl fault \<Rightarrow> do { raise_trap h fault va; ret None }
      | Inr pa \<Rightarrow> do {
          observe h pa False;
          v \<leftarrow> load_value c (funct3 inst) pa;
          upd_cpu h (\<lambda>c. reg_write c (rd inst) v);
          ret (Some pa)
        })
   }"

definition store_value :: "CPU \<Rightarrow> u32 \<Rightarrow> u64 \<Rightarrow> u64 \<Rightarrow> unit mach" where
  "store_value c f3 pa val =
     (if f3 = 0x0 then mem_upd (\<lambda>m. mem_write8 m pa (ucast val))
      else if f3 = 0x1 then mem_upd (\<lambda>m. mem_write16 m pa (ucast val))
      else if f3 = 0x2 then mem_upd (\<lambda>m. mem_write32 m pa (ucast val))
      else if f3 = 0x3 \<and> xlen c = 64 then mem_upd (\<lambda>m. mem_write64 m pa val)
      else ret ())"

definition exec_store :: "u32 \<Rightarrow> u32 \<Rightarrow> u64 option mach" where
  "exec_store h inst = do {
     c \<leftarrow> get_cpu h;
     let va = reg_read c (rs1 inst) + scast (imm_s inst);
     let val = reg_read c (rs2 inst);
     r \<leftarrow> mmu h va ACC_STORE;
     (case r of
        Inl fault \<Rightarrow> do { raise_trap h fault va; ret None }
      | Inr pa \<Rightarrow> do {
          break_reservation h pa;
          observe h pa True;
          store_value c (funct3 inst) pa val;
          ret (Some pa)
        })
   }"

subsection \<open>Zicsr\<close>

definition exec_csr :: "u32 \<Rightarrow> u32 \<Rightarrow> unit mach" where
  "exec_csr h inst = do {
     c \<leftarrow> get_cpu h;
     m \<leftarrow> get_mem;
     let addr = shr inst 20 AND 0xfff;
     let f3 = funct3 inst;
     let rs1f = rs1 inst;
     let src = (if f3 AND 4 \<noteq> 0 then ucast rs1f else reg_read c rs1f);
     let writes = (f3 AND 3 = 1 \<or> rs1f \<noteq> 0);
     let reads = (f3 AND 3 \<noteq> 1 \<or> rd inst \<noteq> 0);
     let rv32_only_csr = addr \<in> {CSR_CYCLEH, CSR_TIMEH, CSR_INSTRETH, CSR_MSTATUSH, CSR_MENVCFGH, CSR_STIMECMPH};
     let sstc_denied = (addr \<in> {CSR_STIMECMP, CSR_STIMECMPH} \<and> priv c = PRIV_S \<and> csr c CSR_MENVCFG AND MENVCFG_STCE = 0);
     (if priv c < shr addr 8 AND 3 \<or> writes \<and> shr addr 10 AND 3 = 3 \<or> xlen c = 64 \<and> rv32_only_csr \<or> sstc_denied
      then illegal h inst
      else do {
        let old = (if reads then csr_read c (mplat m) addr else 0);
        (if writes then
           (if f3 AND 3 = 1 then upd_cpu h (\<lambda>c. csr_write c addr src)
            else if f3 AND 3 = 2 then upd_cpu h (\<lambda>c. csr_write c addr (old OR src))
            else if f3 AND 3 = 3 then upd_cpu h (\<lambda>c. csr_write c addr (old AND NOT src))
            else ret ())
         else ret ());
        upd_cpu h (\<lambda>c. reg_write c (rd inst) old)
      })
   }"

subsection \<open>RV-A\<close>

definition amo_value :: "u32 \<Rightarrow> 'a::len word \<Rightarrow> 'a word \<Rightarrow> 'a word option" where
  "amo_value funct5 old b =
     (if funct5 = 0x01 then Some b
      else if funct5 = 0x00 then Some (old + b)
      else if funct5 = 0x04 then Some (old XOR b)
      else if funct5 = 0x0c then Some (old AND b)
      else if funct5 = 0x08 then Some (old OR b)
      else if funct5 = 0x10 then Some (if old <s b then old else b)
      else if funct5 = 0x14 then Some (if b <s old then old else b)
      else if funct5 = 0x18 then Some (if old < b then old else b)
      else if funct5 = 0x1c then Some (if old > b then old else b)
      else None)"

definition amo_lr :: "u32 \<Rightarrow> u32 \<Rightarrow> bool \<Rightarrow> u64 \<Rightarrow> unit mach" where
  "amo_lr h inst is_d addr = do {
     v \<leftarrow> (if is_d then mem_get (\<lambda>m. mem_read64 m addr)
          else do { v \<leftarrow> mem_get (\<lambda>m. mem_read32 m addr); ret (scast v) });
     m \<leftarrow> get_mem;
     (if mfault m then ret ()
      else do {
        upd_cpu h (\<lambda>c. c\<lparr>reserve_valid := True, reserve_addr := addr\<rparr>);
        upd_cpu h (\<lambda>c. reg_write c (rd inst) v)
      })
   }"

definition amo_sc :: "u32 \<Rightarrow> u32 \<Rightarrow> bool \<Rightarrow> u64 \<Rightarrow> unit mach" where
  "amo_sc h inst is_d addr = do {
     c \<leftarrow> get_cpu h;
     let fail = (\<not> (reserve_valid c \<and> reserve_addr c = addr));
     let finish = do {
       upd_cpu h (\<lambda>c. c\<lparr>reserve_valid := False\<rparr>);
       upd_cpu h (\<lambda>c. reg_write c (rd inst) (of_flag fail))
     };
     (if fail then finish
      else do {
        (if is_d then mem_upd (\<lambda>m. mem_write64 m addr (reg_read c (rs2 inst)))
         else mem_upd (\<lambda>m. mem_write32 m addr (ucast (reg_read c (rs2 inst)))));
        m \<leftarrow> get_mem;
        (if mfault m then ret () else do { break_reservation h addr; finish })
      })
   }"

definition amo_finish :: "u32 \<Rightarrow> u32 \<Rightarrow> u64 \<Rightarrow> u64 \<Rightarrow> unit mach" where
  "amo_finish h inst addr old = do {
     m \<leftarrow> get_mem;
     (if mfault m then ret ()
      else do { break_reservation h addr; upd_cpu h (\<lambda>c. reg_write c (rd inst) old) })
   }"

definition amo_rmw :: "u32 \<Rightarrow> u32 \<Rightarrow> bool \<Rightarrow> u32 \<Rightarrow> u64 \<Rightarrow> unit mach" where
  "amo_rmw h inst is_d funct5 addr = do {
     c \<leftarrow> get_cpu h;
     let b = reg_read c (rs2 inst);
     (if is_d then do {
        old \<leftarrow> mem_get (\<lambda>m. mem_read64 m addr);
        m \<leftarrow> get_mem;
        (if mfault m then ret ()
         else case amo_value funct5 old b of
                None \<Rightarrow> illegal h inst
              | Some res \<Rightarrow> do { mem_upd (\<lambda>m. mem_write64 m addr res); amo_finish h inst addr old })
      }
      else do {
        old \<leftarrow> mem_get (\<lambda>m. mem_read32 m addr);
        m \<leftarrow> get_mem;
        (if mfault m then ret ()
         else case amo_value funct5 old (ucast b) of
                None \<Rightarrow> illegal h inst
              | Some res \<Rightarrow> do { mem_upd (\<lambda>m. mem_write32 m addr res); amo_finish h inst addr (scast old) })
      })
   }"

definition exec_amo :: "u32 \<Rightarrow> u32 \<Rightarrow> unit mach" where
  "exec_amo h inst = do {
     c \<leftarrow> get_cpu h;
     let f3 = funct3 inst;
     let is_d = (f3 = 0x3);
     (if f3 \<noteq> 0x2 \<and> \<not> (is_d \<and> xlen c = 64) then illegal h inst
      else do {
        let funct5 = shr inst 27;
        let va = reg_read c (rs1 inst);
        (if va AND (if is_d then 7 else 3) \<noteq> 0 then
           raise_trap h (if funct5 = 0x02 then CAUSE_LOAD_MISALIGNED else CAUSE_STORE_MISALIGNED) va
         else do {
           r \<leftarrow> mmu h va (if funct5 = 0x02 then ACC_LOAD else ACC_STORE);
           (case r of
              Inl fault \<Rightarrow> raise_trap h fault va
            | Inr addr \<Rightarrow> do {
                observe h addr True;
                (if funct5 = 0x02 then amo_lr h inst is_d addr
                 else if funct5 = 0x03 then amo_sc h inst is_d addr
                 else amo_rmw h inst is_d funct5 addr)
              })
         })
      })
   }"

subsection \<open>RV-F and RV-D\<close>

definition mark_fs_dirty :: "CPU \<Rightarrow> CPU" where
  "mark_fs_dirty c =
     (let c = set_csr CSR_MSTATUS (csr c CSR_MSTATUS OR MSTATUS_FS) c
      in set_csr CSR_MSTATUS (csr c CSR_MSTATUS OR shl 1 (xlen c - 1)) c)"

definition fread_s :: "CPU \<Rightarrow> u32 \<Rightarrow> u32" where
  "fread_s c i = (let v = fregs c i in if shr v 32 = 0xffffffff then ucast v else F32_QNAN)"

definition fwrite_s :: "CPU \<Rightarrow> u32 \<Rightarrow> u32 \<Rightarrow> CPU" where
  "fwrite_s c i v = mark_fs_dirty (c\<lparr>fregs := (fregs c)(i := 0xffffffff00000000 OR ucast v)\<rparr>)"

definition fread_d :: "CPU \<Rightarrow> u32 \<Rightarrow> u64" where
  "fread_d c i = fregs c i"

definition fwrite_d :: "CPU \<Rightarrow> u32 \<Rightarrow> u64 \<Rightarrow> CPU" where
  "fwrite_d c i v = mark_fs_dirty (c\<lparr>fregs := (fregs c)(i := v)\<rparr>)"

definition faccrue :: "CPU \<Rightarrow> u32 \<Rightarrow> CPU" where
  "faccrue c fl = set_csr CSR_FCSR (csr c CSR_FCSR OR ucast (fl AND 0x1f)) c"

text \<open>The rounding mode and whether it is reserved.\<close>

definition resolve_rm :: "CPU \<Rightarrow> u32 \<Rightarrow> u32 \<times> bool" where
  "resolve_rm c inst =
     (let rm = funct3 inst;
          rm = (if rm = 7 then ucast (shr (csr c CSR_FCSR) 5 AND 7) else rm)
      in (rm, rm > 4))"

definition exec_load_fp :: "u32 \<Rightarrow> u32 \<Rightarrow> unit mach" where
  "exec_load_fp h inst = do {
     c \<leftarrow> get_cpu h;
     let va = reg_read c (rs1 inst) + scast (imm_i inst);
     r \<leftarrow> mmu h va ACC_LOAD;
     (case r of
        Inl fault \<Rightarrow> raise_trap h fault va
      | Inr pa \<Rightarrow> do {
          observe h pa False;
          (if funct3 inst = 0x2 then do {
             v \<leftarrow> mem_get (\<lambda>m. mem_read32 m pa); upd_cpu h (\<lambda>c. fwrite_s c (rd inst) v) }
           else if funct3 inst = 0x3 then do {
             v \<leftarrow> mem_get (\<lambda>m. mem_read64 m pa); upd_cpu h (\<lambda>c. fwrite_d c (rd inst) v) }
           else illegal h inst)
        })
   }"

definition exec_store_fp :: "u32 \<Rightarrow> u32 \<Rightarrow> unit mach" where
  "exec_store_fp h inst = do {
     c \<leftarrow> get_cpu h;
     let va = reg_read c (rs1 inst) + scast (imm_s inst);
     r \<leftarrow> mmu h va ACC_STORE;
     (case r of
        Inl fault \<Rightarrow> raise_trap h fault va
      | Inr pa \<Rightarrow> do {
          break_reservation h pa;
          observe h pa True;
          (if funct3 inst = 0x2 then mem_upd (\<lambda>m. mem_write32 m pa (ucast (fregs c (rs2 inst))))
           else if funct3 inst = 0x3 then mem_upd (\<lambda>m. mem_write64 m pa (fregs c (rs2 inst)))
           else illegal h inst)
        })
   }"

text \<open>A result and its flags, written to a single or a double register.\<close>

definition put_s :: "CPU \<Rightarrow> u32 \<Rightarrow> u32 \<times> u32 \<Rightarrow> CPU" where
  "put_s c i r = faccrue (fwrite_s c i (fst r)) (snd r)"

definition put_d :: "CPU \<Rightarrow> u32 \<Rightarrow> u64 \<times> u32 \<Rightarrow> CPU" where
  "put_d c i r = faccrue (fwrite_d c i (fst r)) (snd r)"

definition fp_arith_s :: "u32 \<Rightarrow> u32 \<Rightarrow> u32 \<Rightarrow> u32 \<Rightarrow> u32 \<times> u32" where
  "fp_arith_s op a b rm =
     (if op = 0 then f32_add a b rm else if op = 1 then f32_sub a b rm
      else if op = 2 then f32_mul a b rm else f32_div a b rm)"

definition fp_arith_d :: "u32 \<Rightarrow> u64 \<Rightarrow> u64 \<Rightarrow> u32 \<Rightarrow> u64 \<times> u32" where
  "fp_arith_d op a b rm =
     (if op = 0 then f64_add a b rm else if op = 1 then f64_sub a b rm
      else if op = 2 then f64_mul a b rm else f64_div a b rm)"

definition fsgnj_s :: "u32 \<Rightarrow> u32 \<Rightarrow> u32 \<Rightarrow> u32" where
  "fsgnj_s f3 a b =
     (let s = (if f3 = 0 then shr b 31 else if f3 = 1 then NOT (shr b 31) AND 1 else shr (a XOR b) 31)
      in (a AND 0x7fffffff) OR shl s 31)"

definition fsgnj_d :: "u32 \<Rightarrow> u64 \<Rightarrow> u64 \<Rightarrow> u64" where
  "fsgnj_d f3 a b =
     (let s = (if f3 = 0 then shr b 63 else if f3 = 1 then NOT (shr b 63) AND 1 else shr (a XOR b) 63)
      in (a AND 0x7fffffffffffffff) OR shl s 63)"

definition fp_compare :: "CPU \<Rightarrow> u32 \<Rightarrow> u32 \<Rightarrow> u32 \<Rightarrow> u32 \<Rightarrow> bool \<times> u32" where
  "fp_compare c fmt f3 i j =
     (if fmt = 0 then
        (let a = fread_s c i; b = fread_s c j
         in if f3 = 2 then f32_eq a b else if f3 = 1 then f32_lt a b else f32_le a b)
      else
        (let a = fread_d c i; b = fread_d c j
         in if f3 = 2 then f64_eq a b else if f3 = 1 then f64_lt a b else f64_le a b))"

definition fp_cvt_int :: "CPU \<Rightarrow> u32 \<Rightarrow> u32 \<Rightarrow> u32 \<Rightarrow> u32 \<Rightarrow> u64 \<times> u32" where
  "fp_cvt_int c fmt i variant rm =
     (if fmt = 0 then
        (let a = fread_s c i
         in if variant = 0 then (let (r, fl) = f32_to_i32 a rm in (scast r, fl))
            else if variant = 1 then (let (r, fl) = f32_to_u32 a rm in (scast r, fl))
            else if variant = 2 then f32_to_i64 a rm
            else f32_to_u64 a rm)
      else
        (let a = fread_d c i
         in if variant = 0 then (let (r, fl) = f64_to_i32 a rm in (scast r, fl))
            else if variant = 1 then (let (r, fl) = f64_to_u32 a rm in (scast r, fl))
            else if variant = 2 then f64_to_i64 a rm
            else f64_to_u64 a rm))"

definition exec_fp :: "CPU \<Rightarrow> u32 \<Rightarrow> CPU option" where
  "exec_fp c inst =
     (let op = shr inst 27; fmt = shr inst 25 AND 3; d = rd inst; i = rs1 inst; j = rs2 inst; f3 = funct3 inst;
          (rm, bad) = resolve_rm c inst
      in if fmt > 1 then None
         else if op \<le> 3 then
           (if bad then None
            else if fmt = 0 then Some (put_s c d (fp_arith_s op (fread_s c i) (fread_s c j) rm))
            else Some (put_d c d (fp_arith_d op (fread_d c i) (fread_d c j) rm)))
         else if op = 0x0b then
           (if bad then None
            else if fmt = 0 then Some (put_s c d (f32_sqrt (fread_s c i) rm))
            else Some (put_d c d (f64_sqrt (fread_d c i) rm)))
         else if op = 0x04 then
           (if fmt = 0 then Some (fwrite_s c d (fsgnj_s f3 (fread_s c i) (fread_s c j)))
            else Some (fwrite_d c d (fsgnj_d f3 (fread_d c i) (fread_d c j))))
         else if op = 0x05 then
           (if fmt = 0 then
              Some (put_s c d ((if f3 \<noteq> 0 then f32_max else f32_min) (fread_s c i) (fread_s c j)))
            else Some (put_d c d ((if f3 \<noteq> 0 then f64_max else f64_min) (fread_d c i) (fread_d c j))))
         else if op = 0x08 then
           (if fmt = 0 then (if bad then None else Some (put_s c d (f64_to_f32 (fread_d c i) rm)))
            else Some (put_d c d (f32_to_f64 (fread_s c i))))
         else if op = 0x14 then
           (let (r, fl) = fp_compare c fmt f3 i j in Some (faccrue (reg_write c d (of_flag r)) fl))
         else if op = 0x1c then
           (if f3 = 0 then
              (if fmt = 0 then Some (reg_write c d (scast (ucast (fregs c i) :: u32)))
               else if xlen c \<noteq> 64 then None
               else Some (reg_write c d (fregs c i)))
            else Some (reg_write c d (ucast (if fmt = 0 then f32_classify (fread_s c i) else f64_classify (fread_d c i)))))
         else if op = 0x1e then
           (if fmt = 0 then Some (fwrite_s c d (ucast (reg_read c i)))
            else if xlen c \<noteq> 64 then None
            else Some (fwrite_d c d (reg_read c i)))
         else if op = 0x18 then
           (if bad then None
            else if (j = 2 \<or> j = 3) \<and> xlen c \<noteq> 64 then None
            else (let (r, fl) = fp_cvt_int c fmt i j rm in Some (faccrue (reg_write c d r) fl)))
         else if op = 0x1a then
           (if bad then None
            else if (j = 2 \<or> j = 3) \<and> xlen c \<noteq> 64 then None
            else
              (let x = reg_read c i
               in if fmt = 0 then
                    Some (put_s c d (if j = 0 then i32_to_f32 (ucast x) rm
                                     else if j = 1 then u32_to_f32 (ucast x) rm
                                     else if j = 2 then i64_to_f32 x rm
                                     else u64_to_f32 x rm))
                  else
                    Some (put_d c d (if j = 0 then i32_to_f64 (ucast x) rm
                                     else if j = 1 then u32_to_f64 (ucast x) rm
                                     else if j = 2 then i64_to_f64 x rm
                                     else u64_to_f64 x rm))))
         else None)"

definition exec_fmadd :: "bool \<Rightarrow> bool \<Rightarrow> CPU \<Rightarrow> u32 \<Rightarrow> CPU option" where
  "exec_fmadd flipA flipC cpu inst =
     (let fmt = shr inst 25 AND 3; d = rd inst; k = shr inst 27; (rm, bad) = resolve_rm cpu inst
      in if fmt > 1 \<or> bad then None
         else if fmt = 0 then
           (let a = fread_s cpu (rs1 inst); b = fread_s cpu (rs2 inst); c = fread_s cpu k;
                a = (if flipA then a XOR 0x80000000 else a);
                c = (if flipC then c XOR 0x80000000 else c)
            in Some (put_s cpu d (f32_muladd a b c rm)))
         else
           (let a = fread_d cpu (rs1 inst); b = fread_d cpu (rs2 inst); c = fread_d cpu k;
                a = (if flipA then a XOR 0x8000000000000000 else a);
                c = (if flipC then c XOR 0x8000000000000000 else c)
            in Some (put_d cpu d (f64_muladd a b c rm))))"

subsection \<open>SYSTEM\<close>

definition exec_mret :: "u32 \<Rightarrow> u64 mach" where
  "exec_mret h = do {
     c \<leftarrow> get_cpu h;
     (if priv c < PRIV_M then do { raise_trap h CAUSE_ILLEGAL_INSN 0; c \<leftarrow> get_cpu h; ret (pc c) }
      else do { upd_cpu h (\<lambda>c. fst (mret_pop c)); ret (snd (mret_pop c)) })
   }"

definition exec_sret :: "u32 \<Rightarrow> u64 mach" where
  "exec_sret h = do {
     c \<leftarrow> get_cpu h;
     (if priv c < PRIV_S then do { raise_trap h CAUSE_ILLEGAL_INSN 0; c \<leftarrow> get_cpu h; ret (pc c) }
      else do { upd_cpu h (\<lambda>c. fst (sret_pop c)); ret (snd (sret_pop c)) })
   }"

definition next_insn :: "u32 \<Rightarrow> u64 mach" where
  "next_insn h = do { c \<leftarrow> get_cpu h; ret (pc c + 4) }"

definition exec_system :: "u32 \<Rightarrow> u32 \<Rightarrow> u64 mach" where
  "exec_system h inst = do {
     c \<leftarrow> get_cpu h;
     let f3 = funct3 inst;
     let funct12 = shr inst 20;
     (if f3 = 0 then
        (if shr inst 25 = 0x09 then do {
           (if priv c < PRIV_S then illegal h inst else upd_cpu h mmu_flush);
           next_insn h
         }
         else if funct12 = 0x000 then do { raise_trap h (CAUSE_ECALL_U + priv c) 0; next_insn h }
         else if funct12 = 0x001 then do { raise_trap h CAUSE_BREAKPOINT 0; next_insn h }
         else if funct12 = 0x302 then exec_mret h
         else if funct12 = 0x102 then exec_sret h
         else if funct12 = 0x105 then next_insn h
         else do { illegal h inst; next_insn h })
      else if f3 = 0x4 then do { illegal h inst; next_insn h }
      else do { exec_csr h inst; next_insn h })
   }"

subsection \<open>One step\<close>

definition dc_index :: "u64 \<Rightarrow> u32" where
  "dc_index pa = ucast (shr pa 1) AND 0xffff"

definition dc_lookup :: "DecodeCache option \<Rightarrow> u64 \<Rightarrow> (u32 \<times> u32) option" where
  "dc_lookup dc pa =
     (case dc of
        None \<Rightarrow> None
      | Some d \<Rightarrow> (let slot = dc_slots d (dc_index pa)
                   in if di_gen slot = dc_gen d \<and> di_pa slot = pa then Some (di_inst slot, di_ilen slot) else None))"

definition dc_fill :: "u64 \<Rightarrow> u32 \<Rightarrow> u32 \<Rightarrow> CPU \<Rightarrow> CPU" where
  "dc_fill pa inst ilen c =
     c\<lparr>dcache := map_option (\<lambda>d. d\<lparr>dc_slots := (dc_slots d)(dc_index pa :=
         \<lparr>di_gen = dc_gen d, di_pa = pa, di_inst = inst, di_ilen = ilen\<rparr>)\<rparr>) (dcache c)\<rparr>"

definition on_device :: "Memory \<Rightarrow> u64 \<Rightarrow> bool" where
  "on_device m pa \<longleftrightarrow> mplat m \<noteq> None \<and> plat_contains pa"

text \<open>The miss path. \<open>None\<close>: the fetch ended in a trap.\<close>

definition fetch_miss :: "u32 \<Rightarrow> u64 \<Rightarrow> (u32 \<times> u32) option mach" where
  "fetch_miss h lo_pa = do {
     c \<leftarrow> get_cpu h;
     low \<leftarrow> mem_get (\<lambda>m. mem_read16 m lo_pa);
     m \<leftarrow> get_mem;
     (if mfault m then do { raise_trap h CAUSE_INSN_ACCESS (pc c); ret None }
      else if low AND 3 \<noteq> 3 then
        (let inst = rvc_expand low (xlen c = 64)
         in if inst = RVC_ILLEGAL then do { raise_trap h CAUSE_ILLEGAL_INSN (ucast low); ret None }
            else do {
              (if on_device m lo_pa then ret () else upd_cpu h (dc_fill lo_pa inst 2));
              ret (Some (inst, 2))
            })
      else do {
        r \<leftarrow> mmu h (pc c + 2) ACC_FETCH;
        (case r of
           Inl fault \<Rightarrow> do { raise_trap h fault (pc c + 2); ret None }
         | Inr hi_pa \<Rightarrow> do {
             high \<leftarrow> mem_get (\<lambda>m. mem_read16 m hi_pa);
             m \<leftarrow> get_mem;
             (if mfault m then do { raise_trap h CAUSE_INSN_ACCESS (pc c + 2); ret None }
              else do {
                let inst = ucast low OR shl (ucast high) 16;
                (if on_device m hi_pa \<or> on_device m lo_pa then ret () else upd_cpu h (dc_fill lo_pa inst 4));
                ret (Some (inst, 4))
              })
           })
      })
   }"

definition fetch :: "u32 \<Rightarrow> (u32 \<times> u32) option mach" where
  "fetch h = do {
     c \<leftarrow> get_cpu h;
     r \<leftarrow> mmu h (pc c) ACC_FETCH;
     (case r of
        Inl fault \<Rightarrow> do { raise_trap h fault (pc c); ret None }
      | Inr lo_pa \<Rightarrow> do {
          c \<leftarrow> get_cpu h;
          (case dc_lookup (dcache c) lo_pa of Some hit \<Rightarrow> ret (Some hit) | None \<Rightarrow> fetch_miss h lo_pa)
        })
   }"

text \<open>Dispatch on the opcode; the result is the next program counter.\<close>

definition execute :: "u32 \<Rightarrow> u32 \<Rightarrow> u32 \<Rightarrow> u64 mach" where
  "execute h inst ilen = do {
     c \<leftarrow> get_cpu h;
     let op = opcode inst;
     let fall = pc c + ucast ilen;
     (if op = OP_IMM then do { upd_cpu h (\<lambda>c. exec_op_imm c inst); ret fall }
      else if op = OP_IMM_32 then do { run_or_illegal h inst exec_op_imm32; ret fall }
      else if op = OP_REG then do { upd_cpu h (\<lambda>c. exec_op c inst); ret fall }
      else if op = OP_REG_32 then do { run_or_illegal h inst exec_op32; ret fall }
      else if op = OP_LUI then do { upd_cpu h (\<lambda>c. reg_write c (rd inst) (scast (imm_u inst))); ret fall }
      else if op = OP_AUIPC then do { upd_cpu h (\<lambda>c. reg_write c (rd inst) (pc c + scast (imm_u inst))); ret fall }
      else if op = OP_JAL then do { upd_cpu h (\<lambda>c. reg_write c (rd inst) fall); ret (pc c + scast (imm_j inst)) }
      else if op = OP_JALR then do {
        upd_cpu h (\<lambda>c. reg_write c (rd inst) fall);
        ret ((reg_read c (rs1 inst) + scast (imm_i inst)) AND NOT 1)
      }
      else if op = OP_BRANCH then ret (exec_branch c inst ilen)
      else if op = OP_LOAD then do { exec_load h inst; ret fall }
      else if op = OP_STORE then do { exec_store h inst; ret fall }
      else if op = OP_AMO then do { exec_amo h inst; ret fall }
      else if op = OP_LOAD_FP then do { exec_load_fp h inst; ret fall }
      else if op = OP_STORE_FP then do { exec_store_fp h inst; ret fall }
      else if op = OP_FP then do { run_or_illegal h inst exec_fp; ret fall }
      else if op = OP_MADD then do { run_or_illegal h inst (exec_fmadd False False); ret fall }
      else if op = OP_MSUB then do { run_or_illegal h inst (exec_fmadd False True); ret fall }
      else if op = OP_NMSUB then do { run_or_illegal h inst (exec_fmadd True False); ret fall }
      else if op = OP_NMADD then do { run_or_illegal h inst (exec_fmadd True True); ret fall }
      else if op = OP_FENCE then do {
        (if funct3 inst = 1 then upd_cpu h (\<lambda>c. c\<lparr>dcache := dcache_flush (dcache c), jit := jit_flush (jit c)\<rparr>)
         else ret ());
        ret fall
      }
      else if op = OP_SYSTEM then exec_system h inst
      else do { illegal h inst; ret fall })
   }"

definition retire :: "u32 \<Rightarrow> u32 \<Rightarrow> u64 \<Rightarrow> unit mach" where
  "retire h inst next_pc = do {
     m \<leftarrow> get_mem;
     c \<leftarrow> get_cpu h;
     (if mfault m then
        raise_trap h (if opcode inst \<in> {OP_STORE, OP_AMO, OP_STORE_FP} then CAUSE_STORE_ACCESS else CAUSE_LOAD_ACCESS)
          (mfault_addr m)
      else if trapped c then ret ()
      else if halted c then ret ()
      else if next_pc AND 1 \<noteq> 0 then raise_trap h CAUSE_INSN_MISALIGNED next_pc
      else upd_cpu h (\<lambda>c. c\<lparr>instret := instret c + 1, pc := sext_xlen c next_pc\<rparr>))
   }"

definition begin_step :: "u32 \<Rightarrow> bool mach" where
  "begin_step h = do {
     mem_upd (\<lambda>m. m\<lparr>mfault := False\<rparr>);
     upd_cpu h (\<lambda>c. c\<lparr>trapped := False\<rparr>);
     c \<leftarrow> get_cpu h;
     m \<leftarrow> get_mem;
     upd_cpu h (\<lambda>_. snd (cpu_pre_step c (mplat m)));
     ret (fst (cpu_pre_step c (mplat m)))
   }"

definition cpu_step :: "u32 \<Rightarrow> unit mach" where
  "cpu_step h = do {
     stop \<leftarrow> begin_step h;
     (if stop then ret ()
      else do {
        f \<leftarrow> fetch h;
        (case f of
           None \<Rightarrow> ret ()
         | Some (inst, ilen) \<Rightarrow> do { next_pc \<leftarrow> execute h inst ilen; retire h inst next_pc })
      })
   }"

subsection \<open>Entry points for translated code\<close>

definition cpu_exec_alu :: "u32 \<Rightarrow> u32 \<Rightarrow> bool mach" where
  "cpu_exec_alu h inst = do {
     upd_cpu h (\<lambda>c. c\<lparr>trapped := False\<rparr>);
     (if opcode inst = OP_IMM then upd_cpu h (\<lambda>c. exec_op_imm c inst)
      else if opcode inst = OP_IMM_32 then run_or_illegal h inst exec_op_imm32
      else if opcode inst = OP_REG then upd_cpu h (\<lambda>c. exec_op c inst)
      else if opcode inst = OP_REG_32 then run_or_illegal h inst exec_op32
      else illegal h inst);
     c \<leftarrow> get_cpu h;
     ret (trapped c \<or> halted c)
   }"

definition cpu_exec_mem :: "u32 \<Rightarrow> u32 \<Rightarrow> (bool \<times> u64 option) mach" where
  "cpu_exec_mem h inst = do {
     mem_upd (\<lambda>m. m\<lparr>mfault := False\<rparr>);
     upd_cpu h (\<lambda>c. c\<lparr>trapped := False\<rparr>);
     pa \<leftarrow> (if opcode inst = OP_LOAD then exec_load h inst else exec_store h inst);
     m \<leftarrow> get_mem;
     (if mfault m then do {
        raise_trap h (if opcode inst = OP_STORE then CAUSE_STORE_ACCESS else CAUSE_LOAD_ACCESS) (mfault_addr m);
        ret (True, pa)
      }
      else do { c \<leftarrow> get_cpu h; ret (trapped c \<or> halted c, pa) })
   }"

end
