(* ===== verification/Step_Rel.thy ===== *)
theory Step_Rel
  imports Exec
begin

text \<open>
  What one step may do to the machine, proved once for a whole family of properties. The locale
  \<open>exec_rel\<close> takes three relations - on the stepping hart, on its siblings, and on memory - and
  asks, for every primitive update the code makes, that the update is in the relation. Its lemmas
  then carry the relations through traps, the firmware, fetch and every instruction; \<open>body_rel\<close> and
  \<open>step_rel\<close> extend it to a whole step. The guards
  in the laws are the guards of the code: what runs only in a given privilege is asked only there.
\<close>

subsection \<open>Relations on machines\<close>

definition frame :: "(CPU \<Rightarrow> CPU \<Rightarrow> bool) \<Rightarrow> (CPU \<Rightarrow> CPU \<Rightarrow> bool) \<Rightarrow> (Memory \<Rightarrow> Memory \<Rightarrow> bool) \<Rightarrow> u32 \<Rightarrow> Machine \<Rightarrow> Machine \<Rightarrow> bool" where
  "frame Rc Rs Rm h M M' \<longleftrightarrow>
     Rc (harts M h) (harts M' h) \<and> (\<forall>k. k \<noteq> h \<longrightarrow> Rs (harts M k) (harts M' k)) \<and> Rm (mem M) (mem M')"

definition keeps :: "(Machine \<Rightarrow> Machine \<Rightarrow> bool) \<Rightarrow> Machine \<Rightarrow> 'a mach \<Rightarrow> bool" where
  "keeps R M p \<longleftrightarrow> R M (snd (run_state p M))"

named_theorems keeps_intros

lemma run_bind: "run_state (p \<bind> f) M = (case run_state p M of (a, M') \<Rightarrow> run_state (f a) M')"
  by (cases "run_state p M") (simp add: State_Monad.bind_def)

lemma keeps_bind:
  assumes "transp R" "keeps R M p" "\<And>a M'. run_state p M = (a, M') \<Longrightarrow> keeps R M' (f a)"
  shows "keeps R M (p \<bind> f)"
  using assms by (cases "run_state p M") (auto simp: keeps_def run_bind dest: transpD)

lemma keeps_reads [simp]:
  "keeps R M (get_cpu h \<bind> k1) \<longleftrightarrow> keeps R M (k1 (harts M h))"
  "keeps R M (get_mem \<bind> k2) \<longleftrightarrow> keeps R M (k2 (mem M))"
  "keeps R M (State_Monad.get \<bind> k3) \<longleftrightarrow> keeps R M (k3 M)"
  "keeps R M (ret a \<bind> k4) \<longleftrightarrow> keeps R M (k4 a)"
  by (simp_all add: keeps_def run_bind State_Monad.get_def)

lemma exec_alu_shape:
  "\<exists>v. exec_op_imm c inst = reg_write c (rd inst) v"
  "\<exists>v. exec_op c inst = reg_write c (rd inst) v"
  "exec_op_imm32 c inst = Some c' \<Longrightarrow> \<exists>v. c' = reg_write c (rd inst) v"
  "exec_op32 c inst = Some c' \<Longrightarrow> \<exists>v. c' = reg_write c (rd inst) v"
  by (auto simp: exec_op_imm_def exec_op_def exec_op_imm32_def exec_op32_def exec_muldivw_def
      exec_muldiv_def exec_muldiv64_def exec_bitmanip_op_def exec_bitmanip_imm_def exec_bitmanip_op32_def
      exec_bitmanip_imm32_def Let_def split: option.splits if_splits)

lemma mmu_walk_rel:
  assumes "transp Rm" "\<And>m. Rm m m" "\<And>m a. Rm m (snd (mem_read32 m a))" "\<And>m a. Rm m (snd (mem_read64 m a))" "\<And>m. Rm m (m\<lparr>mfault := False\<rparr>)"
  shows "Rm m (snd (mmu_walk pg va level a m))"
proof (induction level arbitrary: a m)
  case (0 a m)
  have r: "Rm m (snd (read_pte pg m x))" for x m
    using assms(3,4) by (simp add: read_pte_def split_beta Let_def)
  from r [of m "pte_addr pg va 0 a"] assms(1,5) show ?case
    by (subst mmu_walk.simps) (auto simp: split_beta Let_def assms(2) dest: transpD)
next
  case (Suc l a m)
  have r: "Rm m (snd (read_pte pg m x))" for x m
    using assms(3,4) by (simp add: read_pte_def split_beta Let_def)
  from r [of m "pte_addr pg va (Suc l) a"] assms(1,5) Suc show ?case
    by (subst mmu_walk.simps) (auto simp: split_beta Let_def assms(2) dest: transpD)
qed

lemma mmu_slow_shape:
  assumes "mmu_slow c m pg satp va acc pr = (r, c', m')"
  shows "c' = c\<lparr>tlb := tlb c'\<rparr> \<and> (\<forall>x. r = Inl x \<longrightarrow> x = pf_cause acc)"
proof (cases "mmu_walk pg va (pg_levels pg - 1) (shl (satp AND pg_ppnmask pg) 12) m")
  case (Pair w m1)
  show ?thesis
  proof (cases w)
    case None
    with assms Pair show ?thesis by (auto simp: mmu_slow_def)
  next
    case (Some l)
    with assms Pair show ?thesis
      by (cases l; cases "leaf_ppn pg va (fst l) (snd (snd l))") (auto simp: mmu_slow_def Let_def split: if_splits)
  qed
qed

lemma mmu_slow_rel:
  assumes "transp Rm" "\<And>m. Rm m m" "\<And>m a. Rm m (snd (mem_read32 m a))" "\<And>m a. Rm m (snd (mem_read64 m a))" "\<And>m. Rm m (m\<lparr>mfault := False\<rparr>)"
    and w: "\<And>m a v. Rm m (mem_write32 m a v)" "\<And>m a v. Rm m (mem_write64 m a v)"
    and s: "mmu_slow c m pg satp va acc pr = (r, c', m')"
  shows "Rm m m'"
proof (cases "mmu_walk pg va (pg_levels pg - 1) (shl (satp AND pg_ppnmask pg) 12) m")
  case (Pair wk m1)
  have m1: "Rm m m1"
    using mmu_walk_rel [of Rm m pg va "pg_levels pg - 1" "shl (satp AND pg_ppnmask pg) 12"] assms(1-5) Pair by simp
  have wp: "Rm m1 (write_pte pg m1 a v)" for a v
    using w by (simp add: write_pte_def)
  have "m' = m1 \<or> (\<exists>a v. m' = write_pte pg m1 a v)"
  proof (cases wk)
    case None
    with s Pair show ?thesis by (auto simp: mmu_slow_def)
  next
    case (Some l)
    with s Pair show ?thesis
      by (cases l; cases "leaf_ppn pg va (fst l) (snd (snd l))") (auto simp: mmu_slow_def Let_def split: if_splits)
  qed
  with m1 wp show ?thesis
    using transpD [OF assms(1) m1] by blast
qed

lemma mmu_translate_cases:
  assumes "mmu_translate c m va acc = (r, c', m')"
  shows "(c' = c \<and> m' = m \<and> (\<forall>x. r = Inl x \<longrightarrow> x = pf_cause acc)) \<or>
    (\<exists>pg satp va' pr. mmu_slow c m pg satp va' acc pr = (r, c', m'))"
  using assms unfolding mmu_translate_def Let_def by (simp split: if_splits) blast+

lemma mmu_translate_shape:
  assumes "mmu_translate c m va acc = (r, c', m')"
  shows "c' = c\<lparr>tlb := tlb c'\<rparr> \<and> (\<forall>x. r = Inl x \<longrightarrow> x = pf_cause acc)"
  using mmu_translate_cases [OF assms]
proof (elim disjE exE)
  assume "c' = c \<and> m' = m \<and> (\<forall>x. r = Inl x \<longrightarrow> x = pf_cause acc)"
  then show ?thesis by simp
qed (rule mmu_slow_shape)

lemma one_le_word: "1 \<le> w \<longleftrightarrow> w \<noteq> 0" for w :: "'a::len word"
  by (simp add: word_le_nat_alt Suc_le_eq unat_gt_0)

lemma tlb_next_same: "c\<lparr>tlb := t, tlb_next := tlb_next c\<rparr> = c\<lparr>tlb := t\<rparr>"
  by (cases c) simp

subsection \<open>The locale\<close>

locale exec_rel =
  fixes Rc Rs :: "CPU \<Rightarrow> CPU \<Rightarrow> bool" and Rm :: "Memory \<Rightarrow> Memory \<Rightarrow> bool" and h :: u32
  assumes cpu_refl: "Rc c c" and cpu_trans: "transp Rc"
    and reg: "Rc c (reg_write c i v)"
    and halt: "Rc c (halt_with r c)"
    and exit_code: "Rc c (c\<lparr>exit_code := x\<rparr>)"
    and trap: "Rc c (enter_trap c cause tval to_s)"
    and reservation: "Rc c (c\<lparr>reserve_valid := b, reserve_addr := a\<rparr>)"
    and overlay: "Rc c (c\<lparr>dcache := d, jit := j\<rparr>)"
    and tlb: "Rc c (c\<lparr>tlb := t, tlb_next := n\<rparr>)"
    and fpu: "Rc c (fwrite_d c i v)"
    and accrue: "Rc c (faccrue c fl)"
    and csr_access: "shr addr 8 AND 3 \<le> priv c \<Longrightarrow> Rc c (csr_write c addr v)"
    and mret: "PRIV_M \<le> priv c \<Longrightarrow> Rc c (fst (mret_pop c))"
    and sret: "PRIV_S \<le> priv c \<Longrightarrow> Rc c (fst (sret_pop c))"
    and timer: "priv c = PRIV_S \<Longrightarrow> Rc c (set_csr CSR_MIP v c)" "Rc c (c\<lparr>sbi_timer_armed := b\<rparr>)"
    and hsm: "priv c = PRIV_S \<Longrightarrow> Rc c (hsm_enter p q c)" "Rc c (c\<lparr>hsm_state := st\<rparr>)"
    and sib_refl: "Rs c c" and sib_trans: "transp Rs"
    and sib_void: "Rs c (void_reservation w c)"
    and sib_start: "hsm_state c = HSM_STOPPED \<Longrightarrow> Rs c (hsm_enter p q c)"
    and mem_refl: "Rm m m" and mem_trans: "transp Rm"
    and mem_reads: "Rm m (snd (mem_read8 m a))" "Rm m (snd (mem_read16 m a))" "Rm m (snd (mem_read32 m a))" "Rm m (snd (mem_read64 m a))"
    and mem_writes: "Rm m (mem_write8 m a v8)" "Rm m (mem_write16 m a v16)" "Rm m (mem_write32 m a v32)" "Rm m (mem_write64 m a v64)"
    and mem_clear: "Rm m (m\<lparr>mfault := False\<rparr>)"
    and mem_out: "Rm m (m\<lparr>mcon := out\<rparr>)" "Rm m (m\<lparr>merr := out\<rparr>)"
    and mem_arm: "Rm m (arm_clint hart deadline m)"
begin

abbreviation "R \<equiv> frame Rc Rs Rm h"

lemma R_trans: "transp R"
  using cpu_trans sib_trans mem_trans unfolding transp_def frame_def by blast

lemma R_refl: "R M M"
  by (simp add: frame_def cpu_refl sib_refl mem_refl)

lemmas [keeps_intros] = keeps_bind [OF R_trans]

lemma keeps_ret [keeps_intros]: "keeps R M (ret a)"
  by (simp add: keeps_def R_refl)

lemma keeps_upd [keeps_intros]: "Rc (harts M h) (f (harts M h)) \<Longrightarrow> keeps R M (upd_cpu h f)"
  by (simp add: keeps_def frame_def sib_refl mem_refl)

lemma keeps_mem_upd [keeps_intros]: "Rm (mem M) (f (mem M)) \<Longrightarrow> keeps R M (mem_upd f)"
  by (simp add: keeps_def frame_def sib_refl cpu_refl)

lemma keeps_mem_get [keeps_intros]: "Rm (mem M) (snd (f (mem M))) \<Longrightarrow> keeps R M (mem_get f)"
  by (cases "f (mem M)") (simp add: keeps_def frame_def sib_refl cpu_refl)

lemma keeps_cache [keeps_intros]: "keeps R M (cache_upd f)"
  by (simp add: keeps_def frame_def sib_refl cpu_refl mem_refl)

lemma keeps_gets [keeps_intros]: "keeps R M get_mem" "keeps R M (get_cpu k)"
  by (simp_all add: keeps_def R_refl)

lemma keeps_if [keeps_intros]: "(b \<Longrightarrow> keeps R M p) \<Longrightarrow> (\<not> b \<Longrightarrow> keeps R M q) \<Longrightarrow> keeps R M (if b then p else q)"
  by simp

lemma keeps_mmu [keeps_intros]: "keeps R M (mmu h va acc)"
proof -
  obtain r c m where t: "mmu_translate (harts M h) (mem M) va acc = (r, c, m)"
    by (cases "mmu_translate (harts M h) (mem M) va acc")
  have "Rm (mem M) m"
    using mmu_translate_cases [OF t]
  proof (elim disjE exE)
    fix pg satp va' pr assume "mmu_slow (harts M h) (mem M) pg satp va' acc pr = (r, c, m)"
    then show ?thesis
      by (rule mmu_slow_rel [rotated -1]) (intro mem_trans mem_refl mem_reads mem_writes mem_clear)+
  qed (simp add: mem_refl)
  moreover have "Rc (harts M h) c"
  proof -
    have "(harts M h)\<lparr>tlb := tlb c\<rparr> = c"
      using mmu_translate_shape [OF t] by simp
    then show ?thesis
      using tlb [where c = "harts M h" and t = "tlb c" and n = "tlb_next (harts M h)"] unfolding tlb_next_same by simp
  qed
  ultimately show ?thesis
    by (simp add: keeps_def mmu_def t frame_def sib_refl)
qed

lemma rc_trans: "Rc a b \<Longrightarrow> Rc b c \<Longrightarrow> Rc a c"
  using cpu_trans by (rule transpD)

lemma rm_trans: "Rm a b \<Longrightarrow> Rm b c \<Longrightarrow> Rm a c"
  using mem_trans by (rule transpD)

text \<open>The firmware.\<close>

lemma rc_sbi_return: "Rc c (sbi_return e v c)"
  unfolding sbi_return_def by (rule rc_trans [OF reg reg])

lemma rc_sbi_base: "Rc c (sbi_base fid a c)"
  by (simp add: sbi_base_def rc_sbi_return)

lemma rc_halt_exit: "Rc c (sbi_halt c)" "Rc c (sys_exit c)" "Rc c (halt_with r (c\<lparr>hsm_state := st\<rparr>))"
  unfolding sbi_halt_def sys_exit_def by (rule rc_trans [OF _ halt], rule exit_code hsm(2))+

lemma keeps_sbi_timer:
  assumes "priv (harts M h) = PRIV_S"
  shows "keeps R M (sbi_set_timer h l u)"
proof -
  let ?c = "harts M h"
  let ?c1 = "set_csr CSR_MIP (csr ?c CSR_MIP AND ucast (NOT (shl 1 IRQ_STIMER :: u32))) ?c"
  have "Rc ?c (?c1\<lparr>sbi_timer_armed := True\<rparr>)"
    by (rule rc_trans [OF timer(1) timer(2)]) (rule assms)
  then show ?thesis
    by (simp add: keeps_def frame_def sbi_set_timer_def cpu_arm_supervisor_timer_def run_bind sib_refl mem_arm)
qed

lemma keeps_hsm_start:
  assumes "priv (harts M h) = PRIV_S" "hsm_state (harts M t) = HSM_STOPPED"
  shows "keeps R M (upd_cpu t (hsm_enter p x))"
proof (cases "t = h")
  case True
  then show ?thesis using assms by (auto intro!: keeps_intros hsm(1))
next
  case False
  then show ?thesis using sib_start [OF assms(2)] by (simp add: keeps_def frame_def cpu_refl sib_refl mem_refl)
qed

lemma keeps_sbi_hsm:
  assumes "priv (harts M h) = PRIV_S"
  shows "keeps R M (sbi_hsm h fid)"
  unfolding sbi_hsm_def keeps_reads Let_def
  using assms
  by (auto intro!: keeps_intros keeps_hsm_start rc_sbi_return rc_halt_exit hsm(1) split: option.splits)

lemma keeps_sbi_call:
  assumes "priv (harts M h) = PRIV_S"
  shows "keeps R M (sbi_call h)"
  unfolding sbi_call_def keeps_reads Let_def
  by (intro keeps_intros keeps_sbi_hsm keeps_sbi_timer assms mem_out reg rc_sbi_return rc_sbi_base rc_halt_exit)

lemma rm_put_bytes: "Rm m (fold (put_byte e buf) is m)"
proof (induction "is" arbitrary: m)
  case (Cons i "is")
  have "Rm m (put_byte e buf i m)"
    unfolding put_byte_def split_beta Let_def by (auto intro: rm_trans [OF mem_reads(1) mem_out(1)] rm_trans [OF mem_reads(1) mem_out(2)])
  then show ?case using Cons rm_trans by simp
qed (simp add: mem_refl)

lemma keeps_sys_write: "keeps R M (sys_write h)"
  unfolding sys_write_def keeps_reads Let_def by (intro keeps_intros reg rm_put_bytes)

lemma keeps_syscall: "keeps R M (syscall_dispatch h)"
  unfolding syscall_dispatch_def keeps_reads Let_def by (intro keeps_intros keeps_sys_write halt rc_halt_exit)

text \<open>Traps.\<close>

lemma keeps_raise_trap:
  assumes "cause = CAUSE_ECALL_S \<Longrightarrow> priv (harts M h) = PRIV_S"
  shows "keeps R M (raise_trap h cause tval)"
  unfolding raise_trap_def keeps_reads legacy_trap_def
  by (intro keeps_intros keeps_sbi_call keeps_syscall assms halt trap)

lemma keeps_illegal [keeps_intros]: "keeps R M (illegal h inst)"
  unfolding illegal_def by (rule keeps_raise_trap) simp

lemma keeps_run_or_illegal:
  assumes "\<And>c c'. exec c inst = Some c' \<Longrightarrow> Rc c c'"
  shows "keeps R M (run_or_illegal h inst exec)"
  unfolding run_or_illegal_def keeps_reads
  using assms by (auto intro!: keeps_intros split: option.split)

lemma keeps_alu32: "keeps R M (run_or_illegal h inst exec_op_imm32)" "keeps R M (run_or_illegal h inst exec_op32)"
  by (rule keeps_run_or_illegal, drule exec_alu_shape(3,4), use reg in blast)+

lemma keeps_alu: "keeps R M (upd_cpu h (\<lambda>c. exec_op_imm c inst))" "keeps R M (upd_cpu h (\<lambda>c. exec_op c inst))"
  using exec_alu_shape(1,2) [of "harts M h" inst] reg by (metis keeps_upd)+

text \<open>Memory instructions.\<close>

lemma rc_void: "Rc c (void_reservation w c)"
proof -
  have "c\<lparr>reserve_valid := False, reserve_addr := reserve_addr c\<rparr> = c\<lparr>reserve_valid := False\<rparr>"
    by (cases c) simp
  then show ?thesis
    using reservation [of c "reserve_addr c" False] cpu_refl by (simp add: void_reservation_def)
qed

lemma keeps_break [keeps_intros]: "keeps R M (break_reservation h addr)"
proof -
  have "keeps R M (State_Monad.update (\<lambda>M. M\<lparr>harts := (\<lambda>i. if i < n then void_reservation w (harts M i) else harts M i)\<rparr>))" for n w
    by (simp add: keeps_def State_Monad.update_def State_Monad.get_def State_Monad.set_def frame_def rc_void cpu_refl sib_void sib_refl mem_refl)
  then show ?thesis
    unfolding break_reservation_def Let_def keeps_reads
    by (auto intro!: keeps_upd rc_void split: option.split)
qed

lemma keeps_observe [keeps_intros]: "keeps R M (observe h pa st)"
  unfolding observe_def keeps_reads by (intro keeps_intros)

lemma keeps_load_value [keeps_intros]: "keeps R M (load_value c f3 pa)"
  unfolding load_value_def by (intro keeps_intros mem_reads)

lemma keeps_store_value [keeps_intros]: "keeps R M (store_value c f3 pa val)"
  unfolding store_value_def by (intro keeps_intros mem_writes)

lemma keeps_page_fault: "keeps R M (raise_trap h (pf_cause acc) tval)"
  by (rule keeps_raise_trap) (simp add: pf_cause_def split: AccessType.splits)

text \<open>After a translation: a page fault, or the rest of the instruction.\<close>

lemma keeps_mmu_bind:
  assumes "\<And>M x. keeps R M (k (Inl x)) \<longleftrightarrow> keeps R M (raise_trap h x tval \<bind> k')" "\<And>M u. keeps R M (k' u)"
    and "\<And>M pa. keeps R M (k (Inr pa))"
  shows "keeps R M (mmu h va acc \<bind> k)"
proof (rule keeps_bind [OF R_trans keeps_mmu])
  fix r M' assume r: "run_state (mmu h va acc) M = (r, M')"
  show "keeps R M' (k r)"
  proof (cases r)
    case (Inl x)
    obtain c m where "mmu_translate (harts M h) (mem M) va acc = (r, c, m)"
      using r by (cases "mmu_translate (harts M h) (mem M) va acc") (simp add: mmu_def)
    then have "x = pf_cause acc"
      using mmu_translate_shape Inl by blast
    then show ?thesis
      using Inl assms(1,2) by (simp add: keeps_bind [OF R_trans keeps_page_fault])
  qed (simp add: assms(3))
qed

lemma keeps_load: "keeps R M (exec_load h inst)"
  unfolding exec_load_def keeps_reads Let_def
  by (rule keeps_mmu_bind [where k' = "\<lambda>_. ret None"]) (auto intro!: keeps_intros reg)

lemma keeps_store: "keeps R M (exec_store h inst)"
  unfolding exec_store_def keeps_reads Let_def
  by (rule keeps_mmu_bind [where k' = "\<lambda>_. ret None"]) (auto intro!: keeps_intros)

lemma keeps_bind_ret: "keeps R M (p \<bind> ret) \<longleftrightarrow> keeps R M p"
  by (simp add: keeps_def run_bind split_beta)

lemma keeps_amo_finish: "keeps R M (amo_finish h inst addr old)"
  unfolding amo_finish_def keeps_reads by (intro keeps_intros reg)

lemma keeps_amo_lr: "keeps R M (amo_lr h inst is_d addr)"
  unfolding amo_lr_def by (auto intro!: keeps_intros reg mem_reads reservation)

lemma rc_unreserve: "Rc c (c\<lparr>reserve_valid := False\<rparr>)"
proof -
  have "c\<lparr>reserve_valid := False, reserve_addr := reserve_addr c\<rparr> = c\<lparr>reserve_valid := False\<rparr>"
    by (cases c) simp
  then show ?thesis
    using reservation [of c "reserve_addr c" False] by simp
qed

lemma keeps_amo_sc: "keeps R M (amo_sc h inst is_d addr)"
  unfolding amo_sc_def keeps_reads Let_def by (auto intro!: keeps_intros reg mem_writes rc_unreserve)

lemma keeps_amo_rmw: "keeps R M (amo_rmw h inst is_d funct5 addr)"
  unfolding amo_rmw_def keeps_reads Let_def
  by (auto intro!: keeps_intros keeps_amo_finish mem_reads mem_writes split: option.split)

lemma keeps_amo: "keeps R M (exec_amo h inst)"
  unfolding exec_amo_def keeps_reads Let_def
proof (intro keeps_if keeps_illegal)
  show "keeps R M (raise_trap h (if f then CAUSE_LOAD_MISALIGNED else CAUSE_STORE_MISALIGNED) tv)" for f tv
    by (rule keeps_raise_trap) (simp split: if_splits)
qed (rule keeps_mmu_bind [where k' = ret],
    auto simp: keeps_bind_ret intro!: keeps_intros keeps_amo_lr keeps_amo_sc keeps_amo_rmw)

lemma keeps_csr: "keeps R M (exec_csr h inst)"
  unfolding exec_csr_def keeps_reads Let_def
  by (auto intro!: keeps_intros csr_access reg simp: not_less)

text \<open>Floating point.\<close>

lemma rc_fwrite_s: "Rc c (fwrite_s c i v)"
  using fpu [of c i "0xffffffff00000000 OR ucast v"] by (simp add: fwrite_s_def fwrite_d_def)

lemma rc_put: "Rc c (put_s c i r)" "Rc c (put_d c i r')"
  unfolding put_s_def put_d_def by (rule rc_trans [OF rc_fwrite_s accrue], rule rc_trans [OF fpu accrue])

lemma rc_exec_fp:
  assumes "exec_fp c inst = Some c'"
  shows "Rc c c'"
  using assms unfolding exec_fp_def Let_def split_beta
  by (auto intro: rc_put rc_fwrite_s fpu reg rc_trans [OF reg accrue] split: if_split_asm)

lemma rc_exec_fmadd:
  assumes "exec_fmadd fa fc c inst = Some c'"
  shows "Rc c c'"
  using assms unfolding exec_fmadd_def Let_def split_beta
  by (auto intro: rc_put split: if_split_asm)

lemma keeps_load_fp: "keeps R M (exec_load_fp h inst)"
  unfolding exec_load_fp_def keeps_reads Let_def
  by (rule keeps_mmu_bind [where k' = ret]) (auto simp: keeps_bind_ret intro!: keeps_intros rc_fwrite_s fpu mem_reads)

lemma keeps_store_fp: "keeps R M (exec_store_fp h inst)"
  unfolding exec_store_fp_def keeps_reads Let_def
  by (rule keeps_mmu_bind [where k' = ret]) (auto simp: keeps_bind_ret intro!: keeps_intros mem_writes)

text \<open>SYSTEM.\<close>

lemma rc_flush: "Rc c (mmu_flush c)"
  unfolding mmu_flush_def by (rule tlb)

lemma keeps_next [keeps_intros]: "keeps R M (next_insn h)"
  unfolding next_insn_def keeps_reads by (rule keeps_ret)

lemma keeps_pc: "keeps R M (do { c \<leftarrow> get_cpu h; ret (pc c) })"
  unfolding keeps_reads by (rule keeps_ret)

lemma keeps_mret: "keeps R M (exec_mret h)" and keeps_sret: "keeps R M (exec_sret h)"
  unfolding exec_mret_def exec_sret_def keeps_reads
  by (auto intro!: keeps_bind [OF R_trans] keeps_raise_trap keeps_pc keeps_if keeps_upd keeps_ret mret sret simp: not_less one_le_word)

lemma keeps_system: "keeps R M (exec_system h inst)"
proof -
  have ecall: "keeps R M (raise_trap h (CAUSE_ECALL_U + priv (harts M h)) 0)"
  proof (rule keeps_raise_trap)
    assume "CAUSE_ECALL_U + priv (harts M h) = CAUSE_ECALL_S"
    then have "(CAUSE_ECALL_U + priv (harts M h)) - CAUSE_ECALL_U = CAUSE_ECALL_S - CAUSE_ECALL_U"
      by (rule arg_cong)
    then show "priv (harts M h) = PRIV_S" by simp
  qed
  show ?thesis
    unfolding exec_system_def keeps_reads Let_def
    by (intro keeps_if keeps_bind [OF R_trans] keeps_next keeps_illegal keeps_mret keeps_sret keeps_csr ecall
        keeps_upd rc_flush keeps_raise_trap) simp_all
qed

text \<open>Fetch, execute, retire.\<close>

lemma rc_dc_fill: "Rc c (dc_fill pa inst ilen c)"
proof -
  have same: "c\<lparr>dcache := d, jit := jit c\<rparr> = c\<lparr>dcache := d\<rparr>" for d
    by (cases c) simp
  show ?thesis
    unfolding dc_fill_def using overlay [where c = c and j = "jit c"] unfolding same .
qed

lemma keeps_fetch_miss: "keeps R M (fetch_miss h lo_pa)"
proof -
  have t: "keeps R M (raise_trap h CAUSE_INSN_ACCESS tv)" "keeps R M (raise_trap h CAUSE_ILLEGAL_INSN tv)" for M tv
    by (rule keeps_raise_trap, simp)+
  have tail: "keeps R M (mmu h va ACC_FETCH \<bind> (\<lambda>r. case r of
           Inl fault \<Rightarrow> do { raise_trap h fault va; ret None }
         | Inr hi_pa \<Rightarrow> do {
             high \<leftarrow> mem_get (\<lambda>m. mem_read16 m hi_pa);
             m \<leftarrow> get_mem;
             (if mfault m then do { raise_trap h CAUSE_INSN_ACCESS va; ret None }
              else do {
                (if on_device m hi_pa \<or> on_device m lo_pa then ret () else upd_cpu h (dc_fill lo_pa (g high) 4));
                ret (Some (g high, 4))
              })
           }))" for M va and g :: "u16 \<Rightarrow> u32"
    by (rule keeps_mmu_bind [where k' = "\<lambda>_. ret None"]) (auto intro!: keeps_intros t mem_reads rc_dc_fill)
  show ?thesis
    unfolding fetch_miss_def keeps_reads Let_def
    by (intro tail keeps_bind [OF R_trans] keeps_mem_get mem_reads keeps_gets keeps_if t keeps_ret keeps_upd rc_dc_fill)
qed

lemma keeps_fetch: "keeps R M (fetch h)"
  unfolding fetch_def keeps_reads
  by (rule keeps_mmu_bind [where k' = "\<lambda>_. ret None"]) (auto intro!: keeps_intros keeps_fetch_miss split: option.split)

lemma keeps_execute: "keeps R M (execute h inst ilen)"
  unfolding execute_def keeps_reads Let_def
  by (intro keeps_if keeps_bind [OF R_trans] keeps_ret keeps_alu keeps_alu32 keeps_load keeps_store keeps_amo
      keeps_load_fp keeps_store_fp keeps_run_or_illegal keeps_system keeps_illegal keeps_upd reg overlay)
    (erule rc_exec_fp rc_exec_fmadd)+

end

text \<open>Retiring advances the program counter and the counter; with a law for that, the relation holds
  over a step after its prologue, and with laws for the prologue over the whole of \<open>cpu_step\<close>.\<close>

locale body_rel = exec_rel +
  assumes advance: "Rc c (c\<lparr>instret := k, pc := sext_xlen c p\<rparr>)"
begin

lemma keeps_retire: "keeps R M (retire h inst next_pc)"
proof -
  have "keeps R M (raise_trap h (if b then CAUSE_STORE_ACCESS else CAUSE_LOAD_ACCESS) tv)"
    "keeps R M (raise_trap h CAUSE_INSN_MISALIGNED tv)" for b tv
    by (rule keeps_raise_trap, simp split: if_splits)+
  then show ?thesis
    unfolding retire_def keeps_reads by (intro keeps_if keeps_ret keeps_upd advance)
qed

lemma keeps_body:
  "keeps R M (do { f \<leftarrow> fetch h;
     (case f of None \<Rightarrow> ret () | Some (inst, ilen) \<Rightarrow> do { next_pc \<leftarrow> execute h inst ilen; retire h inst next_pc }) })"
  by (auto intro!: keeps_bind [OF R_trans] keeps_fetch keeps_execute keeps_retire keeps_ret split: option.split)

end

locale step_rel = body_rel +
  assumes untrap: "Rc c (c\<lparr>trapped := False\<rparr>)"
    and pre_step: "Rc c (snd (cpu_pre_step c plat))"
begin

lemma keeps_begin: "keeps R M (begin_step h)"
  unfolding begin_step_def
  by (auto intro!: keeps_bind [OF R_trans] keeps_gets keeps_mem_upd keeps_upd keeps_ret mem_clear untrap pre_step)

lemma keeps_cpu_step: "R M (snd (run_state (cpu_step h) M))"
proof -
  have "keeps R M (cpu_step h)"
    unfolding cpu_step_def by (intro keeps_bind [OF R_trans keeps_begin] keeps_if keeps_ret keeps_body)
  then show ?thesis by (simp add: keeps_def)
qed

end

end
