(* ===== verification/Step_Props.thy ===== *)
theory Step_Props
  imports Step_Rel Dma_Safety Alu_Props
begin

text \<open>
  Properties of \<open>cpu_step\<close> over whole machines: the locales of theory \<open>Step_Rel\<close> interpreted on concrete
  relations. The register file, memory, sibling harts, privilege and the retired-instruction count.
\<close>

subsection \<open>Specifications\<close>

definition sext_ok :: "CPU \<Rightarrow> bool" where
  "sext_ok c \<longleftrightarrow> regs c 0 = 0 \<and> (xlen c = 32 \<longrightarrow> (\<forall>i. scast (ucast (regs c i) :: u32) = regs c i))"

definition regs_step :: "CPU \<Rightarrow> CPU \<Rightarrow> bool" where
  "regs_step c c' \<longleftrightarrow> xlen c' = xlen c \<and> hartid c' = hartid c \<and> (sext_ok c \<longrightarrow> sext_ok c')"

definition mem_step :: "Memory \<Rightarrow> Memory \<Rightarrow> bool" where
  "mem_step m m' \<longleftrightarrow> (plat_attached m \<longrightarrow> mem_safe m m')"

text \<open>What a hart may do to a sibling: nothing, void its reservation, or start it when it is stopped.\<close>

definition sibling_step :: "CPU \<Rightarrow> CPU \<Rightarrow> bool" where
  "sibling_step c c' \<longleftrightarrow> c' = c \<or> c' = c\<lparr>reserve_valid := False\<rparr> \<or>
     (hsm_state c = HSM_STOPPED \<and> (\<exists>p q. c' = hsm_enter p q c))"

text \<open>What code in user mode leaves alone unless it traps.\<close>

definition user_kept :: "CPU \<Rightarrow> CPU \<Rightarrow> bool" where
  "user_kept c c' \<longleftrightarrow> xlen c' = xlen c \<and> priv c' = PRIV_U \<and>
     (\<forall>a. shr a 8 AND 3 \<noteq> 0 \<and> a \<noteq> CSR_MSTATUS \<longrightarrow> csr c' a = csr c a) \<and>
     csr c' CSR_MSTATUS AND NOT (MSTATUS_FS OR shl 1 (xlen c - 1)) = csr c CSR_MSTATUS AND NOT (MSTATUS_FS OR shl 1 (xlen c - 1))"

definition user_step :: "CPU \<Rightarrow> CPU \<Rightarrow> bool" where
  "user_step c c' \<longleftrightarrow> (trapped c \<longrightarrow> trapped c') \<and> (priv c = PRIV_U \<longrightarrow> trapped c' \<or> user_kept c c')"

text \<open>What code in user or supervisor mode leaves alone unless it traps: the machine-level CSRs, apart from
  the bits of \<open>mstatus\<close> and \<open>mie\<close> that the supervisor owns and the pending bits.\<close>

definition super_kept :: "CPU \<Rightarrow> CPU \<Rightarrow> bool" where
  "super_kept c c' \<longleftrightarrow> xlen c' = xlen c \<and> priv c' \<le> PRIV_S \<and>
     (\<forall>a. shr a 8 AND 3 = 3 \<and> a \<notin> {CSR_MSTATUS, CSR_MIE, CSR_MIP} \<longrightarrow> csr c' a = csr c a) \<and>
     csr c' CSR_MSTATUS AND 0x1888 = csr c CSR_MSTATUS AND 0x1888 \<and>
     csr c' CSR_MIE AND NOT S_INT_MASK = csr c CSR_MIE AND NOT S_INT_MASK"

definition super_step :: "CPU \<Rightarrow> CPU \<Rightarrow> bool" where
  "super_step c c' \<longleftrightarrow> (trapped c \<longrightarrow> trapped c') \<and>
     (xlen c \<in> {32, 64} \<and> priv c \<le> PRIV_S \<longrightarrow> trapped c' \<or> super_kept c c')"

text \<open>The machine after one step of hart \<open>h\<close>, and after a schedule of steps.\<close>

definition after :: "u32 \<Rightarrow> Machine \<Rightarrow> Machine" where
  "after h M = snd (run_state (cpu_step h) M)"

definition run_harts :: "u32 list \<Rightarrow> Machine \<Rightarrow> Machine" where
  "run_harts hs M = fold after hs M"

subsection \<open>Registers, memory, siblings\<close>

abbreviation any :: "'a \<Rightarrow> 'a \<Rightarrow> bool" where
  "any \<equiv> \<lambda>_ _. True"

definition mip_like :: "CPU \<Rightarrow> CPU \<Rightarrow> bool" where
  "mip_like c c' \<longleftrightarrow> (\<exists>v b. c' = (set_csr CSR_MIP v c)\<lparr>sbi_timer_armed := b\<rparr>)"

definition body :: "u32 \<Rightarrow> unit mach" where
  "body h = do { f \<leftarrow> fetch h;
     (case f of None \<Rightarrow> ret () | Some (inst, ilen) \<Rightarrow> do { next_pc \<leftarrow> execute h inst ilen; retire h inst next_pc }) }"

definition begun :: "u32 \<Rightarrow> Machine \<Rightarrow> CPU \<Rightarrow> Machine" where
  "begun h M c = M\<lparr>mem := (mem M)\<lparr>mfault := False\<rparr>, harts := (harts M)(h := c)\<rparr>"

definition stopped :: "u32 \<Rightarrow> Machine \<Rightarrow> bool" where
  "stopped h M \<longleftrightarrow> trapped (harts M h) \<or> halted (harts M h)"

text \<open>A machine of identical harts at the reset vector with 4 KiB of RAM and a platform.\<close>

definition demo_machine :: "u32 \<Rightarrow> Machine" where
  "demo_machine pr = \<lparr>harts = (\<lambda>k. (cpu_init 0x80000000 64)\<lparr>hartid := k, priv := pr\<rparr>), mem = dma_demo,
     mcache = \<lparr>ch_block_size = 16, ch_num_sets = 1, ch_assoc = 1, ch_offset_bits = 4, ch_index_bits = 0,
       ch_lines = (\<lambda>_. \<lparr>l_valid = False, l_tag = 0, l_used = 0\<rparr>), ch_tick = 0, ch_loads = 0, ch_stores = 0,
       ch_hits = 0, ch_misses = 0\<rparr>\<rparr>"

lemma regs_step_trans: "transp regs_step"
  by (auto simp: transp_def regs_step_def)

lemma regs_step_same: "xlen c' = xlen c \<Longrightarrow> hartid c' = hartid c \<Longrightarrow> regs c' = regs c \<Longrightarrow> regs_step c c'"
  by (simp add: regs_step_def sext_ok_def)

lemma regs_step_reg: "regs_step c (reg_write c i v)"
  by (auto simp: regs_step_def sext_ok_def reg_write_def sext_xlen_def ucast_scast)

lemma regs_step_hsm: "regs_step c (hsm_enter p q c)"
proof -
  let ?c = "c\<lparr>pc := p, priv := PRIV_S\<rparr>"
  have "regs_step c ?c"
    by (rule regs_step_same) simp_all
  then have "regs_step c (reg_write (reg_write ?c REG_A0 (ucast (hartid c))) REG_A1 q)"
    using transpD [OF regs_step_trans] regs_step_reg by blast
  then show ?thesis
    by (simp add: hsm_enter_def Let_def regs_step_def sext_ok_def set_csr_def mmu_flush_def)
qed

lemma mip_upd_twice:
  "(set_csr CSR_MIP v ((set_csr CSR_MIP w c)\<lparr>sbi_timer_armed := b\<rparr>)) = (set_csr CSR_MIP v c)\<lparr>sbi_timer_armed := b\<rparr>"
  "c = (set_csr CSR_MIP (csr c CSR_MIP) c)\<lparr>sbi_timer_armed := sbi_timer_armed c\<rparr>"
  by (simp_all add: set_csr_def)

lemma mip_like_refl: "mip_like c c"
  unfolding mip_like_def by (intro exI) (rule mip_upd_twice(2))

lemma mip_like_upd:
  "mip_like c c' \<Longrightarrow> mip_like c (set_csr CSR_MIP v c')" "mip_like c c' \<Longrightarrow> mip_like c (c'\<lparr>sbi_timer_armed := b\<rparr>)"
  unfolding mip_like_def by (elim exE, simp only: mip_upd_twice(1), blast) (elim exE, simp, blast)

lemmas mip_like_rules = mip_like_refl mip_like_upd

lemma mip_like_ticks:
  "mip_like c (sstc_tick (firmware_timer_tick c p))" "mip_like c c' \<Longrightarrow> mip_like c (snd (effective_mip c' plat))"
  by (auto simp: sstc_tick_def firmware_timer_tick_def effective_mip_def Let_def intro!: mip_like_rules split: option.split)

lemma pre_step_cases:
  assumes "cpu_pre_step c plat = (stop, c')"
  obtains (off) code where "stop" "c' = c\<lparr>exit_code := code, halt_reason := HALT_EXIT, halted := True\<rparr>"
  | (quiet) "\<not> stop" "mip_like c c'"
  | (taken) c1 cause to_s where "stop" "mip_like c c1" "c' = enter_trap c1 cause 0 to_s"
proof (cases plat)
  case None
  with assms quiet mip_like_rules(1) show thesis by (auto simp: cpu_pre_step_def)
next
  case (Some p)
  let ?c = "sstc_tick (firmware_timer_tick c p)"
  note m = mip_like_ticks(2) [OF mip_like_ticks(1), of c p plat]
  show thesis
  proof (cases "plat_poweroff_requested p")
    case None
    then have "take_interrupt ?c plat = (stop, c')"
      using assms Some by (simp add: cpu_pre_step_def)
    then show thesis
      using m quiet taken unfolding take_interrupt_find by (auto split: option.splits)
  next
    case (Some code)
    with assms \<open>plat = Some p\<close> off show thesis by (auto simp: cpu_pre_step_def)
  qed
qed

lemmas hart_ops = halt_with_def enter_trap_def fwrite_d_def mark_fs_dirty_def faccrue_def csr_write_def set_csr_def
  mret_pop_def sret_pop_def mmu_flush_def void_reservation_def Let_def

lemma regs_step_pre: "regs_step c (snd (cpu_pre_step c plat))"
proof -
  obtain stop c' where p: "cpu_pre_step c plat = (stop, c')" by (cases "cpu_pre_step c plat")
  then have "regs c' = regs c" "xlen c' = xlen c" "hartid c' = hartid c"
    by (cases rule: pre_step_cases; auto simp: mip_like_def hart_ops)+
  then show ?thesis
    using p by (simp add: regs_step_same)
qed


lemma any_trans: "transp any"
  by (simp add: transp_def)

interpretation regs_inv: step_rel regs_step regs_step any h for h
proof unfold_locales
  fix c cause tval to_s i v r addr w
  show "regs_step c (enter_trap c cause tval to_s)" "regs_step c (csr_write c addr v)" "regs_step c (fwrite_d c i v)"
    "regs_step c (halt_with r c)" "regs_step c (void_reservation w c)" "regs_step c (fst (mret_pop c))" "regs_step c (fst (sret_pop c))"
    by (rule regs_step_same; simp add: hart_ops)+
qed (auto intro: regs_step_reg regs_step_hsm regs_step_pre regs_step_trans any_trans regs_step_same simp: hart_ops)

lemma mem_step_trans: "transp mem_step"
  unfolding transp_def mem_step_def using mem_safe_trans by (auto simp: mem_safe_def)

lemma mem_step_same: "mdata m' = mdata m \<Longrightarrow> mbase m' = mbase m \<Longrightarrow> msize m' = msize m \<Longrightarrow>
    (plat_attached m \<Longrightarrow> plat_attached m') \<Longrightarrow> mem_step m m'"
  by (simp add: mem_step_def mem_safe_def untouched_def)

interpretation mem_inv: step_rel any any mem_step h for h
proof unfold_locales
  fix m a v8 v16 v32 v64 out hart deadline
  show "mem_step m (snd (mem_read8 m a))" "mem_step m (snd (mem_read16 m a))" "mem_step m (snd (mem_read32 m a))" "mem_step m (snd (mem_read64 m a))"
    by (simp_all add: mem_step_def mem_read_safe)
  show "mem_step m (mem_write8 m a v8)" "mem_step m (mem_write16 m a v16)" "mem_step m (mem_write32 m a v32)" "mem_step m (mem_write64 m a v64)"
    using mem_write_safe by (simp_all add: mem_step_def)
  show "mem_step m m" "mem_step m (m\<lparr>mfault := False\<rparr>)" "mem_step m (m\<lparr>mcon := out\<rparr>)" "mem_step m (m\<lparr>merr := out\<rparr>)"
    "mem_step m (arm_clint hart deadline m)"
    by (rule mem_step_same; simp add: plat_attached_def arm_clint_def split: option.splits)+
qed (simp_all add: any_trans mem_step_trans)

lemma hsm_enter_void: "hsm_enter p q (c\<lparr>reserve_valid := False\<rparr>) = hsm_enter p q c"
  "(hsm_enter p q c)\<lparr>reserve_valid := False\<rparr> = hsm_enter p q c" "hsm_state (hsm_enter p q c) = HSM_STARTED"
  by (simp_all add: hsm_enter_def Let_def reg_write_def set_csr_def mmu_flush_def sext_xlen_def)

lemma sibling_step_trans: "transp sibling_step"
  unfolding transp_def sibling_step_def by (auto simp: hsm_enter_void) blast

interpretation siblings: step_rel any sibling_step any h for h
  by unfold_locales (auto simp: any_trans sibling_step_trans sibling_step_def void_reservation_def)

subsection \<open>Privilege\<close>

lemma user_kept_refl: "priv c = PRIV_U \<Longrightarrow> user_kept c c"
  by (simp add: user_kept_def)

lemma user_kept_trans: "user_kept c c' \<Longrightarrow> user_kept c' c'' \<Longrightarrow> user_kept c c''"
  by (auto simp: user_kept_def)

lemma user_step_trans: "transp user_step"
  unfolding transp_def user_step_def using user_kept_trans by (auto simp: user_kept_def)

text \<open>An update that changes neither privilege, status, CSRs nor the width is harmless in user mode.\<close>

lemma user_step_same:
  "xlen c' = xlen c \<Longrightarrow> priv c' = priv c \<Longrightarrow> csr c' = csr c \<Longrightarrow> trapped c' = trapped c \<Longrightarrow> user_step c c'"
  by (simp add: user_step_def user_kept_def)

lemma user_step_above:
  "priv c \<noteq> PRIV_U \<Longrightarrow> trapped c' = trapped c \<Longrightarrow> user_step c c'"
  by (simp add: user_step_def)

lemma user_csr_addr:
  assumes "shr addr 8 AND 3 \<le> (0 :: u32)"
  shows "addr \<notin> {CSR_SSTATUS, CSR_SIE, CSR_SIP, CSR_SATP, CSR_MSTATUS}"
  using assms by (auto simp: evals)

lemma user_step_csr:
  assumes "shr addr 8 AND 3 \<le> priv c"
  shows "user_step c (csr_write c addr v)"
proof (cases "priv c = PRIV_U")
  case True
  then have "addr \<notin> {CSR_SSTATUS, CSR_SIE, CSR_SIP, CSR_SATP, CSR_MSTATUS}" "shr addr 8 AND 3 = 0"
    using assms user_csr_addr [of addr] by simp_all
  then show ?thesis
    using True by (auto simp: user_step_def user_kept_def csr_write_def set_csr_def evals)
qed (simp add: user_step_above csr_write_def set_csr_def mmu_flush_def)

lemma user_step_fp: "user_step c (fwrite_d c i v)"
proof -
  let ?c = "fwrite_d c i v" and ?sd = "shl 1 (xlen c - 1) :: u64"
  have masked: "(x OR f OR s) AND NOT (f OR s) = x AND NOT (f OR s)" for x f s :: u64
    by (rule bit_word_eqI) (auto simp: bit_simps)
  have "csr ?c = (csr c)(CSR_MSTATUS := csr c CSR_MSTATUS OR MSTATUS_FS OR ?sd)"
    by (simp add: fwrite_d_def mark_fs_dirty_def set_csr_def Let_def or.assoc)
  then have "csr ?c CSR_MSTATUS AND NOT (MSTATUS_FS OR ?sd) = csr c CSR_MSTATUS AND NOT (MSTATUS_FS OR ?sd)"
    "a \<noteq> CSR_MSTATUS \<Longrightarrow> csr ?c a = csr c a" for a
    by (simp_all only: fun_upd_apply masked [unfolded or.assoc] if_True if_False refl)
  moreover have "xlen ?c = xlen c" "priv ?c = priv c" "trapped ?c = trapped c"
    by (simp_all add: hart_ops)
  ultimately show ?thesis
    by (simp only: user_step_def user_kept_def) blast
qed

interpretation user: body_rel user_step any any h for h
proof unfold_locales
  fix c cause tval to_s i v r addr w fl p q
  show "user_step c (enter_trap c cause tval to_s)"
    by (simp add: user_step_def enter_trap_def Let_def)
  show "user_step c (halt_with r c)" "user_step c (reg_write c i v)"
    by (rule user_step_same; simp add: hart_ops reg_write_def)+
  show "user_step c (faccrue c fl)"
    by (auto simp: user_step_def user_kept_def faccrue_def set_csr_def evals)
  show "PRIV_M \<le> priv c \<Longrightarrow> user_step c (fst (mret_pop c))" "PRIV_S \<le> priv c \<Longrightarrow> user_step c (fst (sret_pop c))"
    "priv c = PRIV_S \<Longrightarrow> user_step c (set_csr CSR_MIP v c)" "priv c = PRIV_S \<Longrightarrow> user_step c (hsm_enter p q c)"
    by (rule user_step_above; auto simp: hart_ops hsm_enter_def reg_write_def)+
qed (auto intro: user_step_csr user_step_fp user_step_trans any_trans user_step_same)

lemma super_kept_trans: "super_kept c c' \<Longrightarrow> super_kept c' c'' \<Longrightarrow> super_kept c c''"
  by (auto simp: super_kept_def)

lemma super_step_trans: "transp super_step"
  unfolding transp_def super_step_def using super_kept_trans by (auto simp: super_kept_def)

lemma super_step_same:
  "xlen c' = xlen c \<Longrightarrow> priv c' = priv c \<Longrightarrow> csr c' = csr c \<Longrightarrow> trapped c' = trapped c \<Longrightarrow> super_step c c'"
  by (simp add: super_step_def super_kept_def)

text \<open>A change of \<open>mstatus\<close> outside the machine fields.\<close>

lemma super_step_status:
  assumes "xlen c' = xlen c" "priv c' = priv c \<or> priv c' \<le> PRIV_S" "trapped c' = trapped c"
    and "\<And>a. a \<noteq> CSR_MSTATUS \<Longrightarrow> shr a 8 AND 3 = 3 \<Longrightarrow> csr c' a = csr c a"
    and "xlen c \<in> {32, 64} \<Longrightarrow> csr c' CSR_MSTATUS AND 0x1888 = csr c CSR_MSTATUS AND 0x1888"
  shows "super_step c c'"
  using assms by (auto simp: super_step_def super_kept_def evals)

lemma super_step_csr:
  assumes "shr addr 8 AND 3 \<le> priv c"
  shows "super_step c (csr_write c addr v)"
proof (cases "priv c \<le> PRIV_S")
  case True
  then have low: "shr addr 8 AND 3 \<noteq> 3"
    using assms by (auto simp: word_le_nat_alt)
  then have n: "addr \<notin> {CSR_MSTATUS, CSR_MIE, CSR_MIP}" "\<And>a. shr a 8 AND 3 = 3 \<Longrightarrow> a \<noteq> addr"
    by (auto simp: evals)
  have w: "((x AND NOT k) OR (v AND k)) AND NOT k = x AND NOT k" for x k :: u64
    by (rule bit_word_eqI) (auto simp: bit_simps)
  have m: "((x AND NOT SSTATUS_MASK) OR (v AND SSTATUS_MASK)) AND 0x1888 = x AND 0x1888" for x :: u64
    by (simp add: bit_blast bits)
  show ?thesis
    using n w [where k = S_INT_MASK] m
    by (auto simp: super_step_def super_kept_def csr_write_def set_csr_def mmu_flush_def evals True)
qed (simp add: super_step_def csr_write_def set_csr_def mmu_flush_def)

lemma super_status_bits:
  "xl \<in> {32, 64} \<Longrightarrow> (x OR MSTATUS_FS OR shl 1 (xl - 1)) AND 0x1888 = x AND 0x1888"
  "(x AND NOT 0x2) AND 0x1888 = x AND 0x1888" "s_unstack x AND 0x1888 = x AND 0x1888"
  "(s_unstack x AND NOT MSTATUS_MPRV) AND 0x1888 = x AND 0x1888" for x :: u64
  by (auto simp: s_unstack_def evals) (simp_all add: bit_blast bits)

interpretation super: body_rel super_step any any h for h
proof unfold_locales
  fix c cause tval to_s i v r addr w fl p q
  show "super_step c (enter_trap c cause tval to_s)"
    by (simp add: super_step_def enter_trap_def Let_def)
  show "super_step c (halt_with r c)" "super_step c (reg_write c i v)"
    by (rule super_step_same; simp add: hart_ops reg_write_def)+
  show "super_step c (faccrue c fl)"
    by (rule super_step_status) (auto simp: faccrue_def set_csr_def evals)
  show "super_step c (fwrite_d c i v)"
    using super_status_bits(1) [of "xlen c"]
    by (intro super_step_status) (auto simp: fwrite_d_def mark_fs_dirty_def set_csr_def Let_def or.assoc)
  show "PRIV_M \<le> priv c \<Longrightarrow> super_step c (fst (mret_pop c))"
    by (auto simp: super_step_def mret_pop_def set_csr_def Let_def word_le_nat_alt)
  show "super_step c (fst (sret_pop c))"
    using super_status_bits(3,4)
    by (intro super_step_status) (auto simp: sret_pop_def set_csr_def Let_def)
  show "super_step c (set_csr CSR_MIP v c)"
    by (auto simp: super_step_def super_kept_def set_csr_def)
  show "super_step c (hsm_enter p q c)"
    using super_status_bits(2)
    by (intro super_step_status) (auto simp: hsm_enter_def reg_write_def set_csr_def mmu_flush_def Let_def evals)
qed (auto intro: super_step_csr super_step_trans any_trans super_step_same)

subsection \<open>The shape of a step\<close>

lemma after_cases:
  obtains stop c' where "cpu_pre_step ((harts M h)\<lparr>trapped := False\<rparr>) (mplat (mem M)) = (stop, c')"
    "after h M = (if stop then begun h M c' else snd (run_state (body h) (begun h M c')))"
proof -
  obtain stop c' where p: "cpu_pre_step ((harts M h)\<lparr>trapped := False\<rparr>) (mplat (mem M)) = (stop, c')"
    by (cases "cpu_pre_step ((harts M h)\<lparr>trapped := False\<rparr>) (mplat (mem M))")
  then have "run_state (begin_step h) M = (stop, begun h M c')"
    by (simp add: begin_step_def run_bind begun_def)
  then have "after h M = (if stop then begun h M c' else snd (run_state (body h) (begun h M c')))"
    unfolding after_def cpu_step_def body_def run_bind [of "begin_step h"] by simp
  with p that show thesis by blast
qed

lemma begun_hart [simp]: "harts (begun h M c) h = c" "k \<noteq> h \<Longrightarrow> harts (begun h M c) k = harts M k"
  "mfault (mem (begun h M c)) = False"
  by (simp_all add: begun_def)

interpretation counter: exec_rel "\<lambda>c c'. instret c' = instret c" any any h for h
  by unfold_locales (auto simp: transp_def hart_ops reg_write_def hsm_enter_def)

lemma raise_trap_stops:
  assumes "run_state (raise_trap h cause tval) M = (u, M')" "cause \<notin> {CAUSE_ECALL_U, CAUSE_ECALL_S, CAUSE_ECALL_M}"
  shows "stopped h M'"
  using assms by (auto simp: raise_trap_def legacy_trap_def run_bind stopped_def halt_with_def enter_trap_def Let_def split: if_splits)

lemma mmu_fault_cause:
  assumes "run_state (mmu h va acc) M = (Inl x, M')"
  shows "x \<notin> {CAUSE_ECALL_U, CAUSE_ECALL_S, CAUSE_ECALL_M}"
proof -
  obtain c m where "mmu_translate (harts M h) (mem M) va acc = (Inl x, c, m)"
    using assms by (cases "mmu_translate (harts M h) (mem M) va acc") (auto simp: mmu_def)
  then have "x = pf_cause acc"
    using mmu_translate_shape by blast
  then show ?thesis by (simp add: pf_cause_def split: AccessType.splits)
qed

lemma fetch_miss_stops:
  assumes "run_state (fetch_miss h pa) M = (None, M')"
  shows "stopped h M'"
  using assms unfolding fetch_miss_def Let_def
  by (auto simp: run_bind split: prod.splits if_splits sum.splits dest!: raise_trap_stops mmu_fault_cause)

lemma fetch_stops:
  assumes "run_state (fetch h) M = (None, M')"
  shows "stopped h M'"
  using assms unfolding fetch_def
  by (auto simp: run_bind split: prod.splits sum.splits option.splits dest!: raise_trap_stops mmu_fault_cause intro: fetch_miss_stops)

lemma retire_cases:
  assumes "run_state (retire h inst next_pc) M = (u, M')"
  shows "instret (harts M' h) = instret (harts M h) + 1 \<and> \<not> stopped h M' \<and> \<not> mfault (mem M') \<and> pc (harts M' h) AND 1 = 0
    \<or> instret (harts M' h) = instret (harts M h) \<and> stopped h M'"
proof -
  let ?c = "harts M h"
  have same: "instret (harts M1 h) = instret ?c" if "run_state (raise_trap h cause tval) M = (u', M1)" "cause \<noteq> CAUSE_ECALL_S" for cause tval u' M1
    using counter.keeps_raise_trap [where cause = cause and M = M and h = h and tval = tval] that by (simp add: keeps_def frame_def)
  have even: "sext_xlen ?c next_pc AND 1 = 0" if "next_pc AND 1 = 0"
    using that and_pow2_eq_0 [of next_pc 0] and_pow2_eq_0 [of "sext_xlen ?c next_pc" 0] by (simp add: sext_xlen_def bits)
  show ?thesis
    using assms unfolding retire_def
    by (auto simp: run_bind stopped_def even split: if_splits dest: same raise_trap_stops)
qed

subsection \<open>Properties of a step\<close>

lemma demo_machine_ok:
  "sext_ok (harts (demo_machine pr) k)" "plat_attached (mem (demo_machine pr))" "priv (harts (demo_machine pr) k) = pr"
  "xlen (harts (demo_machine pr) k) = 64"
  by (simp_all add: demo_machine_def sext_ok_def cpu_init_def mmu_flush_def plat_attached_def dma_demo_def mem_init_def dma_plat_def)

text \<open>
  C3: the register file stays well formed. Over any schedule of steps of any harts - whatever the
  guest executes, traps and firmware calls included - register x0 of every hart stays 0, every
  register of a 32-bit hart stays the sign extension of its low half, and no hart changes its
  width or its id.
\<close>

theorem run_registers:
  assumes "\<forall>k. sext_ok (harts M k)"
  shows "sext_ok (harts (run_harts hs M) k) \<and> xlen (harts (run_harts hs M) k) = xlen (harts M k) \<and>
    hartid (harts (run_harts hs M) k) = hartid (harts M k)"
proof -
  have step: "regs_step (harts M k) (harts (after h M) k)" for h M k
    using regs_inv.keeps_cpu_step [of h M] by (cases "k = h") (auto simp: frame_def after_def)
  have "regs_step (harts M k) (harts (run_harts hs M) k)"
  proof (induction hs arbitrary: M)
    case (Cons h hs)
    show ?case
      using transpD [OF regs_step_trans step Cons.IH] by (simp add: run_harts_def)
  qed (simp add: run_harts_def regs_inv.cpu_refl)
  with assms show ?thesis
    by (simp add: regs_step_def)
qed

theorem run_registers_witness:
  "sext_ok (harts (run_harts [0, 1, 0] (demo_machine PRIV_M)) 1)"
  using run_registers [of "demo_machine PRIV_M" "[0, 1, 0]" 1] by (simp add: demo_machine_ok)

text \<open>
  C1: the guest is confined to its memory. With the platform's DMA window inside the allocation,
  any schedule of steps - loads, stores, atomics, page-table updates, device register accesses and
  the virtio DMA they start - changes no byte outside the allocated RAM and keeps its geometry.
\<close>

theorem run_confined:
  assumes "plat_attached (mem M)"
  shows "mem_safe (mem M) (mem (run_harts hs M))"
proof -
  have step: "mem_step (mem M) (mem (after h M))" for h M
    using mem_inv.keeps_cpu_step [of h M] by (simp add: frame_def after_def)
  have "mem_step (mem M) (mem (run_harts hs M))"
  proof (induction hs arbitrary: M)
    case (Cons h hs)
    show ?case
      using transpD [OF mem_step_trans step Cons.IH] by (simp add: run_harts_def)
  qed (simp add: run_harts_def mem_inv.mem_refl)
  with assms show ?thesis
    by (simp add: mem_step_def)
qed

theorem run_confined_witness:
  "mem_safe (mem (demo_machine PRIV_M)) (mem (run_harts [0, 1, 0] (demo_machine PRIV_M)))"
  by (rule run_confined) (simp add: demo_machine_ok)

text \<open>
  C4: harts are separated. A step of one hart leaves every other hart exactly as it is, except that
  it may void the other's LR reservation, or - through the SBI - start it when it is stopped.
\<close>

theorem step_siblings:
  assumes "k \<noteq> h"
  shows "sibling_step (harts M k) (harts (after h M) k)"
  using siblings.keeps_cpu_step [of h M] assms by (simp add: frame_def after_def)

theorem step_siblings_witness:
  "sibling_step (harts (demo_machine PRIV_M) 1) (harts (after 0 (demo_machine PRIV_M)) 1)"
  by (rule step_siblings) simp



text \<open>
  C5: a step either retires exactly one instruction or stops it. Either the counter advances by one,
  the hart neither trapped nor halted, no memory access faulted and the program counter is even; or the
  counter is unchanged and the hart has trapped or halted.
\<close>

theorem step_retires:
  fixes h M
  defines "c \<equiv> harts M h" and "c' \<equiv> harts (after h M) h"
  shows "instret c' = instret c + 1 \<and> \<not> trapped c' \<and> \<not> halted c' \<and> \<not> mfault (mem (after h M)) \<and> pc c' AND 1 = 0
    \<or> instret c' = instret c \<and> (trapped c' \<or> halted c')"
proof -
  obtain stop c1 where p: "cpu_pre_step (c\<lparr>trapped := False\<rparr>) (mplat (mem M)) = (stop, c1)"
    and a: "after h M = (if stop then begun h M c1 else snd (run_state (body h) (begun h M c1)))"
    unfolding c_def using after_cases by blast
  have i: "instret c1 = instret c" "stop \<Longrightarrow> trapped c1 \<or> halted c1"
    using p by (cases rule: pre_step_cases; auto simp: mip_like_def set_csr_def enter_trap_def Let_def)+
  show ?thesis
  proof (cases stop)
    case False
    obtain f M1 where f: "run_state (fetch h) (begun h M c1) = (f, M1)" by (cases "run_state (fetch h) (begun h M c1)")
    have f1: "instret (harts M1 h) = instret c"
      using counter.keeps_fetch [where h = h and M = "begun h M c1"] f i by (simp add: keeps_def frame_def)
    show ?thesis
    proof (cases f)
      case None
      then show ?thesis
        using a False f f1 fetch_stops [of h "begun h M c1" M1] by (simp add: body_def run_bind c'_def stopped_def)
    next
      case (Some il)
      obtain inst ilen where il: "il = (inst, ilen)" by (cases il)
      obtain n M2 where e: "run_state (execute h inst ilen) M1 = (n, M2)" by (cases "run_state (execute h inst ilen) M1")
      obtain u M3 where r: "run_state (retire h inst n) M2 = (u, M3)" by (cases "run_state (retire h inst n) M2")
      have "instret (harts M2 h) = instret c"
        using counter.keeps_execute [where h = h and M = M1 and inst = inst and ilen = ilen] e f1 by (simp add: keeps_def frame_def)
      moreover have "after h M = M3"
        using a False f Some il e r by (simp add: body_def run_bind)
      ultimately show ?thesis
        using retire_cases [OF r] by (simp add: c'_def stopped_def)
    qed
  qed (use a i in \<open>simp add: c'_def\<close>)
qed

end
