(* ===== verification/Wide_Int.thy ===== *)
theory Wide_Int
  imports Softfloat Alu_Props
begin

text \<open>
  The two- and four-word integers of \<open>src/src/softfloat.c\<close> compute what they stand for: each helper
  is related to an operation on natural numbers, with the bounds under which it does not wrap.
\<close>

definition val128 :: "u128 \<Rightarrow> nat" where
  "val128 a = unat (hi a) * 2 ^ 64 + unat (lo a)"

fun val_words :: "u64 list \<Rightarrow> nat" where
  "val_words [] = 0"
| "val_words (w # ws) = unat w + 2 ^ 64 * val_words ws"

subsection \<open>Words as numbers\<close>

lemma unat_shl: "unat (shl x n) = unat x * 2 ^ n mod 2 ^ 64" for x :: u64
  unfolding shl_def unsigned_push_bit_eq by (simp add: push_bit_eq_mult take_bit_eq_mod)

lemma unat_or_disjoint: "x AND y = 0 \<Longrightarrow> unat (x OR y) = unat x + unat y" for x y :: "'a::len word"
  using disjunctive_add_eq_or [of "unat x" "unat y"] by (simp add: unsigned_or_eq flip: unsigned_and_eq)

lemma val128_less: "val128 a < 2 ^ 128"
proof -
  have "unat (hi a) \<le> 2 ^ 64 - 1" "unat (lo a) < 2 ^ 64"
    using unat_bound [of "hi a"] unat_bound [of "lo a"] by simp_all
  then show ?thesis by (simp add: val128_def)
qed

lemma val128_mk [simp]: "val128 (mk128 h l) = unat h * 2 ^ 64 + unat l"
  by (simp add: val128_def mk128_def)

lemma is0_128_val: "is0_128 a \<longleftrightarrow> val128 a = 0"
  by (simp add: is0_128_def val128_def or_eq_0_iff unat_eq_0)

lemma val128_split: "val128 a div 2 ^ 64 = unat (hi a)" "val128 a mod 2 ^ 64 = unat (lo a)"
  using unat_bound [of "lo a"] by (simp_all add: val128_def)

lemma val128_inj: "val128 a = val128 b \<longleftrightarrow> hi a = hi b \<and> lo a = lo b"
  by (metis val128_def val128_split word_eq_unat)

lemma cmp128_val: "cmp128 a b = (if val128 a < val128 b then - 1 else if val128 a = val128 b then 0 else 1)"
proof -
  have l: "hi a < hi b \<Longrightarrow> val128 a < val128 b" "hi b < hi a \<Longrightarrow> val128 b < val128 a" for a b
    using unat_bound [of "lo a"] unat_bound [of "lo b"] by (simp_all add: val128_def word_less_nat_alt)
  show ?thesis
    using l [of a b] l [of b a] val128_inj [of a b]
    by (auto simp: cmp128_def val128_def word_less_nat_alt word_eq_unat)
qed

lemma pair_mod: "y < B \<Longrightarrow> (x * B + y) mod (B * B) = x mod B * B + y" for B :: nat
  using mod_mult2_eq [of "x * B + y" B B] by (simp add: mult.commute)

lemma pow_128: "(2 :: nat) ^ 128 = 2 ^ 64 * 2 ^ 64"
  by simp

lemma add128_val: "val128 (add128 a b) = (val128 a + val128 b) mod 2 ^ 128"
proof -
  let ?B = "2 ^ 64 :: nat"
  define l where "l = unat (lo a) + unat (lo b)"
  have bl: "unat (lo a) < ?B" "unat (lo b) < ?B"
    using unat_bound [of "lo a"] unat_bound [of "lo b"] by simp_all
  have "lo a + lo b < lo a \<longleftrightarrow> ?B \<le> l"
    using bl by (auto simp: word_less_nat_alt unat_word_ariths l_def mod_if not_less)
  moreover have "unat (lo a + lo b) = l mod ?B"
    by (simp add: unat_word_ariths l_def)
  ultimately have "val128 (add128 a b) = (unat (hi a) + unat (hi b) + l div ?B) mod ?B * ?B + l mod ?B"
    using bl by (simp add: add128_def Let_def of_flag_def unat_word_ariths mod_simps div_if l_def)
  also have "\<dots> = ((unat (hi a) + unat (hi b) + l div ?B) * ?B + l mod ?B) mod (?B * ?B)"
    by (rule pair_mod [symmetric]) simp
  also have "(unat (hi a) + unat (hi b) + l div ?B) * ?B + l mod ?B = val128 a + val128 b"
    by (simp add: val128_def l_def algebra_simps)
  finally show ?thesis unfolding pow_128 .
qed

lemma sub128_val:
  assumes "val128 b \<le> val128 a"
  shows "val128 (sub128 a b) = val128 a - val128 b"
proof -
  let ?B = "2 ^ 64 :: nat"
  have bl: "unat (lo a) < ?B" "unat (lo b) < ?B"
    using unat_bound [of "lo a"] unat_bound [of "lo b"] by simp_all
  show ?thesis
  proof (cases "lo a < lo b")
    case True
    then have l: "unat (lo a - lo b) = ?B + unat (lo a) - unat (lo b)"
      using bl by (simp add: unat_sub_if' word_less_nat_alt)
    have h: "unat (hi b) < unat (hi a)"
      using assms True bl by (simp add: val128_def word_less_nat_alt)
    then have "unat (hi a - hi b - 1) = unat (hi a) - unat (hi b) - 1"
      by (simp add: unat_sub_if' word_le_nat_alt Suc_le_eq)
    moreover obtain d where "unat (hi a) = unat (hi b) + 1 + d"
      using h less_iff_Suc_add by auto
    ultimately show ?thesis
      using True l bl by (simp add: sub128_def of_flag_def val128_def mk128_def word_less_nat_alt)
  next
    case False
    then have h: "unat (hi b) \<le> unat (hi a)" "unat (lo b) \<le> unat (lo a)"
      using assms bl by (simp_all add: val128_def word_less_nat_alt not_less)
    then show ?thesis
      using False by (simp add: sub128_def of_flag_def val128_def mk128_def unat_sub word_le_nat_alt diff_mult_distrib)
  qed
qed

lemma shl_shr_disjoint: "k < 64 \<Longrightarrow> shl x k AND shr y (64 - k) = 0" for x y :: u64
  by (rule bit_word_eqI) (auto simp: bits dest: bit_imp_le_length)

lemma funnel_val:
  fixes x y :: u64
  assumes "k < 64"
  shows "unat (shl x k OR shr y (64 - k)) = (unat x * 2 ^ k + unat y div 2 ^ (64 - k)) mod 2 ^ 64"
proof -
  have "shl x k OR shr y (64 - k) = shl x k + shr y (64 - k)"
    using disjunctive_add_eq_or [OF shl_shr_disjoint [OF assms]] by simp
  then show ?thesis
    by (simp only: unat_word_ariths unat_shl unat_shr) (simp add: mod_simps)
qed

lemma div_pow_split: "k \<le> n \<Longrightarrow> l * 2 ^ k div 2 ^ n = l div 2 ^ (n - k)" for l :: nat
  using div_mult_mult2 [of "2 ^ k" l "2 ^ (n - k)"] by (simp flip: power_add)

lemma shl128_small:
  assumes "k < 64"
  shows "val128 (mk128 (shl (hi a) k OR shr (lo a) (64 - k)) (shl (lo a) k)) = val128 a * 2 ^ k mod 2 ^ 128"
proof -
  define B :: nat where "B = 2 ^ 64"
  define h where "h = unat (hi a)"
  define l where "l = unat (lo a)"
  have "val128 a * 2 ^ k = (h * 2 ^ k + l * 2 ^ k div B) * B + l * 2 ^ k mod B"
    unfolding val128_def B_def [symmetric] h_def [symmetric] l_def [symmetric] by (simp add: algebra_simps)
  also have "\<dots> mod (B * B) = (h * 2 ^ k + l * 2 ^ k div B) mod B * B + l * 2 ^ k mod B"
    by (rule pair_mod) (simp add: B_def)
  also have "l * 2 ^ k div B = l div 2 ^ (64 - k)"
    unfolding B_def by (rule div_pow_split) (use assms in simp)
  finally show ?thesis
    unfolding pow_128 val128_mk funnel_val [OF assms] unat_shl B_def h_def l_def ..
qed

lemma shl128_val:
  assumes "0 \<le> n" "n < 128"
  shows "val128 (shl128 a n) = val128 a * 2 ^ nat n mod 2 ^ 128"
proof -
  consider (zero) "n = 0" | (big) k where "n = 64 + int k" "k < 64" | (small) k where "n = int k" "0 < k" "k < 64"
  proof (cases "n \<ge> 64")
    case True
    then have "n = 64 + int (nat (n - 64))" "nat (n - 64) < 64" using assms by simp_all
    then show ?thesis using big by blast
  next
    case False
    then have "n = int (nat n)" "nat n < 64" using assms by simp_all
    then show ?thesis using small [of "nat n"] zero assms(1) by (cases "n = 0") auto
  qed
  then show ?thesis
  proof cases
    case zero
    then show ?thesis using val128_less [of a] by (simp add: shl128_def)
  next
    case (big k)
    define B :: nat where "B = 2 ^ 64"
    have "val128 a * 2 ^ (64 + k) = unat (hi a) * 2 ^ k * (B * B) + unat (lo a) * 2 ^ k * B"
      unfolding val128_def power_add B_def [symmetric] by (simp add: algebra_simps)
    then have "val128 a * 2 ^ (64 + k) mod (B * B) = unat (lo a) * 2 ^ k * B mod (B * B)"
      by (simp only: mod_mult_self3)
    also have "\<dots> = unat (lo a) * 2 ^ k mod B * B"
      by (rule mod_mult_mult2)
    finally show ?thesis
      using big unfolding pow_128 B_def by (simp add: shl128_def unat_shl nat_add_distrib)
  next
    case (small k)
    then have "shl128 a n = mk128 (shl (hi a) k OR shr (lo a) (64 - k)) (shl (lo a) k)"
      by (simp add: shl128_def nat_diff_distrib)
    then show ?thesis
      using shl128_small [of k a] small by simp
  qed
qed

lemma shl128_exact:
  assumes "0 \<le> n" "n < 128" "val128 a * 2 ^ nat n < 2 ^ 128"
  shows "val128 (shl128 a n) = val128 a * 2 ^ nat n"
  using assms by (simp add: shl128_val)

lemma unat_low_mask: "k < 64 \<Longrightarrow> unat (x AND (shl 1 k - 1)) = unat x mod 2 ^ k" for x :: u64
proof -
  assume "k < 64"
  have "shl 1 k - 1 = (mask k :: u64)"
    by (simp add: shl_def mask_eq_decr_exp)
  then show ?thesis
    by (simp add: unat_and_mask)
qed

lemma low_mask_zero: "k < 64 \<Longrightarrow> x AND (shl 1 k - 1) = 0 \<longleftrightarrow> unat x mod 2 ^ k = 0" for x :: u64
  by (simp add: word_eq_unat unat_low_mask)

lemma shr128_small:
  assumes "0 < k" "k < 64"
  shows "val128 (mk128 (shr (hi a) k) (shr (lo a) k OR shl (hi a) (64 - k))) = val128 a div 2 ^ k"
    and "val128 a mod 2 ^ k = unat (lo a) mod 2 ^ k"
proof -
  define B :: nat where "B = 2 ^ 64"
  define C :: nat where "C = 2 ^ (64 - k)"
  have B: "B = C * 2 ^ k"
    using assms by (simp add: B_def C_def flip: power_add)
  have X: "val128 a div 2 ^ k = unat (hi a) * C + unat (lo a) div 2 ^ k" and m: "val128 a mod 2 ^ k = unat (lo a) mod 2 ^ k"
    unfolding val128_def B_def [symmetric] B by (simp_all flip: mult.assoc)
  show "val128 a mod 2 ^ k = unat (lo a) mod 2 ^ k" by (fact m)
  have "val128 a div 2 ^ k div B = unat (hi a) div 2 ^ k"
    unfolding val128_split(1) [symmetric] B_def [symmetric] by (metis div_mult2_eq mult.commute)
  moreover have "unat (shr (lo a) k OR shl (hi a) (64 - k)) = (unat (hi a) * C + unat (lo a) div 2 ^ k) mod B"
    using funnel_val [of "64 - k" "hi a" "lo a"] assms unfolding B_def C_def by (simp add: or.commute)
  ultimately show "val128 (mk128 (shr (hi a) k) (shr (lo a) k OR shl (hi a) (64 - k))) = val128 a div 2 ^ k"
    using div_mult_mod_eq [of "val128 a div 2 ^ k" B] unfolding val128_mk unat_shr B_def [symmetric] X by simp
qed

lemma shr128_big:
  "val128 a div 2 ^ (64 + m) = unat (hi a) div 2 ^ m" "val128 a mod 2 ^ (64 + m) = 2 ^ 64 * (unat (hi a) mod 2 ^ m) + unat (lo a)"
  using val128_split [of a] by (simp_all only: power_add div_mult2_eq mod_mult2_eq)

lemma shr128_jam_val:
  assumes "0 < n" "shr128_jam a n = (r, lost)"
  shows "val128 r = val128 a div 2 ^ nat n \<and> (lost \<longleftrightarrow> val128 a mod 2 ^ nat n \<noteq> 0)"
proof -
  consider (huge) "n \<ge> 128" | (big) m where "n = 64 + int m" "m < 64" | (small) k where "n = int k" "0 < k" "k < 64"
  proof (cases "n \<ge> 64")
    case True
    then have "n = 64 + int (nat (n - 64))" by simp
    then show ?thesis using big [of "nat (n - 64)"] huge by (cases "n \<ge> 128") auto
  next
    case False
    then have "n = int (nat n)" "nat n < 64" "0 < nat n" using assms by simp_all
    then show ?thesis using small by blast
  qed
  then show ?thesis
  proof cases
    case huge
    have "(2 :: nat) ^ 128 \<le> 2 ^ nat n"
      using huge by (intro power_increasing) simp_all
    then have "val128 a < 2 ^ nat n"
      using val128_less [of a] by (rule less_le_trans [rotated])
    then show ?thesis
      using huge assms by (auto simp: shr128_jam_def is0_128_val)
  next
    case (big m)
    then have r: "r = mk128 0 (shr (hi a) m)" "lost \<longleftrightarrow> lo a \<noteq> 0 \<or> unat (hi a) mod 2 ^ m \<noteq> 0"
      using assms low_mask_zero [of m "hi a"] by (auto simp: shr128_jam_def Let_def or_eq_0_iff shr_def split: if_splits)
    have "nat n = 64 + m"
      using big by (simp add: nat_add_distrib)
    then show ?thesis
      unfolding r shr128_big \<open>nat n = 64 + m\<close> by (auto simp: unat_shr unat_eq_0)
  next
    case (small k)
    then have "r = mk128 (shr (hi a) k) (shr (lo a) k OR shl (hi a) (64 - k))" "lost \<longleftrightarrow> unat (lo a) mod 2 ^ k \<noteq> 0"
      using assms low_mask_zero [of k "lo a"] by (auto simp: shr128_jam_def Let_def nat_diff_distrib)
    then show ?thesis
      using shr128_small [of k a] small by simp
  qed
qed

subsection \<open>Leading bits\<close>

text \<open>One halving step of \<open>clz64\<close>: a value in the upper range stays, one in the lower is shifted up.\<close>

lemma clz_step:
  fixes y m :: u64
  assumes "2 ^ (64 - 2 * k) \<le> unat y \<and> unat y = X * 2 ^ nat n \<and> 0 \<le> n \<and> n \<le> b"
    and "(if y \<le> m then (n + j, shl y k) else (n, y)) = (n', y')"
    and "0 < k" "2 * k \<le> 64" "unat m = 2 ^ (64 - k) - 1" "j = int k"
  shows "2 ^ (64 - k) \<le> unat y' \<and> unat y' = X * 2 ^ nat n' \<and> 0 \<le> n' \<and> n' \<le> b + j"
proof (cases "y \<le> m")
  case True
  then have y: "unat y < 2 ^ (64 - k)"
    using assms(5) zero_less_power [of "2::nat" "64 - k"] unfolding word_le_nat_alt by linarith
  then have "unat y * 2 ^ k < 2 ^ (64 - k) * 2 ^ k"
    by (rule mult_strict_right_mono) simp
  then have "unat y * 2 ^ k < 2 ^ 64"
    using assms(3,4) by (simp flip: power_add)
  moreover have "2 ^ (64 - 2 * k) * 2 ^ k \<le> unat y * 2 ^ k"
    using assms(1) by (intro mult_right_mono) simp_all
  then have "2 ^ (64 - k) \<le> unat y * 2 ^ k"
    using assms(3,4) by (simp flip: power_add)
  moreover have "unat y * 2 ^ k = X * 2 ^ nat (n + j)"
    using assms(1,6) by (simp add: nat_add_distrib power_add)
  ultimately show ?thesis
    using assms(1,2,6) True unat_shl [of y k] by auto
next
  case False
  then have "2 ^ (64 - k) \<le> unat y"
    using assms(5) unfolding word_le_nat_alt by linarith
  then show ?thesis
    using False assms(1,2,6) by auto
qed

lemma clz64_val:
  assumes "x \<noteq> 0"
  shows "0 \<le> clz64 x \<and> clz64 x \<le> 63 \<and> 2 ^ 63 \<le> unat x * 2 ^ nat (clz64 x) \<and> unat x * 2 ^ nat (clz64 x) < 2 ^ 64"
proof -
  obtain n1 y1 where 1: "(if x \<le> 0x00000000FFFFFFFF then ((0 :: int) + 32, shl x 32) else ((0 :: int), x)) = (n1, y1)" by fastforce
  obtain n2 y2 where 2: "(if y1 \<le> 0x0000FFFFFFFFFFFF then (n1 + 16, shl y1 16) else (n1, y1)) = (n2, y2)" by fastforce
  obtain n3 y3 where 3: "(if y2 \<le> 0x00FFFFFFFFFFFFFF then (n2 + 8, shl y2 8) else (n2, y2)) = (n3, y3)" by fastforce
  obtain n4 y4 where 4: "(if y3 \<le> 0x0FFFFFFFFFFFFFFF then (n3 + 4, shl y3 4) else (n3, y3)) = (n4, y4)" by fastforce
  obtain n5 y5 where 5: "(if y4 \<le> 0x3FFFFFFFFFFFFFFF then (n4 + 2, shl y4 2) else (n4, y4)) = (n5, y5)" by fastforce
  obtain n6 y6 where 6: "(if y5 \<le> 0x7FFFFFFFFFFFFFFF then (n5 + 1, shl y5 1) else (n5, y5)) = (n6, y6)" by fastforce
  have c: "clz64 x = n6"
    using assms 6 unfolding clz64_def by (simp only: Let_def prod.case 1 2 3 4 5 if_False) (simp split: if_splits)
  have "2 ^ (64 - 2 * 32) \<le> unat x \<and> unat x = unat x * 2 ^ nat (0 :: int) \<and> (0 :: int) \<le> 0 \<and> (0 :: int) \<le> 0"
    using assms by (simp add: Suc_le_eq unat_gt_0)
  then have "2 ^ (64 - 32) \<le> unat y1 \<and> unat y1 = unat x * 2 ^ nat n1 \<and> 0 \<le> n1 \<and> n1 \<le> 0 + 32"
    by (rule clz_step [OF _ 1]) simp_all
  then have "2 ^ (64 - 2 * 16) \<le> unat y1 \<and> unat y1 = unat x * 2 ^ nat n1 \<and> 0 \<le> n1 \<and> n1 \<le> 0 + 32" by simp
  then have "2 ^ (64 - 16) \<le> unat y2 \<and> unat y2 = unat x * 2 ^ nat n2 \<and> 0 \<le> n2 \<and> n2 \<le> 0 + 32 + 16"
    by (rule clz_step [OF _ 2]) simp_all
  then have "2 ^ (64 - 2 * 8) \<le> unat y2 \<and> unat y2 = unat x * 2 ^ nat n2 \<and> 0 \<le> n2 \<and> n2 \<le> 0 + 32 + 16" by simp
  then have "2 ^ (64 - 8) \<le> unat y3 \<and> unat y3 = unat x * 2 ^ nat n3 \<and> 0 \<le> n3 \<and> n3 \<le> 0 + 32 + 16 + 8"
    by (rule clz_step [OF _ 3]) simp_all
  then have "2 ^ (64 - 2 * 4) \<le> unat y3 \<and> unat y3 = unat x * 2 ^ nat n3 \<and> 0 \<le> n3 \<and> n3 \<le> 0 + 32 + 16 + 8" by simp
  then have "2 ^ (64 - 4) \<le> unat y4 \<and> unat y4 = unat x * 2 ^ nat n4 \<and> 0 \<le> n4 \<and> n4 \<le> 0 + 32 + 16 + 8 + 4"
    by (rule clz_step [OF _ 4]) simp_all
  then have "2 ^ (64 - 2 * 2) \<le> unat y4 \<and> unat y4 = unat x * 2 ^ nat n4 \<and> 0 \<le> n4 \<and> n4 \<le> 0 + 32 + 16 + 8 + 4" by simp
  then have "2 ^ (64 - 2) \<le> unat y5 \<and> unat y5 = unat x * 2 ^ nat n5 \<and> 0 \<le> n5 \<and> n5 \<le> 0 + 32 + 16 + 8 + 4 + 2"
    by (rule clz_step [OF _ 5]) simp_all
  then have "2 ^ (64 - 2 * 1) \<le> unat y5 \<and> unat y5 = unat x * 2 ^ nat n5 \<and> 0 \<le> n5 \<and> n5 \<le> 0 + 32 + 16 + 8 + 4 + 2" by simp
  then have "2 ^ (64 - 1) \<le> unat y6 \<and> unat y6 = unat x * 2 ^ nat n6 \<and> 0 \<le> n6 \<and> n6 \<le> 0 + 32 + 16 + 8 + 4 + 2 + 1"
    by (rule clz_step [OF _ 6]) simp_all
  then show ?thesis
    using unat_bound [of y6] unfolding c by simp
qed

lemma msb64_val:
  assumes "x \<noteq> 0"
  shows "0 \<le> 63 - clz64 x" "63 - clz64 x \<le> 63" "2 ^ nat (63 - clz64 x) \<le> unat x" "unat x < 2 ^ (nat (63 - clz64 x) + 1)"
proof -
  obtain n where n: "clz64 x = int n" "n \<le> 63"
    using clz64_val [OF assms] by (metis nonneg_int_cases of_nat_le_iff of_nat_numeral)
  then have b: "2 ^ 63 \<le> unat x * 2 ^ n" "unat x * 2 ^ n < 2 ^ 64"
    using clz64_val [OF assms] by simp_all
  have m: "nat (63 - clz64 x) = 63 - n"
    using n by simp
  have "(2 :: nat) ^ 63 = 2 ^ (63 - n) * 2 ^ n" "(2 :: nat) ^ 64 = 2 ^ (63 - n + 1) * 2 ^ n"
    using n by (simp_all only: power_add [symmetric]) simp_all
  then show "2 ^ nat (63 - clz64 x) \<le> unat x" "unat x < 2 ^ (nat (63 - clz64 x) + 1)"
    using b unfolding m by (simp_all only: mult_le_cancel2 mult_less_cancel2)
  show "0 \<le> 63 - clz64 x" "63 - clz64 x \<le> 63" using n by simp_all
qed

lemma msb128_val:
  assumes "val128 a \<noteq> 0"
  shows "0 \<le> msb128 a \<and> msb128 a \<le> 127 \<and> 2 ^ nat (msb128 a) \<le> val128 a \<and> val128 a < 2 ^ (nat (msb128 a) + 1)"
proof (cases "hi a = 0")
  case True
  then have "lo a \<noteq> 0"
    using assms by (auto simp: val128_def)
  then show ?thesis
    using msb64_val [of "lo a"] True by (simp add: msb128_def clz128_def val128_def)
next
  case False
  define m where "m = nat (63 - clz64 (hi a))"
  have m: "2 ^ m \<le> unat (hi a)" "unat (hi a) + 1 \<le> 2 ^ (m + 1)" "msb128 a = 64 + int m" "m \<le> 63"
    using msb64_val [OF False] False by (simp_all add: m_def msb128_def clz128_def)
  have "2 ^ m * 2 ^ 64 \<le> val128 a"
    using mult_right_mono [OF m(1), of "2 ^ 64"] by (simp add: val128_def)
  moreover have "val128 a < (unat (hi a) + 1) * 2 ^ 64"
    using unat_bound [of "lo a"] by (simp add: val128_def)
  then have "val128 a < 2 ^ (m + 1) * 2 ^ 64"
    using mult_right_mono [OF m(2), of "2 ^ 64"] by (simp only: less_le_trans)
  ultimately show ?thesis
    unfolding m(3) using m(4) by (simp add: nat_add_distrib power_add)
qed

lemma word_halves: "x = ucast (ucast x :: u32) + shr x 32 * 2 ^ 32" for x :: u64
proof -
  have "ucast (ucast x :: u32) AND shl (shr x 32) 32 = 0"
    by (rule bit_word_eqI) (auto simp: bits)
  moreover have "x = ucast (ucast x :: u32) OR shl (shr x 32) 32"
  proof (rule bit_word_eqI)
    fix n assume "n < LENGTH(64)"
    then show "bit x n = bit (ucast (ucast x :: u32) OR shl (shr x 32) 32) n"
      by (cases "n < 32") (auto simp: bits)
  qed
  ultimately show ?thesis
    using disjunctive_add_eq_or [of "ucast (ucast x :: u32)" "shl (shr x 32) 32"] by (simp add: shl_def push_bit_eq_mult)
qed

lemma upper_vanishes: "x * 2 ^ 32 = ucast (ucast x :: u32) * 2 ^ 32" for x :: u64
proof -
  have "(2 :: u64) ^ 32 * 2 ^ 32 = 0" by simp
  then have "shr x 32 * 2 ^ 32 * 2 ^ 32 = 0"
    by (simp only: mult.assoc mult_zero_right)
  then show ?thesis
    by (subst word_halves [of x]) (simp only: distrib_right add_0_right)
qed

lemma mul64_lo: "lo (mul64 a b) = a * b"
proof -
  define al :: u64 where "al = ucast (ucast a :: u32)"
  define ah where "ah = shr a 32"
  define bl :: u64 where "bl = ucast (ucast b :: u32)"
  define bh where "bh = shr b 32"
  define P :: u64 where "P = 2 ^ 32"
  define c where "c = shr (al * bl) 32 + ucast (ucast (al * bh) :: u32) + ucast (ucast (ah * bl) :: u32)"
  have "P * P = 0" by (simp add: P_def)
  then have PP: "P * (P * z) = 0" for z by (simp only: mult.assoc [symmetric] mult_zero_left)
  have ll: "ucast (ucast (al * bl) :: u32) + shr (al * bl) 32 * P = al * bl"
    unfolding P_def by (rule word_halves [symmetric])
  have mask32: "(0xffffffff :: u64) = mask 32" by (simp add: mask_eq_exp_minus_1)
  have "(al * bl AND 0xffffffff) AND shl c 32 = 0"
    unfolding mask32 by (intro bit_word_eqI) (auto simp: bits bit_mask_iff)
  then have "lo (mul64 a b) = (al * bl AND 0xffffffff) + c * P"
    using disjunctive_add_eq_or [of "al * bl AND 0xffffffff" "shl c 32"]
    by (simp add: mul64_def Let_def mk128_def al_def ah_def bl_def bh_def c_def P_def shl_def push_bit_eq_mult)
  also have "al * bl AND 0xffffffff = ucast (ucast (al * bl) :: u32)"
    unfolding mask32 by (rule bit_word_eqI) (auto simp: bits bit_mask_iff)
  also have "c * P = shr (al * bl) 32 * P + al * bh * P + ah * bl * P"
    using upper_vanishes [of "al * bh"] upper_vanishes [of "ah * bl"] by (simp only: c_def P_def distrib_right)
  finally have "lo (mul64 a b) = al * bl + al * bh * P + ah * bl * P"
    by (simp only: add.assoc [symmetric] ll)
  also have "\<dots> = (al + ah * P) * (bl + bh * P)"
    by (simp add: algebra_simps PP)
  also have "\<dots> = a * b"
    using word_halves [of a] word_halves [of b] by (simp only: al_def ah_def bl_def bh_def P_def)
  finally show ?thesis .
qed

lemma mul64_val: "val128 (mul64 a b) = unat a * unat b"
proof -
  have "hi (mul64 a b) = mulhu64 a b"
    by (simp add: mul64_def mulhu64_def Let_def mk128_def)
  then show ?thesis
    unfolding val128_def mul64_lo by (simp add: unat_mulhu64 unat_word_ariths)
qed

subsection \<open>Division and square root\<close>

lemma shift_in_bit: "shl r 1 OR (shr x i AND 1) = (of_nat (2 * unat r + unat x div 2 ^ i mod 2) :: u64)"
proof -
  have "shl r 1 AND (shr x i AND 1) = 0"
    by (rule bit_word_eqI) (auto simp: bits bit_1_iff)
  then have "shl r 1 OR (shr x i AND 1) = shl r 1 + (shr x i AND 1)"
    by (simp add: disjunctive_add_eq_or)
  moreover have "shl r 1 = of_nat (2 * unat r)"
    by (simp add: shl_def push_bit_eq_mult)
  moreover have "shr x i AND 1 = of_nat (unat x div 2 ^ i mod 2)"
    using unat_and_mask [of "shr x i" 1] by (simp add: word_eq_unat unat_shr unat_of_nat mask_eq_exp_minus_1)
  ultimately show ?thesis by simp
qed

lemma udiv_step_val:
  fixes den :: u64 and num :: u128 and i :: nat
  assumes r: "unat r < unat den"
  defines "t \<equiv> 2 * unat r + unat (lo num) div 2 ^ i mod 2"
  shows "udiv_step num den i (q, r) =
    (if t \<ge> unat den then (q OR shl 1 i, of_nat (t - unat den)) else (q, of_nat t))"
proof -
  have "unat den < 2 ^ 64" using unat_bound [of den] by simp
  then have t: "t < 2 * unat den" "t < 2 ^ 65" using r by (simp_all add: t_def)
  have c: "shr r 63 \<noteq> 0 \<longleftrightarrow> 2 ^ 64 \<le> t"
  proof -
    have "2 ^ 63 \<le> x \<longleftrightarrow> 2 ^ 64 \<le> 2 * x + b" if "b < 2" for x b :: nat
      using that by auto
    from this [of "unat (lo num) div 2 ^ i mod 2" "unat r"] show ?thesis
      by (simp add: word_eq_unat unat_shr t_def div_eq_0_iff not_less)
  qed
  have u: "unat (of_nat t :: u64) = t mod 2 ^ 64"
    by (simp add: unat_of_nat)
  have d: "of_nat t - den = of_nat (t - unat den)" if "unat den \<le> t"
    using that by (simp add: of_nat_diff)
  have "(shr r 63 \<noteq> 0 \<or> of_nat t \<ge> den) \<longleftrightarrow> unat den \<le> t"
    unfolding c word_le_nat_alt u using \<open>unat den < 2 ^ 64\<close> t by (cases "t < 2 ^ 64") simp_all
  then show ?thesis
    unfolding udiv_step_def Let_def prod.case shift_in_bit t_def [symmetric]
    using d by (simp only: split: if_split) blast
qed

lemma or_low_bit:
  fixes q :: u64
  assumes "unat q mod 2 ^ Suc n = 0" "n < 64"
  shows "unat (q OR shl 1 n) = unat q + 2 ^ n"
proof -
  have "unat q div 2 ^ n mod 2 = 0"
    using assms(1) mod_mult2_eq [of "unat q" "2 ^ n" 2] by (simp add: mult.commute)
  then have "\<not> bit (unat q) n"
    by (simp add: bit_iff_odd even_iff_mod_2_eq_zero)
  then have "\<not> bit q n"
    using assms(2) by (simp add: bit_unsigned_iff)
  then have "q AND shl 1 n = 0"
    by (intro bit_word_eqI) (auto simp: bits bit_1_iff)
  then have "unat (q OR shl 1 n) = unat q + unat (shl (1 :: u64) n)" by (rule unat_or_disjoint)
  moreover have "(2 :: nat) ^ n < 2 ^ 64" using assms(2) by (intro power_strict_increasing) simp_all
  ultimately show ?thesis by (simp add: unat_shl)
qed

lemma udiv_loop:
  fixes den :: u64
  assumes "unat r < unat den" "unat q mod 2 ^ n = 0" "n \<le> 64" "fold (udiv_step num den) (rev [0..<n]) (q, r) = (q', r')"
  shows "unat r' < unat den \<and>
    (\<exists>k. unat q' = unat q + k \<and> k * unat den + unat r' = unat r * 2 ^ n + unat (lo num) mod 2 ^ n)"
  using assms
proof (induction n arbitrary: q r)
  case 0
  then show ?case by simp
next
  case (Suc n)
  define b where "b = unat (lo num) div 2 ^ n mod 2"
  define t where "t = 2 * unat r + b"
  define g where "g = (t \<ge> unat den)"
  define q1 where "q1 = (if g then q OR shl 1 n else q)"
  define t1 where "t1 = (if g then t - unat den else t)"
  have step: "udiv_step num den n (q, r) = (q1, of_nat t1)"
    using udiv_step_val [OF Suc.prems(1), of num n q] by (simp add: q1_def t1_def g_def t_def b_def)
  have "t1 < unat den" using Suc.prems(1) by (auto simp: t1_def g_def t_def b_def)
  then have r1: "unat (of_nat t1 :: u64) = t1"
    using unat_bound [of den] by (simp add: unat_of_nat)
  have q0: "unat q mod 2 ^ n = 0"
    using Suc.prems(2) by (metis mod_0 mod_mod_cancel le_imp_power_dvd lessI less_imp_le_nat)
  have q1: "unat q1 = unat q + (if g then 2 ^ n else 0)"
    using or_low_bit [OF Suc.prems(2)] Suc.prems(3) by (simp add: q1_def)
  then have "unat q1 mod 2 ^ n = 0" using q0 by simp
  then obtain k where k: "unat r' < unat den" "unat q' = unat q1 + k"
    "k * unat den + unat r' = t1 * 2 ^ n + unat (lo num) mod 2 ^ n"
    using Suc.IH [of "of_nat t1" q1] \<open>t1 < unat den\<close> r1 Suc.prems(3,4) step by (auto simp: r1)
  have "unat r * 2 ^ Suc n + unat (lo num) mod 2 ^ Suc n = t * 2 ^ n + unat (lo num) mod 2 ^ n"
    using mod_mult2_eq [of "unat (lo num)" "2 ^ n" 2] by (simp add: t_def b_def algebra_simps)
  also have "t = t1 + (if g then unat den else 0)" by (simp add: t1_def g_def)
  finally have "((if g then 2 ^ n else 0) + k) * unat den + unat r' = unat r * 2 ^ Suc n + unat (lo num) mod 2 ^ Suc n"
    using k(3) by (simp add: algebra_simps)
  then show ?case using k(1,2) q1 by (metis add.assoc)
qed

lemma udiv128_val:
  assumes "unat (hi num) < unat den"
  shows "(unat (fst (udiv128by64 num den)), unat (snd (udiv128by64 num den))) = (val128 num div unat den, val128 num mod unat den)"
proof -
  obtain q r where qr: "udiv128by64 num den = (q, r)" by fastforce
  then obtain k where k: "unat r < unat den" "unat q = k" "k * unat den + unat r = val128 num"
    using udiv_loop [OF assms, of 0 64 num q r] unat_bound [of "lo num"] by (auto simp: udiv128by64_def val128_def)
  then show ?thesis using qr by (simp flip: k(3))
qed

lemma get_bit128_val:
  assumes "0 \<le> i" "i < 128"
  shows "unat (get_bit128 x i) = val128 x div 2 ^ nat i mod 2"
proof (cases "i < 64")
  case True
  define k where "k = nat i"
  have k: "k < 64" "i = int k" using True assms by (auto simp: k_def)
  have "val128 x div 2 ^ k mod 2 = unat (lo x) div 2 ^ k mod 2"
  proof -
    have "val128 x = unat (lo x) + unat (hi x) * 2 ^ (63 - k) * 2 * 2 ^ k"
      using k(1) by (simp add: val128_def mult.assoc flip: power_Suc power_add)
    then show ?thesis by (simp only: div_mult_self3 mod_mult_self1) (simp add: div_mult_self1)
  qed
  then show ?thesis
    using k unat_and_mask [of "shr (lo x) k" 1] by (simp add: get_bit128_def unat_shr mask_eq_exp_minus_1)
next
  case False
  define k where "k = nat i - 64"
  have k: "k < 64" "i = 64 + int k" "nat i = 64 + k" using False assms by (auto simp: k_def)
  show ?thesis
    unfolding k(3) shr128_big
    using k unat_and_mask [of "shr (hi x) k" 1] by (simp add: get_bit128_def unat_shr mask_eq_exp_minus_1)
qed

lemma two_bits_val:
  assumes "i < 64"
  shows "unat (shl (get_bit128 x (2 * int i + 1)) 1 OR get_bit128 x (2 * int i)) = val128 x div 4 ^ i mod 4"
proof -
  define b1 where "b1 = get_bit128 x (2 * int i + 1)"
  define b0 where "b0 = get_bit128 x (2 * int i)"
  have "nat (2 * int i + 1) = Suc (2 * i)" "nat (2 * int i) = 2 * i" by auto
  then have n: "(2 :: nat) ^ nat (2 * int i + 1) = 4 ^ i * 2" "(2 :: nat) ^ nat (2 * int i) = 4 ^ i"
    by (simp_all add: power_mult)
  have b: "unat b1 = val128 x div 4 ^ i div 2 mod 2" "unat b0 = val128 x div 4 ^ i mod 2"
    using assms get_bit128_val [of "2 * int i + 1" x] get_bit128_val [of "2 * int i" x] unfolding n
    by (simp_all add: b1_def b0_def div_mult2_eq)
  have le: "unat b1 < 2" "unat b0 < 2" by (simp_all add: b)
  have "shl b1 1 AND b0 = 0"
    by (rule bit_word_eqI) (auto simp: bits b1_def b0_def get_bit128_def bit_1_iff)
  then have "unat (shl b1 1 OR b0) = unat (shl b1 1) + unat b0"
    by (rule unat_or_disjoint)
  also have "\<dots> = 2 * unat b1 + unat b0" using le by (simp add: unat_shl)
  also have "\<dots> = val128 x div 4 ^ i mod 4"
    unfolding b using mod_mult2_eq [of "val128 x div 4 ^ i" 2 2] by simp
  finally show ?thesis by (simp add: b1_def b0_def)
qed

lemma isqrt_step_val:
  fixes root :: u64 and rem x :: u128 and i :: nat
  assumes "i < 64" "unat root < 2 ^ 63" "val128 rem \<le> 2 * unat root" "isqrt_step x i (root, rem) = (root', rem')"
  defines "t \<equiv> 4 * val128 rem + val128 x div 4 ^ i mod 4"
  defines "u \<equiv> 4 * unat root + 1"
  shows "unat root' = 2 * unat root + (if u \<le> t then 1 else 0) \<and> val128 rem' + (if u \<le> t then u else 0) = t"
proof -
  define d where "d = val128 x div 4 ^ i mod 4"
  have d: "d < 4" by (simp add: d_def)
  define C :: nat where "C = 2 ^ 128"
  have C: "2 ^ 70 < C" by (simp add: C_def)
  have b: "4 * val128 rem < 2 ^ 68" "4 * unat root < 2 ^ 68" using assms(2,3) by simp_all
  define r1 where "r1 = add128 (shl128 rem 2) (mk128 0 (shl (get_bit128 x (2 * int i + 1)) 1 OR get_bit128 x (2 * int i)))"
  define tr where "tr = add128 (shl128 (mk128 0 root) 2) (mk128 0 1)"
  have r1: "val128 r1 = t"
    using b C d two_bits_val [OF assms(1), of x] shl128_val [of 2 rem]
    by (simp add: r1_def add128_val t_def d_def [symmetric] flip: C_def)
  have tr: "val128 tr = u"
    using b C shl128_val [of 2 "mk128 0 root"] by (simp add: tr_def add128_val u_def flip: C_def)
  have r0: "unat (shl root 1) = 2 * unat root"
    using assms(2) by (simp add: unat_shl)
  then have root: "unat (shl root 1 OR 1) = 2 * unat root + 1"
    using or_low_bit [of "shl root 1" 0] by (simp add: shl_def [of 1 0])
  have "(root', rem') = (if u \<le> t then (shl root 1 OR 1, sub128 r1 tr) else (shl root 1, r1))"
    using assms(4) unfolding isqrt_step_def Let_def prod.case r1_def [symmetric] tr_def [symmetric] cmp128_val r1 tr
    by (auto split: if_splits)
  then show ?thesis
    using sub128_val [of tr r1] r0 root by (simp add: r1 tr split: if_splits)
qed

lemma isqrt_loop:
  assumes "n \<le> 64" "unat root < 2 ^ (64 - n)" "(unat root)\<^sup>2 + val128 rem = val128 x div 4 ^ n" "val128 rem \<le> 2 * unat root"
    and "fold (isqrt_step x) (rev [0..<n]) (root, rem) = (root', rem')"
  shows "(unat root')\<^sup>2 + val128 rem' = val128 x \<and> val128 rem' \<le> 2 * unat root'"
  using assms
proof (induction n arbitrary: root rem)
  case 0
  then show ?case by simp
next
  case (Suc n)
  obtain r1 m1 where s: "isqrt_step x n (root, rem) = (r1, m1)" by fastforce
  define t where "t = 4 * val128 rem + val128 x div 4 ^ n mod 4"
  define u where "u = 4 * unat root + 1"
  define e where "e = (if u \<le> t then 1 else 0 :: nat)"
  have "(2 :: nat) ^ (64 - Suc n) \<le> 2 ^ 63" by (rule power_increasing) simp_all
  then have r63: "unat root < 2 ^ 63" using Suc.prems(2) by (rule less_le_trans [rotated])
  have v: "unat r1 = 2 * unat root + e" "val128 m1 + e * u = t"
    using isqrt_step_val [OF _ r63 Suc.prems(4) s] Suc.prems(1) by (auto simp: t_def u_def e_def)
  have t: "t < 8 * unat root + 4"
    using Suc.prems(4) by (simp add: t_def)
  have "val128 x div 4 ^ n = 4 * (val128 x div 4 ^ Suc n) + val128 x div 4 ^ n mod 4"
    unfolding power_Suc2 div_mult2_eq by (simp add: mult.commute)
  then have "val128 x div 4 ^ n = 4 * (unat root)\<^sup>2 + t"
    using Suc.prems(3) by (simp add: t_def)
  then have sq: "(unat r1)\<^sup>2 + val128 m1 = val128 x div 4 ^ n"
    using v by (auto simp: e_def u_def power2_eq_square algebra_simps split: if_splits)
  have le: "val128 m1 \<le> 2 * unat r1" using v t by (auto simp: e_def u_def split: if_splits)
  have "(2 :: nat) ^ (64 - n) = 2 * 2 ^ (64 - Suc n)" using Suc.prems(1) by (simp flip: power_Suc add: Suc_diff_le)
  then have "unat r1 < 2 ^ (64 - n)" using v(1) Suc.prems(2) by (auto simp: e_def)
  from Suc.IH [OF _ this sq le] show ?case using Suc.prems(1,5) s by simp
qed

lemma isqrt128_val:
  assumes "isqrt128 x = (root, inexact)"
  shows "(unat root)\<^sup>2 \<le> val128 x \<and> val128 x < (unat root + 1)\<^sup>2 \<and> (inexact \<longleftrightarrow> (unat root)\<^sup>2 \<noteq> val128 x)"
proof -
  obtain rem where f: "fold (isqrt_step x) (rev [0..<64]) (0, mk128 0 0) = (root, rem)" and i: "inexact = (\<not> is0_128 rem)"
    using assms by (auto simp: isqrt128_def split: prod.splits)
  have "val128 x div 4 ^ 64 = 0" using val128_less [of x] by simp
  then show ?thesis
    using isqrt_loop [OF _ _ _ _ f] by (auto simp: i is0_128_val power2_eq_square)
qed

lemma or_one_val: "unat (x OR 1) = unat x + (if even (unat x) then 1 else 0)" for x :: u64
  using or_one_eq [of "unat x"] unfolding unsigned_or_eq unsigned_1 by simp

lemma srjam64_val:
  assumes "0 < n"
  shows "unat (srjam64 a (int n)) = unat a div 2 ^ n + (if unat a mod 2 ^ n \<noteq> 0 \<and> even (unat a div 2 ^ n) then 1 else 0)"
proof (cases "n < 64")
  case True
  then show ?thesis
    using assms by (simp add: srjam64_def low_mask_zero or_one_val unat_shr)
next
  case False
  then have "(2 :: nat) ^ 64 \<le> 2 ^ n" by (intro power_increasing) simp_all
  then have "unat a < 2 ^ n" using unat_bound [of a] by simp
  then show ?thesis using False by (auto simp: srjam64_def of_flag_def unat_eq_0)
qed

subsection \<open>Four-word integers\<close>

lemma val_words_less: "val_words ws < 2 ^ (64 * length ws)"
proof (induction ws)
  case (Cons w ws)
  define B :: nat where "B = 2 ^ 64"
  have "unat w < B" using unat_bound [of w] by (simp add: B_def)
  moreover have "val_words ws + 1 \<le> B ^ length ws" using Cons by (simp add: B_def power_mult)
  then have "B * (val_words ws + 1) \<le> B * B ^ length ws" by (rule mult_le_mono2)
  ultimately have "unat w + B * val_words ws < B * B ^ length ws" by simp
  then show ?case by (simp add: B_def power_mult power_add)
qed simp

lemma bit_val_words: "bit (val_words ws) i \<longleftrightarrow> i div 64 < length ws \<and> bit (ws ! (i div 64)) (i mod 64)"
proof (induction ws arbitrary: i)
  case (Cons w ws)
  have "unat w AND push_bit 64 (val_words ws) = 0"
    by (rule bit_eqI) (auto simp: bit_and_iff bit_push_bit_iff bit_unsigned_iff dest: bit_imp_le_length)
  then have "val_words (w # ws) = unat w OR push_bit 64 (val_words ws)"
    using disjunctive_add_eq_or [of "unat w" "push_bit 64 (val_words ws)"] by (simp add: push_bit_eq_mult mult.commute)
  then have b: "bit (val_words (w # ws)) i \<longleftrightarrow> bit w i \<or> 64 \<le> i \<and> bit (val_words ws) (i - 64)"
    by (auto simp: bit_or_iff bit_push_bit_iff bit_unsigned_iff dest: bit_imp_le_length)
  show ?case
  proof (cases "i < 64")
    case True
    then show ?thesis using b by simp
  next
    case False
    then have "\<not> bit w i" using bit_imp_le_length [of w i] by auto
    moreover have "i div 64 = Suc ((i - 64) div 64)" "i mod 64 = (i - 64) mod 64"
      using False by (simp_all add: le_div_geq le_mod_geq)
    ultimately show ?thesis using b False Cons.IH by simp
  qed
qed simp

lemma val_words_128: "val_words (u256_from128 a) = val128 a"
  by (simp add: u256_from128_def val128_def)

lemma of_flag_val: "unat (of_flag b :: u64) = of_bool b"
  by (simp add: of_flag_def)

lemma carry_out: "unat (x + y) + 2 ^ 64 * of_bool (x + y < y) = unat x + unat y" for x y :: u64
proof (cases "unat x + unat y < 2 ^ 64")
  case True
  then have "unat (x + y) = unat x + unat y" by (simp add: unat_word_ariths)
  then show ?thesis by (simp add: word_less_nat_alt)
next
  case False
  define B :: nat where "B = 2 ^ 64"
  have "unat x < B" "unat y < B" using unat_bound [of x] unat_bound [of y] by (simp_all add: B_def)
  moreover have "unat (x + y) = (unat x + unat y) mod B" by (simp add: unat_word_ariths B_def)
  moreover have "B \<le> unat x + unat y" using False by (simp add: B_def)
  ultimately show ?thesis unfolding B_def [symmetric] by (simp add: word_less_nat_alt mod_if)
qed

lemma borrow_out: "unat (x - y) + unat y = unat x + 2 ^ 64 * of_bool (x < y)" for x y :: u64
  using carry_out [of "x - y" y] by simp

lemma low_word_mod: "s + B * c = x \<Longrightarrow> s < B \<Longrightarrow> (x + B * y) mod (B * D) = s + B * ((c + y) mod D)" for s B :: nat
proof -
  assume s: "s + B * c = x" "s < B"
  then have "x + B * y = s + B * (c + y)" by (simp add: algebra_simps)
  then show ?thesis using s(2) by (simp add: mod_mult2_eq)
qed

lemma add_words_val:
  assumes "length as = length bs" "unat c \<le> 1"
  shows "val_words (add_words c as bs) = (val_words as + val_words bs + unat c) mod 2 ^ (64 * length bs)"
  using assms
proof (induction c as bs rule: add_words.induct)
  case (1 c a as b bs)
  define B :: nat where "B = 2 ^ 64"
  define s2 where "s2 = a + c + b"
  define c1 where "c1 = (a + c < c)"
  define c2 where "c2 = (s2 < b)"
  have s: "unat (a + c) + B * of_bool c1 = unat a + unat c"
    unfolding B_def c1_def by (rule carry_out)
  have s2: "unat s2 + B * of_bool c2 = unat (a + c) + unat b"
    unfolding B_def c2_def s2_def by (rule carry_out)
  have bnd: "unat a < B" "unat b < B" "unat s2 < B"
    using unat_bound [of a] unat_bound [of b] unat_bound [of s2] by (simp_all add: B_def)
  have one: "\<not> (c1 \<and> c2)" using s s2 bnd 1(3) by auto
  then have k: "unat (of_flag c1 + of_flag c2 :: u64) = of_bool c1 + of_bool c2" by (auto simp: of_flag_def)
  have "unat s2 + B * (of_bool c1 + of_bool c2) = unat a + unat b + unat c"
    using s s2 by (simp add: distrib_left)
  from low_word_mod [OF this bnd(3), of "val_words as + val_words bs" "B ^ length bs"]
  have "(unat a + unat b + unat c + B * (val_words as + val_words bs)) mod (B * B ^ length bs) =
    unat s2 + B * ((val_words as + val_words bs + (of_bool c1 + of_bool c2)) mod B ^ length bs)"
    by (simp only: add.commute)
  moreover have "val_words (add_words (of_flag c1 + of_flag c2) as bs) =
    (val_words as + val_words bs + (of_bool c1 + of_bool c2)) mod B ^ length bs"
    using 1 one k by (simp add: c1_def c2_def s2_def Let_def B_def power_mult)
  moreover have "add_words c (a # as) (b # bs) = s2 # add_words (of_flag c1 + of_flag c2) as bs"
    by (simp add: Let_def c1_def c2_def s2_def)
  moreover have "(2 :: nat) ^ (64 * length (b # bs)) = B * B ^ length bs"
    by (simp add: B_def power_mult power_add)
  moreover have "unat a + B * val_words as + (unat b + B * val_words bs) + unat c =
    unat a + unat b + unat c + B * (val_words as + val_words bs)"
    by (simp add: algebra_simps)
  ultimately show ?case unfolding val_words.simps B_def [symmetric] by (simp only: val_words.simps B_def [symmetric])
qed simp_all

lemma sub_words_val:
  assumes "length as = length bs" "unat c \<le> 1"
  shows "\<exists>k. val_words (sub_words c as bs) + val_words bs + unat c = val_words as + k * 2 ^ (64 * length bs) \<and>
    length (sub_words c as bs) = length bs"
  using assms
proof (induction c as bs rule: sub_words.induct)
  case (1 c a as b bs)
  define B :: nat where "B = 2 ^ 64"
  define d where "d = a - (b + c)"
  define c1 where "c1 = (b + c < c)"
  define c2 where "c2 = (a < b + c)"
  have s: "unat (b + c) + B * of_bool c1 = unat b + unat c"
    unfolding B_def c1_def by (rule carry_out)
  have s2: "unat d + unat (b + c) = unat a + B * of_bool c2"
    unfolding B_def c2_def d_def by (rule borrow_out)
  have bnd: "unat b < B" using unat_bound [of b] by (simp add: B_def)
  have one: "\<not> (c1 \<and> c2)"
    using s bnd 1(3) by (auto simp: c2_def word_less_nat_alt)
  then have k: "unat (of_flag c1 + of_flag c2 :: u64) = of_bool c1 + of_bool c2" by (auto simp: of_flag_def)
  have le: "unat (of_flag c1 + of_flag c2 :: u64) \<le> 1" using one k by (cases c1) auto
  obtain k where ih: "val_words (sub_words (of_flag c1 + of_flag c2) as bs) + val_words bs + (of_bool c1 + of_bool c2) =
    val_words as + k * B ^ length bs" "length (sub_words (of_flag c1 + of_flag c2) as bs) = length bs"
    using 1(1) [OF refl refl refl refl, folded c1_def c2_def, OF _ le] 1(2) k by (auto simp: B_def power_mult)
  have e: "sub_words c (a # as) (b # bs) = d # sub_words (of_flag c1 + of_flag c2) as bs"
    by (simp add: Let_def c1_def c2_def d_def)
  have p: "(2 :: nat) ^ (64 * length (b # bs)) = B * B ^ length bs"
    by (simp add: B_def power_mult power_add)
  define v where "v = val_words (sub_words (of_flag c1 + of_flag c2) as bs)"
  have "unat d + unat b + unat c = unat a + B * (of_bool c1 + of_bool c2)"
    using s s2 by (simp add: distrib_left)
  moreover have "B * v + B * val_words bs + B * (of_bool c1 + of_bool c2) = B * val_words as + k * (B * B ^ length bs)"
    using arg_cong [OF ih(1), of "\<lambda>x. B * x"] by (simp add: v_def algebra_simps)
  ultimately have "unat d + B * v + (unat b + B * val_words bs) + unat c = unat a + B * val_words as + k * (B * B ^ length bs)"
    by linarith
  then show ?case
    unfolding e p val_words.simps B_def [symmetric] v_def using ih(2) by (intro exI [of _ k]) simp
qed simp_all

lemma four_words: "length a = 4 \<Longrightarrow> \<exists>w x y z. a = [w, x, y, z]"
  by (auto simp: numeral_eq_Suc length_Suc_conv)

lemma add256_val:
  assumes "length a = 4" "length b = 4" "val_words a + val_words b < 2 ^ 256"
  shows "val_words (add256 a b) = val_words a + val_words b" "length (add256 a b) = 4"
proof -
  show "val_words (add256 a b) = val_words a + val_words b"
    using assms add_words_val [of a b 0] by (simp add: add256_def)
  show "length (add256 a b) = 4"
    using four_words [OF assms(1)] four_words [OF assms(2)] by (auto simp: add256_def Let_def)
qed

lemma sub256_val:
  assumes "length a = 4" "length b = 4" "val_words b \<le> val_words a"
  shows "val_words (sub256 a b) = val_words a - val_words b" "length (sub256 a b) = 4"
proof -
  define B :: nat where "B = 2 ^ 256"
  obtain k where k: "val_words (sub256 a b) + val_words b = val_words a + k * B" "length (sub256 a b) = 4"
    using sub_words_val [of a b 0] assms by (auto simp: sub256_def B_def)
  have "val_words (sub256 a b) < B" using val_words_less [of "sub256 a b"] k(2) by (simp add: B_def)
  then have "k = 0" using k(1) assms(3) by (cases k) auto
  then show "val_words (sub256 a b) = val_words a - val_words b" using k(1) by simp
  show "length (sub256 a b) = 4" by (rule k(2))
qed

lemma cmp_step:
  "unat (x :: u64) + 2 ^ 64 * v < unat (y :: u64) + 2 ^ 64 * w \<longleftrightarrow> v < w \<or> v = w \<and> x < y"
  "unat x + 2 ^ 64 * v = unat y + 2 ^ 64 * w \<longleftrightarrow> v = w \<and> x = y"
proof -
  define B :: nat where "B = 2 ^ 64"
  have b: "unat x < B" "unat y < B" using unat_bound [of x] unat_bound [of y] by (simp_all add: B_def)
  have l: "p + B * m < q + B * n" if "p < B" "m < n" for p q m n
  proof -
    have "B * (m + 1) \<le> B * n" using that(2) by (intro mult_le_mono2) simp
    then show ?thesis using that(1) by simp
  qed
  show "unat x + 2 ^ 64 * v < unat y + 2 ^ 64 * w \<longleftrightarrow> v < w \<or> v = w \<and> x < y"
    unfolding B_def [symmetric] word_less_nat_alt
    using l [OF b(1), of v w "unat y"] l [OF b(2), of w v "unat x"] by (cases v w rule: linorder_cases) auto
  show "unat x + 2 ^ 64 * v = unat y + 2 ^ 64 * w \<longleftrightarrow> v = w \<and> x = y"
    unfolding B_def [symmetric] word_eq_unat
    using l [OF b(1), of v w "unat y"] l [OF b(2), of w v "unat x"] by (cases v w rule: linorder_cases) auto
qed

lemma cmp256_val:
  assumes "length a = 4" "length b = 4"
  shows "cmp256 a b = (if val_words a < val_words b then - 1 else if val_words a = val_words b then 0 else 1)"
proof -
  obtain a0 a1 a2 a3 b0 b1 b2 b3 where "a = [a0, a1, a2, a3]" "b = [b0, b1, b2, b3]"
    using four_words [OF assms(1)] four_words [OF assms(2)] by blast
  then show ?thesis
    unfolding cmp256_def by (simp add: cmp_step del: power_numeral flip: word_less_nat_alt word_eq_unat)
qed

lemma is0_256_val: "length a = 4 \<Longrightarrow> is0_256 a \<longleftrightarrow> val_words a = 0"
  by (frule four_words) (auto simp: is0_256_def or_eq_0_iff unat_eq_0)

lemma msb_above:
  assumes "l < 2 ^ (64 * i)" "x \<noteq> 0"
  shows "0 \<le> int i * 64 + (63 - clz64 x) \<and> int i * 64 + (63 - clz64 x) \<le> int i * 64 + 63 \<and>
    2 ^ nat (int i * 64 + (63 - clz64 x)) \<le> l + 2 ^ (64 * i) * unat x \<and>
    l + 2 ^ (64 * i) * unat x < 2 ^ (nat (int i * 64 + (63 - clz64 x)) + 1)"
proof -
  define k where "k = nat (63 - clz64 x)"
  define D :: nat where "D = 2 ^ (64 * i)"
  have k: "63 - clz64 x = int k" "k \<le> 63" "2 ^ k \<le> unat x" "unat x + 1 \<le> 2 ^ (k + 1)"
    using msb64_val [OF assms(2)] by (simp_all add: k_def)
  have "D * 2 ^ k \<le> l + D * unat x"
    using mult_le_mono2 [OF k(3), of D] by linarith
  moreover have "D * (unat x + 1) \<le> D * 2 ^ (k + 1)"
    using k(4) by (rule mult_le_mono2)
  moreover have "nat (int i * 64 + int k) = 64 * i + k" by simp
  moreover have "(2 :: nat) ^ (64 * i + k) = D * 2 ^ k" "(2 :: nat) ^ (64 * i + k + 1) = D * 2 ^ (k + 1)"
    by (simp_all add: D_def power_add)
  ultimately show ?thesis
    using assms(1) k(2) unfolding k(1) D_def [symmetric] by simp
qed

lemma msb256_val:
  assumes "length a = 4" "val_words a \<noteq> 0"
  shows "0 \<le> msb256 a \<and> msb256 a \<le> 255 \<and> 2 ^ nat (msb256 a) \<le> val_words a \<and> val_words a < 2 ^ (nat (msb256 a) + 1)"
proof -
  obtain a0 a1 a2 a3 where a: "a = [a0, a1, a2, a3]" using four_words [OF assms(1)] by blast
  consider "a3 \<noteq> 0" | "a3 = 0" "a2 \<noteq> 0" | "a3 = 0" "a2 = 0" "a1 \<noteq> 0" | "a3 = 0" "a2 = 0" "a1 = 0" "a0 \<noteq> 0"
    using assms(2) a by (auto simp: unat_eq_0)
  then show ?thesis
  proof cases
    case 1
    then show ?thesis
      using msb_above [of "val_words [a0, a1, a2]" 3 a3] val_words_less [of "[a0, a1, a2]"] by (simp add: a msb256_def)
  next
    case 2
    then show ?thesis
      using msb_above [of "val_words [a0, a1]" 2 a2] val_words_less [of "[a0, a1]"] by (simp add: a msb256_def)
  next
    case 3
    then show ?thesis
      using msb_above [of "val_words [a0]" 1 a1] val_words_less [of "[a0]"] by (simp add: a msb256_def)
  next
    case 4
    then show ?thesis
      using msb_above [of 0 0 a0] by (simp add: a msb256_def)
  qed
qed

lemma block_index:
  fixes I N j b :: nat
  assumes "64 * N + b \<le> 64 * I + j" "j < 64" "b < 64"
  shows "b \<le> j \<Longrightarrow> (64 * I + j - (64 * N + b)) div 64 = I - N \<and> (64 * I + j - (64 * N + b)) mod 64 = j - b"
    and "j < b \<Longrightarrow> N < I \<and> (64 * I + j - (64 * N + b)) div 64 = I - N - 1 \<and>
      (64 * I + j - (64 * N + b)) mod 64 = 64 + j - b"
proof -
  assume l: "b \<le> j"
  have "N \<le> I" using assms by linarith
  then obtain p q where "I = N + p" "j = b + q" using l by (metis le_Suc_ex)
  then show "(64 * I + j - (64 * N + b)) div 64 = I - N \<and> (64 * I + j - (64 * N + b)) mod 64 = j - b"
    using assms(2) by simp
next
  assume l: "j < b"
  then have "N + 1 \<le> I" using assms(1) by linarith
  then obtain p where I: "I = N + 1 + p" by (metis le_Suc_ex)
  obtain q where b: "b = j + q" using l by (metis le_Suc_ex less_imp_le_nat)
  have e: "64 * I + j - (64 * N + b) = 64 * p + (64 - q)" and q: "0 < q" "q < 64"
    using I b l assms(3) by simp_all
  have "(64 * p + (64 - q)) div 64 = p \<and> (64 * p + (64 - q)) mod 64 = 64 - q" if "64 - q < 64"
    using that by (simp del: add_diff_assoc)
  then show "N < I \<and> (64 * I + j - (64 * N + b)) div 64 = I - N - 1 \<and> (64 * I + j - (64 * N + b)) mod 64 = 64 + j - b"
    unfolding e using I b q by (simp del: add_diff_assoc)
qed

lemma index_split:
  fixes i n :: nat
  assumes "n \<le> i"
  shows "n mod 64 \<le> i mod 64 \<Longrightarrow> (i - n) div 64 = i div 64 - n div 64 \<and> (i - n) mod 64 = i mod 64 - n mod 64"
    and "i mod 64 < n mod 64 \<Longrightarrow>
      n div 64 < i div 64 \<and> (i - n) div 64 = i div 64 - n div 64 - 1 \<and> (i - n) mod 64 = 64 + i mod 64 - n mod 64"
  using block_index [of "n div 64" "n mod 64" "i div 64" "i mod 64"] assms by simp_all

lemma shl128_256_val:
  assumes "0 \<le> n" "n < 256"
  shows "val_words (shl128_256 a n) = val128 a * 2 ^ nat n mod 2 ^ 256" "length (shl128_256 a n) = 4"
proof -
  define w where "w = nat n div 64"
  define b where "b = nat n mod 64"
  define s where "s = u256_from128 a"
  define f where "f i = (if i \<ge> w then (if b \<noteq> 0 \<and> i \<ge> w + 1 then shl (s ! (i - w)) b OR shr (s ! (i - w - 1)) (64 - b) else shl (s ! (i - w)) b) else 0)" for i
  have sh: "shl128_256 a n = map f [0..<4]"
    using assms by (simp add: shl128_256_def Let_def f_def s_def w_def b_def cong: if_cong)
  then show "length (shl128_256 a n) = 4" by simp
  have len: "length s = 4" by (simp add: s_def u256_from128_def)
  have b64: "b < 64" by (simp add: b_def)
  have "bit (val_words (map f [0..<4])) i = bit (take_bit 256 (push_bit (nat n) (val_words s))) i" for i
  proof (cases "i < 256 \<and> nat n \<le> i")
    case True
    then have i: "i div 64 < 4" "nat n \<le> i" "i < 256" by auto
    have j: "i mod 64 < 64" by simp
    have "w \<le> i div 64" using i(2) by (simp add: w_def div_le_mono)
    then have "bit (f (i div 64)) (i mod 64) = bit (s ! ((i - nat n) div 64)) ((i - nat n) mod 64)"
      using index_split [OF i(2)] j b64 bit_imp_le_length [of "s ! (i div 64 - w - 1)" "64 - b + i mod 64"]
      by (cases "i mod 64 < b") (auto simp: f_def bits w_def [symmetric] b_def [symmetric])
    moreover have "(i - nat n) div 64 < 4" using i by simp
    ultimately show ?thesis
      using i by (simp add: bit_val_words bit_take_bit_iff bit_push_bit_iff len)
  next
    case False
    have "\<not> bit (f (i div 64)) (i mod 64)" if "i < nat n"
    proof -
      have "i div 64 \<le> w" using that by (simp add: w_def div_le_mono)
      moreover have "i mod 64 < b" if "i div 64 = w"
      proof -
        have "i div 64 * 64 + i mod 64 < nat n div 64 * 64 + nat n mod 64"
          using \<open>i < nat n\<close> by (simp only: div_mult_mod_eq)
        then show ?thesis using that by (simp only: w_def b_def)
      qed
      ultimately show ?thesis by (auto simp: f_def bits)
    qed
    then show ?thesis
      using False by (auto simp: bit_val_words bit_take_bit_iff bit_push_bit_iff)
  qed
  then have "val_words (map f [0..<4]) = take_bit 256 (push_bit (nat n) (val_words s))" by (rule bit_eqI)
  then show "val_words (shl128_256 a n) = val128 a * 2 ^ nat n mod 2 ^ 256"
    by (simp only: sh s_def val_words_128 push_bit_eq_mult take_bit_eq_mod)
qed

lemma val_words_append: "val_words (xs @ ys) = val_words xs + 2 ^ (64 * length xs) * val_words ys"
  by (induction xs) (simp_all add: power_add distrib_left)

lemma val_words_eq_0: "val_words xs = 0 \<longleftrightarrow> (\<forall>i<length xs. xs ! i = 0)"
  by (induction xs) (auto simp: unat_eq_0 nth_Cons split: nat.splits)

lemma block_add:
  fixes K j :: nat
  shows "j < 64 \<Longrightarrow> (64 * K + j) div 64 = K \<and> (64 * K + j) mod 64 = j"
    and "64 \<le> j \<Longrightarrow> j < 128 \<Longrightarrow> (64 * K + j) div 64 = K + 1 \<and> (64 * K + j) mod 64 = j - 64"
proof -
  show "j < 64 \<Longrightarrow> (64 * K + j) div 64 = K \<and> (64 * K + j) mod 64 = j" by simp
  assume "64 \<le> j" "j < 128"
  then obtain q where j: "j = 64 + q" by (metis le_Suc_ex)
  then have "q < 64" using \<open>j < 128\<close> by simp
  then show "(64 * K + j) div 64 = K + 1 \<and> (64 * K + j) mod 64 = j - 64" using j by simp
qed

lemma index_add:
  fixes i n :: nat
  shows "i mod 64 + n mod 64 < 64 \<Longrightarrow> (n + i) div 64 = i div 64 + n div 64 \<and> (n + i) mod 64 = i mod 64 + n mod 64"
    and "64 \<le> i mod 64 + n mod 64 \<Longrightarrow> (n + i) div 64 = i div 64 + n div 64 + 1 \<and> (n + i) mod 64 = i mod 64 + n mod 64 - 64"
proof -
  have e: "64 * (i div 64 + n div 64) + (i mod 64 + n mod 64) = n + i" by simp
  have "i mod 64 < 64" "n mod 64 < 64" by simp_all
  then have l: "i mod 64 + n mod 64 < 128" by linarith
  show "i mod 64 + n mod 64 < 64 \<Longrightarrow> (n + i) div 64 = i div 64 + n div 64 \<and> (n + i) mod 64 = i mod 64 + n mod 64"
    using block_add(1) [of "i mod 64 + n mod 64" "i div 64 + n div 64"] unfolding e .
  show "64 \<le> i mod 64 + n mod 64 \<Longrightarrow> (n + i) div 64 = i div 64 + n div 64 + 1 \<and> (n + i) mod 64 = i mod 64 + n mod 64 - 64"
    using block_add(2) [of "i mod 64 + n mod 64" "i div 64 + n div 64", OF _ l] unfolding e .
qed

lemma words_lost:
  assumes "length a = 4" "n < 256"
  shows "((\<exists>i\<in>set [0..<n div 64]. a ! i \<noteq> 0) \<or> (n mod 64 \<noteq> 0 \<and> a ! (n div 64) AND (shl 1 (n mod 64) - 1) \<noteq> 0)) \<longleftrightarrow>
    val_words a mod 2 ^ n \<noteq> 0"
proof -
  define w where "w = n div 64"
  define b where "b = n mod 64"
  define D :: nat where "D = 2 ^ (64 * w)"
  have n: "n = 64 * w + b" and b: "b < 64" and w: "w < length a" using assms by (simp_all add: w_def b_def)
  define x where "x = val_words (take w a)"
  have "a = take w a @ a ! w # drop (Suc w) a" using w by (simp add: id_take_nth_drop)
  then have "val_words a = val_words (take w a @ a ! w # drop (Suc w) a)" by simp
  also have "\<dots> = x + D * (unat (a ! w) + 2 ^ 64 * val_words (drop (Suc w) a))"
    using w unfolding val_words_append by (simp add: x_def D_def)
  finally have v: "val_words a = x + D * (unat (a ! w) + 2 ^ 64 * val_words (drop (Suc w) a))" .
  have "x < D" using val_words_less [of "take w a"] w by (simp add: x_def D_def)
  moreover have "(2 :: nat) ^ 64 * y mod 2 ^ b = 0" for y
    using b by (metis dvd_imp_mod_0 dvd_mult2 le_imp_power_dvd less_imp_le_nat)
  then have "(unat (a ! w) + 2 ^ 64 * y) mod 2 ^ b = unat (a ! w) mod 2 ^ b" for y
    by (metis add.right_neutral mod_add_right_eq)
  ultimately have "val_words a mod (D * 2 ^ b) = x + D * (unat (a ! w) mod 2 ^ b)"
    unfolding v by (simp add: mod_mult2_eq)
  moreover have "D \<noteq> 0" by (simp add: D_def)
  ultimately have "val_words a mod 2 ^ n \<noteq> 0 \<longleftrightarrow> x \<noteq> 0 \<or> unat (a ! w) mod 2 ^ b \<noteq> 0"
    unfolding n power_add D_def [symmetric] by simp
  moreover have "x \<noteq> 0 \<longleftrightarrow> (\<exists>i\<in>set [0..<w]. a ! i \<noteq> 0)"
    using w by (auto simp: x_def val_words_eq_0)
  ultimately show ?thesis
    using low_mask_zero [OF b, of "a ! w"] by (auto simp flip: w_def b_def)
qed

lemma shr256_jam_val:
  assumes "length a = 4" "0 < n" "shr256_jam a n = (r, lost)"
  shows "val_words r = val_words a div 2 ^ nat n" "length r = 4" "lost \<longleftrightarrow> val_words a mod 2 ^ nat n \<noteq> 0"
proof -
  have "val_words r = val_words a div 2 ^ nat n \<and> length r = 4 \<and> (lost \<longleftrightarrow> val_words a mod 2 ^ nat n \<noteq> 0)"
  proof (cases "n < 256")
    case False
    then have "(2 :: nat) ^ 256 \<le> 2 ^ nat n" by (intro power_increasing) simp_all
    moreover have "val_words a < 2 ^ 256" using val_words_less [of a] assms(1) by simp
    ultimately have "val_words a < 2 ^ nat n" by (rule less_le_trans [rotated])
    then show ?thesis using False assms by (auto simp: shr256_jam_def is0_256_val)
  next
    case True
    define w where "w = nat n div 64"
    define b where "b = nat n mod 64"
    define f where "f i = (if i + w < 4 then (if b \<noteq> 0 \<and> i + w + 1 < 4 then shr (a ! (i + w)) b OR shl (a ! (i + w + 1)) (64 - b) else shr (a ! (i + w)) b) else 0)" for i
    have n: "nat n < 256" using True assms(2) by simp
    have r: "r = map f [0..<4]" and l: "lost \<longleftrightarrow> val_words a mod 2 ^ nat n \<noteq> 0"
      using assms(2,3) True words_lost [OF assms(1) n] unfolding f_def [abs_def] by (auto simp: shr256_jam_def Let_def w_def b_def cong: if_cong)
    have b64: "b < 64" by (simp add: b_def)
    have "bit (val_words r) i = bit (drop_bit (nat n) (val_words a)) i" for i
    proof -
      define I where "I = i div 64"
      define j where "j = i mod 64"
      have j: "j < 64" by (simp add: j_def)
      note ix = index_add [of i "nat n", folded I_def j_def w_def b_def]
      have "(I < 4 \<and> bit (f I) j) \<longleftrightarrow> (nat n + i) div 64 < 4 \<and> bit (a ! ((nat n + i) div 64)) ((nat n + i) mod 64)"
      proof (cases "j + b < 64")
        case True
        with ix(1) show ?thesis by (auto simp: f_def bits add.commute)
      next
        case False
        moreover have "\<not> bit (a ! (I + w)) (b + j)"
          using bit_imp_le_length [of "a ! (I + w)" "b + j"] False by auto
        ultimately show ?thesis using ix(2) j b64 by (auto simp: f_def bits add.commute)
      qed
      then show ?thesis
        unfolding I_def j_def by (simp add: r bit_val_words bit_drop_bit_eq assms(1) cong: conj_cong)
    qed
    then have "val_words r = drop_bit (nat n) (val_words a)" by (rule bit_eqI)
    then show ?thesis using l r by (simp add: drop_bit_eq_div)
  qed
  then show "val_words r = val_words a div 2 ^ nat n" "length r = 4" "lost \<longleftrightarrow> val_words a mod 2 ^ nat n \<noteq> 0" by blast+
qed

end
