(* ===== verification/Rounding.thy ===== *)
theory Rounding
  imports Complex_Main Wide_Int
begin

text \<open>
  Correct rounding. A bit pattern without its sign is a code; \<open>fval\<close> is the value of a code, increasing in
  the code, with the exponent range left open above infinity. \<open>rounds\<close> says which of the two
  neighbouring codes a real number rounds to in a rounding mode, and \<open>rounded_result\<close> what an IEEE
  operation must then return: the code with its sign, or the overflow result, with the flags
  inexact, underflow (tininess after rounding) and overflow.

  The C code rounds a significand whose last bit is sticky. The relation \<open>jam\<close> states what such a
  significand still tells about the exact number: its order relative to every multiple of
  \<open>2 ^ g\<close>. The locale \<open>ieee_format\<close> collects what \<open>roundpack\<close> needs of a format; it is interpreted on
  both formats of the code.
\<close>

definition fval :: "Fmt \<Rightarrow> nat \<Rightarrow> real" where
  "fval f n =
     (let E = n div 2 ^ mantbits f; F = n mod 2 ^ mantbits f
      in real (if E = 0 then F else 2 ^ mantbits f + F) * 2 powi (max (int E) 1 - bias f - int (mantbits f)))"

definition away :: "u32 \<Rightarrow> bool \<Rightarrow> real \<Rightarrow> real \<Rightarrow> bool \<Rightarrow> bool" where
  "away rm s below rest odd_code \<longleftrightarrow>
     (if rm = SF_RNE then rest < below \<or> rest = below \<and> odd_code
      else if rm = SF_RMM then rest \<le> below
      else rm = (if s then SF_RDN else SF_RUP) \<and> 0 < below)"

definition rounds :: "Fmt \<Rightarrow> u32 \<Rightarrow> bool \<Rightarrow> real \<Rightarrow> nat \<Rightarrow> bool" where
  "rounds f rm s x n \<longleftrightarrow>
     (\<exists>k. fval f k \<le> x \<and> x < fval f (k + 1) \<and>
          n = k + of_bool (away rm s (x - fval f k) (fval f (k + 1) - x) (odd k)))"

definition jam :: "nat \<Rightarrow> real \<Rightarrow> nat \<Rightarrow> bool" where
  "jam g y s \<longleftrightarrow> (\<forall>j. (real (j * 2 ^ g) \<le> y \<longleftrightarrow> j * 2 ^ g \<le> s) \<and> (y \<le> real (j * 2 ^ g) \<longleftrightarrow> s \<le> j * 2 ^ g))"

definition inc_of :: "u32 \<Rightarrow> bool \<Rightarrow> nat \<Rightarrow> nat" where
  "inc_of rm s R = (if rm = SF_RNE \<or> rm = SF_RMM then 2 ^ (R - 1) else if rm = (if s then SF_RDN else SF_RUP) then 2 ^ R - 1 else 0)"

definition sg_of :: "u32 \<Rightarrow> bool \<Rightarrow> nat \<Rightarrow> nat \<Rightarrow> nat" where
  "sg_of rm s R x =
     (let sg = (x + inc_of rm s R) div 2 ^ R
      in if rm = SF_RNE \<and> x mod 2 ^ R = 2 ^ (R - 1) then 2 * (sg div 2) else sg)"

definition inf_code :: "Fmt \<Rightarrow> nat" where
  "inf_code f = (2 ^ expbits f - 1) * 2 ^ mantbits f"

definition sign_code :: "Fmt \<Rightarrow> bool \<Rightarrow> nat" where
  "sign_code f s = of_bool s * 2 ^ (width f - 1)"

definition rounded_result :: "Fmt \<Rightarrow> u32 \<Rightarrow> bool \<Rightarrow> real \<Rightarrow> u64 \<times> u32 \<Rightarrow> bool" where
  "rounded_result f rm s x r \<longleftrightarrow>
     (\<exists>n. rounds f rm s x n \<and>
        (if n < inf_code f then
           unat (fst r) = sign_code f s + n \<and>
           snd r = (if x = fval f n then 0
                    else if \<exists>t. rounds f rm s (2 * x) t \<and> t < 2 * 2 ^ mantbits f then SF_NX OR SF_UF
                    else SF_NX)
         else
           unat (fst r) = sign_code f s + inf_code f -
             (if rm = SF_RNE \<or> rm = SF_RMM \<or> rm = (if s then SF_RDN else SF_RUP) then 0 else 1) \<and>
           snd r = SF_OF OR SF_NX))"

definition inc_word :: "nat \<Rightarrow> u32 \<Rightarrow> bool \<Rightarrow> u64" where
  "inc_word R rm s = (if rm \<noteq> SF_RNE \<and> rm \<noteq> SF_RMM
     then (if rm = (if s then SF_RDN else SF_RUP) then shl 1 R - 1 else 0) else shl 1 (R - 1))"

definition fin :: "Fmt \<Rightarrow> bool \<Rightarrow> u32 \<Rightarrow> int \<Rightarrow> u64 \<Rightarrow> u32 \<Rightarrow> u64 \<times> u32" where
  "fin f s rm ex sigp fl =
     (let R = (if width f = 32 then 7 else 10);
          roundMask = shl 1 R - 1;
          half = shl 1 (R - 1);
          roundInc = inc_word R rm s;
          roundBits = sigp AND roundMask;
          fl = (if roundBits \<noteq> 0 then fl OR SF_NX else fl);
          sg = shr (sigp + roundInc) R;
          sg = (if rm = SF_RNE \<and> roundBits = half then sg AND NOT 1 else sg);
          ex = (if sg = 0 then 0 else ex)
      in (shl (of_flag s) (width f - 1) + shl (word_of_int ex) (mantbits f) + sg, fl))"

subsection \<open>The codes of a format\<close>

lemma fval_grid:
  assumes "e = 0 \<or> 2 ^ mantbits f \<le> q" "q \<le> 2 ^ (mantbits f + 1)"
  shows "fval f (e * 2 ^ mantbits f + q) = real q * 2 powi (int e + 1 - bias f - int (mantbits f))"
proof -
  define D :: nat where "D = 2 ^ mantbits f"
  have D: "0 < D" "real D = 2 ^ mantbits f" by (simp_all add: D_def)
  consider "e = 0" "q < D" | F where "q = D + F" "F < D" | "q = 2 * D"
    using assms by (cases "q < D"; cases "q < 2 * D") (auto simp: D_def intro: that(2) [of "q - D"])
  then show ?thesis
  proof cases
    case 1
    then show ?thesis by (simp add: fval_def D_def)
  next
    case 2
    have "(e * D + (D + F)) div D = e + 1" "(e * D + (D + F)) mod D = F"
      using 2 D by (simp_all add: algebra_simps flip: mult_Suc)
    then show ?thesis using 2 unfolding fval_def Let_def D_def [symmetric] by (simp add: add.commute)
  next
    case 3
    have "(e * D + 2 * D) div D = e + 2" "(e * D + 2 * D) mod D = 0"
      using D by (simp_all add: add_mult_distrib [symmetric])
    moreover have "(2 :: real) powi (int e + 2 - bias f - int (mantbits f)) = 2 * 2 powi (int e + 1 - bias f - int (mantbits f))"
      using power_int_add_1 [of "2 :: real" "int e + 1 - bias f - int (mantbits f)"] by (simp add: algebra_simps)
    ultimately show ?thesis using 3 D unfolding fval_def Let_def D_def [symmetric] by (simp add: add.commute)
  qed
qed

lemma code_split: "\<exists>e q. n = e * 2 ^ m + q \<and> (e = 0 \<or> 2 ^ m \<le> q) \<and> q < (2 :: nat) ^ (m + 1)"
proof (cases "n < 2 ^ m")
  case True
  then show ?thesis by (intro exI [of _ 0] exI [of _ n]) simp
next
  case False
  then have "0 < n div 2 ^ m" by (simp add: div_greater_zero_iff)
  then obtain e where e: "n div 2 ^ m = Suc e" by (metis gr0_implies_Suc)
  have "n = n div 2 ^ m * 2 ^ m + n mod 2 ^ m" by (rule div_mult_mod_eq [symmetric])
  then have "n = e * 2 ^ m + (2 ^ m + n mod 2 ^ m)" unfolding e by simp
  then show ?thesis by (intro exI [of _ e] exI [of _ "2 ^ m + n mod 2 ^ m"]) simp
qed

lemma fval_Suc: "fval f n < fval f (Suc n)"
proof -
  obtain e q where n: "n = e * 2 ^ mantbits f + q" and q: "e = 0 \<or> 2 ^ mantbits f \<le> q" "q < 2 ^ (mantbits f + 1)"
    using code_split by blast
  have "fval f n = real q * 2 powi (int e + 1 - bias f - int (mantbits f))"
    unfolding n by (rule fval_grid) (use q in auto)
  moreover have "fval f (e * 2 ^ mantbits f + (q + 1)) = real (q + 1) * 2 powi (int e + 1 - bias f - int (mantbits f))"
    by (rule fval_grid) (use q in auto)
  moreover have "Suc n = e * 2 ^ mantbits f + (q + 1)" by (simp add: n)
  ultimately show ?thesis by (simp add: distrib_right)
qed

lemma fval_less_iff [simp]: "fval f a < fval f b \<longleftrightarrow> a < b"
  using strict_mono_less [of "fval f"] by (simp add: strict_mono_Suc_iff fval_Suc)

lemma fval_le_iff [simp]: "fval f a \<le> fval f b \<longleftrightarrow> a \<le> b"
  using fval_less_iff [of f b a] by (simp only: not_less [symmetric])

lemma fval_eq_iff [simp]: "fval f a = fval f b \<longleftrightarrow> a = b"
  unfolding order_eq_iff [of "fval f a"] order_eq_iff [of a] fval_le_iff ..

lemma rounds_unique:
  assumes "rounds f rm s x n" "rounds f rm s x n'"
  shows "n = n'"
proof -
  obtain k k' where k: "fval f k \<le> x" "x < fval f (k + 1)" "fval f k' \<le> x" "x < fval f (k' + 1)"
    and n: "n = k + of_bool (away rm s (x - fval f k) (fval f (k + 1) - x) (odd k))"
      "n' = k' + of_bool (away rm s (x - fval f k') (fval f (k' + 1) - x) (odd k'))"
    using assms unfolding rounds_def by blast
  have "k < k' + 1" "k' < k + 1" using le_less_trans [OF k(1,4)] le_less_trans [OF k(3,2)] by simp_all
  then have "k = k'" by simp
  then show ?thesis using n by simp
qed

lemma fval_zero [simp]: "fval f 0 = 0"
  by (simp add: fval_def)

lemma fval_lower: "real n * 2 powi (1 - bias f - int (mantbits f)) \<le> fval f n"
proof (induction n)
  case 0
  then show ?case by (simp add: fval_def)
next
  case (Suc n)
  obtain e q where n: "n = e * 2 ^ mantbits f + q" and q: "e = 0 \<or> 2 ^ mantbits f \<le> q" "q < 2 ^ (mantbits f + 1)"
    using code_split by blast
  define u :: real where "u = 2 powi (int e + 1 - bias f - int (mantbits f))"
  have "fval f n = real q * u" unfolding n u_def by (rule fval_grid) (use q in auto)
  moreover have "fval f (e * 2 ^ mantbits f + (q + 1)) = real (q + 1) * u"
    unfolding u_def by (rule fval_grid) (use q in auto)
  moreover have "Suc n = e * 2 ^ mantbits f + (q + 1)" by (simp add: n)
  moreover have "(2 :: real) powi (1 - bias f - int (mantbits f)) \<le> u" unfolding u_def by (rule power_int_increasing) simp_all
  ultimately show ?case using Suc by (simp add: distrib_right)
qed

text \<open>Every non-negative number rounds to exactly one code.\<close>

lemma rounds_ex1:
  assumes "0 \<le> x"
  shows "\<exists>!n. rounds f rm s x n"
proof -
  define u :: real where "u = 2 powi (1 - bias f - int (mantbits f))"
  have u: "0 < u" by (simp add: u_def)
  obtain N :: nat where "x / u < real N" using reals_Archimedean2 by blast
  then have "x < real N * u" using u by (simp add: pos_divide_less_eq)
  then have N: "x < fval f N" using fval_lower [of N f] by (simp add: u_def)
  define m where "m = (LEAST n. x < fval f n)"
  have m: "x < fval f m" unfolding m_def using N by (rule LeastI)
  have "m \<noteq> 0" using m assms by (intro notI) simp
  then obtain k where k: "m = k + 1" by (metis Suc_eq_plus1 not0_implies_Suc)
  then have "fval f k \<le> x" using not_less_Least [of k "\<lambda>n. x < fval f n"] by (simp add: m_def not_less)
  then have "\<exists>n. rounds f rm s x n" using m k unfolding rounds_def by blast
  then show ?thesis using rounds_unique by blast
qed

lemma rounds_above:
  assumes "rounds f rm s x n" "fval f c \<le> x"
  shows "c \<le> n"
proof -
  obtain k where k: "x < fval f (k + 1)" "k \<le> n" using assms(1) by (auto simp: rounds_def)
  then show ?thesis using le_less_trans [OF assms(2) k(1)] by simp
qed

subsection \<open>Sticky approximations\<close>

lemma even_pow_mult: "0 < g \<Longrightarrow> even (j * 2 ^ g)" for j :: nat
  by (cases g) auto

lemma jam_sticky:
  assumes "0 < g" "real q \<le> y" "y < real q + 1" "s = (if y = real q \<or> odd q then q else q + 1)"
  shows "jam g y s"
proof -
  have "(real t \<le> y \<longleftrightarrow> t \<le> s) \<and> (y \<le> real t \<longleftrightarrow> s \<le> t)" if "even t" for t
  proof -
    have "real t \<le> y \<longleftrightarrow> t \<le> q" using assms(2,3) by linarith
    moreover have "y \<le> real t \<longleftrightarrow> (if y = real q then q \<le> t else q + 1 \<le> t)" using assms(2,3) by auto
    moreover have "t \<le> q + 1 \<longleftrightarrow> t \<le> q" if "even q" using that \<open>even t\<close> by (auto simp: le_Suc_eq)
    moreover have "q \<le> t \<longleftrightarrow> q + 1 \<le> t" if "odd q" using that \<open>even t\<close> by (auto simp: Suc_le_eq order_le_less)
    ultimately show ?thesis using assms(4) by auto
  qed
  then show ?thesis using even_pow_mult [OF assms(1)] unfolding jam_def by blast
qed

lemma jam_exact: "jam g (real s) s"
  unfolding jam_def of_nat_le_iff by simp

lemma jam_left:
  assumes "0 < k" "k \<le> g" "real q \<le> y" "y < real q + 1"
  shows "jam g (y * 2 ^ k) (q * 2 ^ k + (if y = real q then 0 else 1))"
proof -
  have "(real (j * 2 ^ g) \<le> y * 2 ^ k \<longleftrightarrow> j * 2 ^ g \<le> q * 2 ^ k + (if y = real q then 0 else 1)) \<and>
    (y * 2 ^ k \<le> real (j * 2 ^ g) \<longleftrightarrow> q * 2 ^ k + (if y = real q then 0 else 1) \<le> j * 2 ^ g)" for j
  proof -
    define u where "u = j * 2 ^ (g - k)"
    have u: "j * 2 ^ g = u * 2 ^ k" using assms(2) by (simp add: u_def flip: power_add)
    have "real (u * 2 ^ k) \<le> y * 2 ^ k \<longleftrightarrow> real u \<le> y" "y * 2 ^ k \<le> real (u * 2 ^ k) \<longleftrightarrow> y \<le> real u" by simp_all
    moreover have "real u \<le> y \<longleftrightarrow> u \<le> q" using assms(3,4) by linarith
    moreover have "y \<le> real u \<longleftrightarrow> (if y = real q then q \<le> u else q + 1 \<le> u)" using assms(3,4) by auto
    moreover have "u * 2 ^ k \<le> q * 2 ^ k + 1 \<longleftrightarrow> u \<le> q"
    proof -
      have "u * 2 ^ k \<noteq> q * 2 ^ k + 1" using even_pow_mult [OF assms(1)] by (metis even_plus_one_iff)
      then show ?thesis by (auto simp: le_Suc_eq)
    qed
    moreover have "q * 2 ^ k + 1 \<le> u * 2 ^ k \<longleftrightarrow> q + 1 \<le> u" by (simp add: Suc_le_eq)
    ultimately show ?thesis unfolding u by auto
  qed
  then show ?thesis unfolding jam_def by blast
qed

lemma jam_shift:
  assumes "0 < g" "jam g y s"
  shows "jam g (y / 2 ^ d) (s div 2 ^ d + (if s mod 2 ^ d \<noteq> 0 \<and> even (s div 2 ^ d) then 1 else 0))"
proof -
  define D :: nat where "D = 2 ^ d"
  define v where "v = s div D + (if s mod D \<noteq> 0 \<and> even (s div D) then 1 else 0)"
  have D: "0 < D" "real D = 2 ^ d" by (simp_all add: D_def)
  have s: "real s = real (s div D) * real D + real (s mod D)"
    unfolding of_nat_mult [symmetric] of_nat_add [symmetric] by simp
  then have fl: "real s / real D = real (s div D) + real (s mod D) / real D"
    using D(1) by (simp add: field_simps)
  have "jam g (real s / real D) v"
    by (rule jam_sticky [OF assms(1), of "s div D"]) (use D(1) in \<open>auto simp: v_def fl\<close>)
  moreover have "real t \<le> y / real D \<longleftrightarrow> real t \<le> real s / real D" "y / real D \<le> real t \<longleftrightarrow> real s / real D \<le> real t"
    if "t = j * 2 ^ g" for t j
  proof -
    have "(real (j * D * 2 ^ g) \<le> y \<longleftrightarrow> j * D * 2 ^ g \<le> s) \<and> (y \<le> real (j * D * 2 ^ g) \<longleftrightarrow> s \<le> j * D * 2 ^ g)"
      using assms(2) unfolding jam_def by blast
    moreover have "j * D * 2 ^ g = t * D" by (simp add: that)
    ultimately have "real t * real D \<le> y \<longleftrightarrow> real t * real D \<le> real s" "y \<le> real t * real D \<longleftrightarrow> real s \<le> real t * real D"
      by (simp_all flip: of_nat_mult)
    then show "real t \<le> y / real D \<longleftrightarrow> real t \<le> real s / real D" "y / real D \<le> real t \<longleftrightarrow> real s / real D \<le> real t"
      using D(1) by (simp_all add: pos_le_divide_eq pos_divide_le_eq)
  qed
  ultimately have "jam g (y / real D) v" unfolding jam_def by blast
  then show ?thesis unfolding D(2) by (simp only: v_def D_def)
qed

subsection \<open>Rounding to an integer\<close>

lemma away_scale: "0 < c \<Longrightarrow> away rm s (a * c) (b * c) p = away rm s a b p"
  by (auto simp: away_def zero_less_mult_iff)

lemma jam_parts:
  assumes "jam (R - 1) y s" "0 < R"
  defines "Q \<equiv> s div 2 ^ R * 2 ^ R"
  shows "real Q \<le> y" "y < real (Q + 2 ^ R)" "s mod 2 ^ R = 0 \<longleftrightarrow> y = real Q"
    "2 ^ (R - 1) \<le> s mod 2 ^ R \<longleftrightarrow> real (Q + 2 ^ (R - 1)) \<le> y"
    "s mod 2 ^ R \<le> 2 ^ (R - 1) \<longleftrightarrow> y \<le> real (Q + 2 ^ (R - 1))"
proof -
  define h :: nat where "h = 2 ^ (R - 1)"
  have R: "(2 :: nat) ^ R = 2 * h" using assms(2) by (simp add: h_def flip: power_Suc)
  have s: "s = Q + s mod 2 ^ R" unfolding Q_def by (rule div_mult_mod_eq [symmetric])
  have J: "(real (j * h) \<le> y \<longleftrightarrow> j * h \<le> s) \<and> (y \<le> real (j * h) \<longleftrightarrow> s \<le> j * h)" for j
    using assms(1) unfolding jam_def h_def [symmetric] by blast
  have Q: "Q = (2 * (s div 2 ^ R)) * h" "Q + h = (2 * (s div 2 ^ R) + 1) * h" "Q + 2 * h = (2 * (s div 2 ^ R) + 2) * h"
    by (simp_all add: Q_def R algebra_simps)
  have m: "s mod 2 ^ R < 2 * h" using R by (metis h_def mod_less_divisor pos2 zero_less_power)
  note J0 = J [of "2 * (s div 2 ^ R)", folded Q(1)] and J1 = J [of "2 * (s div 2 ^ R) + 1", folded Q(2)]
    and J2 = J [of "2 * (s div 2 ^ R) + 2", folded Q(3)]
  show "real Q \<le> y" using J0 s by (metis le_add1)
  have "Q + 2 * h > s" using s m by linarith
  then show "y < real (Q + 2 ^ R)" using J2 unfolding R by (metis not_le)
  show "s mod 2 ^ R = 0 \<longleftrightarrow> y = real Q" using J0 s by (metis \<open>real Q \<le> y\<close> add.right_neutral add_le_same_cancel1 antisym le_zero_eq order_refl)
  show "2 ^ (R - 1) \<le> s mod 2 ^ R \<longleftrightarrow> real (Q + 2 ^ (R - 1)) \<le> y"
    using J1 s unfolding h_def [symmetric] by (metis add_le_cancel_left)
  show "s mod 2 ^ R \<le> 2 ^ (R - 1) \<longleftrightarrow> y \<le> real (Q + 2 ^ (R - 1))"
    using J1 s unfolding h_def [symmetric] by (metis add_le_cancel_left)
qed

lemma away_parts:
  assumes "jam (R - 1) y s" "0 < R"
  defines "q \<equiv> s div 2 ^ R" and "r \<equiv> s mod 2 ^ R" and "h \<equiv> 2 ^ (R - 1)"
  shows "away rm sn (y - real q * 2 ^ R) ((real q + 1) * 2 ^ R - y) (odd q) \<longleftrightarrow>
    (if rm = SF_RNE then h < r \<or> h = r \<and> odd q else if rm = SF_RMM then h \<le> r else rm = (if sn then SF_RDN else SF_RUP) \<and> r \<noteq> 0)"
proof -
  have R: "(2 :: nat) ^ R = 2 * h" using assms(2) by (simp add: h_def flip: power_Suc)
  have parts: "real (2 * h * q) \<le> y" "r = 0 \<longleftrightarrow> y = real (2 * h * q)" "h \<le> r \<longleftrightarrow> real (2 * h * q + h) \<le> y" "r \<le> h \<longleftrightarrow> y \<le> real (2 * h * q + h)"
    using jam_parts [OF assms(1,2), folded q_def r_def h_def] by (simp_all add: R mult.commute)
  have "(2 :: real) ^ R = 2 * real h" using R by (metis of_nat_mult of_nat_numeral of_nat_power)
  then have e: "real q * 2 ^ R = real (2 * h * q)" "(real q + 1) * 2 ^ R = real (2 * h * q) + 2 * real h"
    by (simp_all add: algebra_simps)
  show ?thesis using parts unfolding away_def e by auto
qed

lemma sg_of_away:
  assumes "jam (R - 1) y s" "0 < R"
  defines "q \<equiv> s div 2 ^ R"
  shows "sg_of rm sn R s = q + of_bool (away rm sn (y - real q * 2 ^ R) ((real q + 1) * 2 ^ R - y) (odd q))"
proof -
  define h :: nat where "h = 2 ^ (R - 1)"
  define r where "r = s mod 2 ^ R"
  have R: "(2 :: nat) ^ R = 2 * h" and h: "0 < h" using assms(2) by (simp_all add: h_def flip: power_Suc)
  have s: "s = 2 * h * q + r" "r < 2 * h" using h by (simp_all add: q_def r_def R)
  have dv: "(s + a) div 2 ^ R = q + (r + a) div (2 * h)" for a
    unfolding R using h by (simp add: s(1) add.assoc)
  have half: "(r + h) div (2 * h) = of_bool (h \<le> r)"
    using s(2) by (auto simp: div_if)
  have up: "(r + (2 * h - 1)) div (2 * h) = of_bool (r \<noteq> 0)"
    using s(2) h by (auto simp: div_if)
  show ?thesis
    unfolding away_parts [OF assms(1,2), folded q_def r_def h_def] sg_of_def Let_def inc_of_def dv r_def [symmetric] h_def [symmetric]
    using s(2) h half up by (cases "rm = SF_RNE"; cases "h < r \<or> h = r") (auto simp: R)
qed

lemma powi_split: "(2 :: real) powi a = 2 ^ n * 2 powi (a - int n)"
  by (simp add: power_int_diff)

lemma rounds_grid:
  fixes f :: Fmt and e R :: nat
  defines "m \<equiv> mantbits f"
  assumes jam: "jam (R - 1) y s" and R: "0 < R" and m: "0 < m"
    and q: "e = 0 \<or> 2 ^ m \<le> s div 2 ^ R" "s div 2 ^ R < 2 ^ (m + 1)"
    and x: "x = y * 2 powi (int e + 1 - bias f - int m - int R)"
  shows "rounds f rm sn x (e * 2 ^ m + sg_of rm sn R s)"
    and "x = fval f (e * 2 ^ m + sg_of rm sn R s) \<longleftrightarrow> s mod 2 ^ R = 0"
proof -
  define q where "q = s div 2 ^ R"
  define k where "k = e * 2 ^ m + q"
  define c :: real where "c = 2 powi (int e + 1 - bias f - int m - int R)"
  have c: "0 < c" by (simp add: c_def)
  have cR: "2 powi (int e + 1 - bias f - int m) = 2 ^ R * c"
    unfolding c_def by (rule powi_split)
  have v: "fval f k = real q * (2 ^ R * c)" "fval f (k + 1) = (real q + 1) * (2 ^ R * c)"
  proof -
    show "fval f k = real q * (2 ^ R * c)"
      using fval_grid [of e f q] q by (simp add: k_def q_def m_def [symmetric] cR)
    show "fval f (k + 1) = (real q + 1) * (2 ^ R * c)"
      using fval_grid [of e f "q + 1"] q by (simp add: k_def q_def m_def [symmetric] cR) (auto simp: add.commute)
  qed
  have p: "real q * 2 ^ R \<le> y" "y < (real q + 1) * 2 ^ R" "s mod 2 ^ R = 0 \<longleftrightarrow> y = real q * 2 ^ R"
    using jam_parts(1,2,3) [OF jam R] by (simp_all add: q_def distrib_right)
  have b: "fval f k \<le> x" "x < fval f (k + 1)" "x = fval f k \<longleftrightarrow> s mod 2 ^ R = 0"
    unfolding v x c_def [symmetric] p(3) using p(1,2) c by (simp_all flip: mult.assoc)
  have d: "x - fval f k = (y - real q * 2 ^ R) * c" "fval f (k + 1) - x = ((real q + 1) * 2 ^ R - y) * c"
    unfolding v x c_def [symmetric] by (simp_all add: algebra_simps)
  have o: "odd k \<longleftrightarrow> odd q" using m by (simp add: k_def)
  have "sg_of rm sn R s = q + of_bool (away rm sn (x - fval f k) (fval f (k + 1) - x) (odd k))"
    unfolding d away_scale [OF c] o by (rule sg_of_away [OF jam R, folded q_def])
  then have n: "e * 2 ^ m + sg_of rm sn R s = k + of_bool (away rm sn (x - fval f k) (fval f (k + 1) - x) (odd k))"
    by (simp only: add.assoc [symmetric] k_def [symmetric])
  then show "rounds f rm sn x (e * 2 ^ m + sg_of rm sn R s)"
    using b(1,2) unfolding rounds_def by blast
  have "\<not> away rm sn (x - fval f k) (fval f (k + 1) - x) (odd k)" if "x = fval f k"
    using that b(2) by (auto simp: away_def)
  then show "x = fval f (e * 2 ^ m + sg_of rm sn R s) \<longleftrightarrow> s mod 2 ^ R = 0"
    unfolding n b(3) [symmetric] using b(2) by (cases "away rm sn (x - fval f k) (fval f (k + 1) - x) (odd k)") auto
qed

lemma sg_of_bounds:
  assumes "0 < R"
  shows "s div 2 ^ R \<le> sg_of rm sn R s" "sg_of rm sn R s \<le> s div 2 ^ R + 1"
  using sg_of_away [OF jam_exact [of "R - 1" s] assms, of rm sn] by auto

lemma sg_of_reach:
  assumes "0 < R" "s < N * 2 ^ R" "even N"
  shows "N \<le> sg_of rm sn R s \<longleftrightarrow> N * 2 ^ R \<le> s + inc_of rm sn R"
proof -
  have "(s + inc_of rm sn R) div 2 ^ R \<ge> N \<longleftrightarrow> N * 2 ^ R \<le> s + inc_of rm sn R"
    by (simp add: less_eq_div_iff_mult_less_eq)
  moreover have "N \<le> 2 * (a div 2) \<longleftrightarrow> N \<le> a" for a :: nat
    using assms(3) by (auto elim!: evenE)
  ultimately show ?thesis by (auto simp: sg_of_def Let_def)
qed

lemma roundpack_fin:
  "roundpack f s ex sigp rm =
     (let R = (if width f = 32 then 7 else 10);
          roundMask = shl 1 R - 1;
          roundInc = inc_word R rm s;
          infExp = uint (shl 1 (expbits f) - 1 :: u64);
          overflowBit = (if width f = 32 then 0x80000000 else 0x8000000000000000)
      in if (word_of_int ex :: u32) \<ge> word_of_int (infExp - 2) then
           (if ex < 0 then
              (let sigp' = srjam64 sigp (- ex)
               in fin f s rm 0 sigp'
                 (if (ex < - 1 \<or> sigp + roundInc < overflowBit) \<and> sigp' AND roundMask \<noteq> 0 then SF_UF else 0))
            else if ex > infExp - 2 \<or> sigp + roundInc \<ge> overflowBit then
              (if roundInc \<noteq> 0 then make_inf f s else make_inf f s - 1, SF_OF OR SF_NX)
            else fin f s rm ex sigp 0)
         else fin f s rm ex sigp 0)"
  by (simp add: roundpack_def fin_def inc_word_def Let_def)

lemma unat_bit: "k < 64 \<Longrightarrow> unat (shl 1 k :: u64) = 2 ^ k"
  using or_low_bit [of 0 k] by simp

lemma unat_mask: "k < 64 \<Longrightarrow> unat (shl 1 k - 1 :: u64) = 2 ^ k - 1"
  using unat_minus_one [of "shl 1 k :: u64"] unat_bit [of k] by (auto simp: word_eq_unat)

lemma and_not_one: "unat (x AND NOT 1) = 2 * (unat x div 2)" for x :: u64
proof -
  have "unat x = unat (x AND NOT 1) + unat (x AND 1)" 
  proof -
    have "x = (x AND NOT 1) OR (x AND 1)" by (rule bit_word_eqI) (auto simp: bits bit_1_iff)
    moreover have "(x AND NOT 1) AND (x AND 1) = 0" by (rule bit_word_eqI) (auto simp: bits bit_1_iff)
    ultimately show ?thesis using unat_or_disjoint [of "x AND NOT 1" "x AND 1"] by simp
  qed
  moreover have "unat (x AND 1) = unat x mod 2" using unat_low_mask [of 1 x] by (simp add: shl_def)
  ultimately show ?thesis using div_mult_mod_eq [of "unat x" 2] by linarith
qed

lemma overflow_iff:
  fixes e M eb g :: nat
  assumes "2 \<le> eb" "0 < M" "M \<le> g" "g \<le> 2 * M" "2 * M \<le> g \<longleftrightarrow> P"
  shows "(2 ^ eb - 1 - 2 < int e \<or> 2 ^ eb - 1 - 2 \<le> int e \<and> P) \<longleftrightarrow> (2 ^ eb - 1) * M \<le> e * M + g"
proof -
  have "(2 :: nat) ^ 2 \<le> 2 ^ eb" using assms(1) by (intro power_increasing) simp_all
  then have "3 \<le> (2 :: nat) ^ eb" by simp
  then obtain k :: nat where k: "(2 :: nat) ^ eb = 3 + k" by (metis le_Suc_ex)
  have "(2 :: int) ^ eb = int ((2 :: nat) ^ eb)" by simp
  then have k': "(2 :: int) ^ eb = 3 + int k" unfolding k by simp
  have "(k < e \<or> k \<le> e \<and> P) \<longleftrightarrow> (k + 2) * M \<le> e * M + g"
  proof (cases k e rule: linorder_cases)
    case less
    then have "(k + 1) * M \<le> e * M" by (intro mult_le_mono1) simp
    then show ?thesis using less assms(3) by (simp add: algebra_simps)
  next
    case equal
    then show ?thesis using assms(5) by (simp add: distrib_right mult_2)
  next
    case greater
    then have "(e + 1) * M \<le> k * M" by (intro mult_le_mono1) simp
    then have "e * M + g < (k + 2) * M" using assms(2,4) by (simp add: algebra_simps)
    then show ?thesis using greater by simp
  qed
  then show ?thesis unfolding k k' by simp
qed

lemma lo_val: "val128 a < 2 ^ 64 \<Longrightarrow> unat (lo a) = val128 a"
  using val128_split(2) [of a] by (simp add: mod_less del: power_numeral)

lemma floor_div:
  assumes "real v \<le> X" "X < real v + 1" "0 < D"
  shows "real (v div D) \<le> X / real D" "X / real D < real (v div D) + 1"
    "X / real D = real (v div D) \<longleftrightarrow> v mod D = 0 \<and> X = real v"
proof -
  have v: "real v = real (v div D) * real D + real (v mod D)"
    unfolding of_nat_mult [symmetric] of_nat_add [symmetric] by simp
  have "real (v mod D) + 1 \<le> real D" using mod_less_divisor [OF assms(3), of v] by linarith
  then show "real (v div D) \<le> X / real D" "X / real D < real (v div D) + 1"
    using v assms by (simp_all add: pos_le_divide_eq pos_divide_less_eq distrib_right)
  show "X / real D = real (v div D) \<longleftrightarrow> v mod D = 0 \<and> X = real v"
    using v assms by (auto simp: divide_eq_eq)
qed

lemma odd_keeps:
  fixes n a b :: nat
  assumes "a \<le> n" "n < b" "even b"
  shows "a \<le> n + (if even n then 1 else 0)" "n + (if even n then 1 else 0) < b"
  using assms by (auto simp: Suc_less_eq) (metis Suc_lessI even_Suc)

lemma sticky_left:
  fixes p :: u64
  assumes "unat p = v * 2 ^ k" "real v \<le> X" "X < real v + 1" "0 < g"
    and st: "st \<longleftrightarrow> X \<noteq> real v" "st \<Longrightarrow> k \<le> g"
  shows "jam g (X * 2 ^ k) (unat (if st then p OR 1 else p))"
proof (cases st)
  case False
  then show ?thesis using st assms(1) jam_exact [of g "v * 2 ^ k"] by simp
next
  case True
  show ?thesis
  proof (cases "k = 0")
    case True
    then show ?thesis
      using jam_sticky [OF assms(4,2,3) refl] \<open>st\<close> st assms(1) by (auto simp: or_one_val)
  next
    case False
    then have "even (unat p)" using assms(1) by simp
    then show ?thesis
      using jam_left [of k g v X] assms False True by (simp add: or_one_val)
  qed
qed

lemma scale_left:
  assumes v: "2 ^ mb \<le> val128 mant" "val128 mant < 2 ^ (mb + 1)" and L: "L = mb + k" "L \<le> 62"
    and X: "real (val128 mant) \<le> X" "X < real (val128 mant) + 1"
    and st: "st \<longleftrightarrow> X \<noteq> real (val128 mant)" "st \<Longrightarrow> k \<le> g" and g: "0 < g"
  defines "p \<equiv> (if st then lo (shl128 mant (int k)) OR 1 else lo (shl128 mant (int k)))"
  shows "jam g (X * 2 ^ k) (unat p)" "2 ^ L \<le> unat p" "unat p < 2 ^ (L + 1)"
proof -
  have L63: "(2 :: nat) ^ (L + 1) \<le> 2 ^ 63" using L(2) by (intro power_increasing) simp_all
  have "val128 mant * 2 ^ k < 2 ^ (mb + 1) * 2 ^ k" using v(2) by simp
  then have lt: "val128 mant * 2 ^ k < 2 ^ (L + 1)" by (simp add: L power_add mult_ac)
  have ge: "2 ^ L \<le> val128 mant * 2 ^ k" using v(1) by (simp add: L power_add)
  have "val128 (shl128 mant (int k)) = val128 mant * 2 ^ k"
    using shl128_exact [of "int k" mant] lt L63 L by simp
  then have q: "unat (lo (shl128 mant (int k))) = val128 mant * 2 ^ k" using lt L63 by (simp add: lo_val)
  show "jam g (X * 2 ^ k) (unat p)"
    unfolding p_def by (rule sticky_left [OF q X g st])
  show "2 ^ L \<le> unat p" "unat p < 2 ^ (L + 1)"
    unfolding p_def using odd_keeps [OF ge lt] ge lt by (simp_all add: or_one_val q)
qed

lemma scale_right:
  assumes v: "2 ^ mb \<le> val128 mant" "val128 mant < 2 ^ (mb + 1)" and L: "mb = L + k" "0 < k" "L \<le> 62"
    and X: "real (val128 mant) \<le> X" "X < real (val128 mant) + 1"
    and st: "st \<longleftrightarrow> X \<noteq> real (val128 mant)" and g: "0 < g"
    and r: "shr128_jam mant (int k) = (r, lost)"
  defines "p \<equiv> (if lost \<or> st then lo r OR 1 else lo r)"
  shows "jam g (X / 2 ^ k) (unat p)" "2 ^ L \<le> unat p" "unat p < 2 ^ (L + 1)"
proof -
  have L63: "(2 :: nat) ^ (L + 1) \<le> 2 ^ 63" using L(3) by (intro power_increasing) simp_all
  have q: "val128 r = val128 mant div 2 ^ k" "lost \<longleftrightarrow> val128 mant mod 2 ^ k \<noteq> 0"
    using shr128_jam_val [OF _ r] L(2) by simp_all
  have ge: "2 ^ L \<le> val128 r" using v(1) by (simp add: q less_eq_div_iff_mult_less_eq L(1) power_add)
  have lt: "val128 r < 2 ^ (L + 1)" using v(2) by (simp add: q less_mult_imp_div_less L(1) power_add mult_ac)
  have p: "unat (lo r) = val128 r" using lt L63 by (simp add: lo_val)
  note fl = floor_div [OF X, of "2 ^ k"]
  have "jam g (X / real (2 ^ k)) (unat p)"
    unfolding p_def using fl st q g by (intro jam_sticky [of _ "val128 r"]) (auto simp: or_one_val p)
  then show "jam g (X / 2 ^ k) (unat p)" by simp
  show "2 ^ L \<le> unat p" "unat p < 2 ^ (L + 1)"
    unfolding p_def using odd_keeps [OF ge lt] ge lt by (simp_all add: or_one_val p)
qed

locale ieee_format =
  fixes f :: Fmt and R :: nat
  assumes R: "R = (if width f = 32 then 7 else 10)"
    and lead: "mantbits f + R = (if width f = 32 then 30 else 62)"
    and width: "width f = 1 + mantbits f + expbits f"
    and m_pos: "0 < mantbits f"
    and ebits: "2 \<le> expbits f" "expbits f \<le> 11"
    and bias_bound: "0 \<le> bias f" "bias f < 2 ^ 16"
begin

lemma bounds: "0 < R" "1 < R" "R < 64" "mantbits f + R \<le> 62" "width f \<le> 64" "0 < width f"
  using R lead width ebits by (auto split: if_splits)

lemma inf_code_less: "inf_code f < 2 ^ (width f - 1)"
proof -
  have "(2 ^ expbits f - 1) * 2 ^ mantbits f < 2 ^ expbits f * (2 :: nat) ^ mantbits f" by simp
  then show ?thesis by (simp add: inf_code_def width power_add mult.commute)
qed

lemma unat_overflow: "unat (if width f = 32 then 0x80000000 else 0x8000000000000000 :: u64) = 2 ^ (mantbits f + R + 1)"
  using lead by (auto split: if_splits)

lemma inc_word_val: "unat (inc_word R rm s) = inc_of rm s R"
  using bounds unat_mask [of R] unat_bit [of "R - 1"] by (simp add: inc_word_def inc_of_def)

lemma inc_less: "inc_of rm s R < 2 ^ R"
  by (simp add: inc_of_def bounds)

lemma sum_val:
  assumes "unat sigp < 2 ^ (mantbits f + R + 1)"
  shows "unat (sigp + inc_word R rm s) = unat sigp + inc_of rm s R"
proof -
  have "(2 :: nat) ^ (mantbits f + R + 1) \<le> 2 ^ 63" "(2 :: nat) ^ R < 2 ^ 63"
    using bounds by (intro power_increasing power_strict_increasing; simp)+
  then have "unat sigp + inc_of rm s R < 2 ^ 64" using assms inc_less [of rm s] by simp
  then show ?thesis by (simp add: unat_word_ariths inc_word_val)
qed

lemma fin_val:
  assumes "unat sigp < 2 ^ (mantbits f + R + 1)" "n = e * 2 ^ mantbits f + sg_of rm s R (unat sigp)" "n < inf_code f"
    and "sg_of rm s R (unat sigp) = 0 \<Longrightarrow> e = 0"
  shows "unat (fst (fin f s rm (int e) sigp fl)) = sign_code f s + n"
    and "snd (fin f s rm (int e) sigp fl) = (if unat sigp mod 2 ^ R \<noteq> 0 then fl OR SF_NX else fl)"
proof -
  define rb where "rb = sigp AND (shl 1 R - 1)"
  define sg where "sg = (if rm = SF_RNE \<and> rb = shl 1 (R - 1) then shr (sigp + inc_word R rm s) R AND NOT 1 else shr (sigp + inc_word R rm s) R)"
  have rb: "unat rb = unat sigp mod 2 ^ R" "rb \<noteq> 0 \<longleftrightarrow> unat sigp mod 2 ^ R \<noteq> 0"
    using bounds unat_low_mask [of R sigp] low_mask_zero [of R sigp] by (simp_all add: rb_def)
  have hb: "rb = shl 1 (R - 1) \<longleftrightarrow> unat sigp mod 2 ^ R = 2 ^ (R - 1)"
    using bounds unat_bit [of "R - 1"] by (simp add: word_eq_unat rb)
  have sg: "unat sg = sg_of rm s R (unat sigp)"
    unfolding sg_def sg_of_def Let_def hb if_distrib [of unat] and_not_one unat_shr sum_val [OF assms(1)] ..
  have ex: "(if sg = 0 then 0 else int e) = int e" using assms(4) sg by auto
  have w: "fin f s rm (int e) sigp fl =
    (shl (of_flag s) (width f - 1) + shl (word_of_int (int e)) (mantbits f) + sg, if rb \<noteq> 0 then fl OR SF_NX else fl)"
    unfolding fin_def Let_def R [symmetric] rb_def [symmetric] sg_def [symmetric] ex ..
  show "snd (fin f s rm (int e) sigp fl) = (if unat sigp mod 2 ^ R \<noteq> 0 then fl OR SF_NX else fl)"
    by (simp add: w rb)
  define E where "E = e * 2 ^ mantbits f"
  have n: "n < 2 ^ (width f - 1)" "n = E + unat sg"
    using assms(2,3) inf_code_less sg by (simp_all add: E_def)
  have W: "(2 :: nat) ^ (width f - 1) \<le> 2 ^ 63"
    using bounds by (intro power_increasing) simp_all
  have "unat (shl (of_flag s :: u64) (width f - 1)) = sign_code f s"
    using unat_bit [of "width f - 1"] bounds by (cases s) (simp_all add: of_flag_def sign_code_def unat_shl)
  moreover have "unat (shl (word_of_int (int e) :: u64) (mantbits f)) = E"
  proof -
    have "e \<le> E" by (simp add: E_def)
    then have "e < 2 ^ 64" "E < 2 ^ 64" using n W by simp_all
    then show ?thesis by (simp add: unat_shl unat_of_nat E_def)
  qed
  moreover have "sign_code f s \<le> 2 ^ 63" using W by (simp add: sign_code_def)
  ultimately show "unat (fst (fin f s rm (int e) sigp fl)) = sign_code f s + n"
    using n W by (simp add: w unat_word_ariths)
qed

lemma denormal_round:
  assumes "v < 2 ^ (mantbits f + R + 1)" "jam (R - 1) y v" "0 < d"
  defines "v' \<equiv> v div 2 ^ d + (if v mod 2 ^ d \<noteq> 0 \<and> even (v div 2 ^ d) then 1 else 0)"
  defines "x \<equiv> y / 2 ^ d * 2 powi (1 - bias f - int (mantbits f) - int R)"
  shows "v' < 2 ^ (mantbits f + R)" "rounds f rm s x (sg_of rm s R v')" "x = fval f (sg_of rm s R v') \<longleftrightarrow> v' mod 2 ^ R = 0"
    "sg_of rm s R v' \<le> 2 ^ mantbits f"
proof -
  define N :: nat where "N = 2 ^ (mantbits f + R)"
  have N: "even N" using bounds by (simp add: N_def)
  have "v div 2 ^ d \<le> v div 2 ^ 1" using assms(3) by (intro div_le_mono2 power_increasing) simp_all
  also have "\<dots> < N" using assms(1) by (simp add: N_def)
  finally show v: "v' < 2 ^ (mantbits f + R)"
    unfolding N_def [symmetric] v'_def using N by (auto simp: Suc_less_eq) (metis Suc_lessI even_Suc)
  have "v' < 2 ^ mantbits f * 2 ^ R" using v by (simp add: power_add)
  then have q: "v' div 2 ^ R < 2 ^ mantbits f" by (simp add: less_mult_imp_div_less)
  have "jam (R - 1) (y / 2 ^ d) v'" unfolding v'_def using jam_shift [OF _ assms(2)] bounds(2) by simp
  note g = rounds_grid [OF this bounds(1) m_pos, of 0 x rm s]
  show "rounds f rm s x (sg_of rm s R v')" "x = fval f (sg_of rm s R v') \<longleftrightarrow> v' mod 2 ^ R = 0"
    using g q by (simp_all add: x_def)
  show "sg_of rm s R v' \<le> 2 ^ mantbits f" using sg_of_bounds(2) [OF bounds(1), of rm s v'] q by linarith
qed

lemma exponent_guard:
  assumes "- (2 ^ 30) < ex" "ex < 2 ^ 30"
  defines "I \<equiv> uint (shl 1 (expbits f) - 1 :: u64)"
  shows "I = 2 ^ expbits f - 1" "(word_of_int ex :: u32) \<ge> word_of_int (I - 2) \<longleftrightarrow> ex < 0 \<or> I - 2 \<le> ex"
proof -
  have "(2 :: int) ^ 2 \<le> 2 ^ expbits f" "(2 :: int) ^ expbits f \<le> 2 ^ 11"
    using ebits by (intro power_increasing; simp)+
  moreover have "unat (shl 1 (expbits f) - 1 :: u64) = 2 ^ expbits f - 1" using unat_mask ebits by simp
  then show I: "I = 2 ^ expbits f - 1" unfolding I_def uint_nat by (simp add: of_nat_diff)
  ultimately have b: "3 \<le> I" "I \<le> 2 ^ 11" by simp_all
  have u: "uint (word_of_int z :: u32) = z mod 2 ^ 32" for z by (simp add: uint_word_of_int)
  have "ex mod 2 ^ 32 = (if ex < 0 then ex + 2 ^ 32 else ex)"
  proof (cases "ex < 0")
    case True
    have "ex mod 2 ^ 32 = (ex + 2 ^ 32) mod 2 ^ 32" by (simp only: mod_add_self2)
    also have "\<dots> = ex + 2 ^ 32" using assms(1) True by (intro mod_pos_pos_trivial) simp_all
    finally show ?thesis using True by simp
  next
    case False
    then show ?thesis using assms(2) by (simp add: mod_pos_pos_trivial)
  qed
  moreover have "(I - 2) mod 2 ^ 32 = I - 2" using b by (intro mod_pos_pos_trivial) simp_all
  ultimately show "(word_of_int ex :: u32) \<ge> word_of_int (I - 2) \<longleftrightarrow> ex < 0 \<or> I - 2 \<le> ex"
    unfolding word_le_def u using b assms(1,2) by auto
qed

lemma normal_round:
  assumes "2 ^ (mantbits f + R) \<le> v" "v < 2 ^ (mantbits f + R + 1)" "jam (R - 1) y v"
    and x: "x = y * 2 powi (int e + 1 - bias f - int (mantbits f) - int R)"
  shows "rounds f rm s x (e * 2 ^ mantbits f + sg_of rm s R v)"
    and "x = fval f (e * 2 ^ mantbits f + sg_of rm s R v) \<longleftrightarrow> v mod 2 ^ R = 0"
    and "2 ^ mantbits f \<le> sg_of rm s R v" "sg_of rm s R v \<le> 2 * 2 ^ mantbits f"
    and "2 * 2 ^ mantbits f \<le> sg_of rm s R v \<longleftrightarrow> 2 ^ (mantbits f + R + 1) \<le> v + inc_of rm s R"
proof -
  have v: "2 ^ mantbits f * 2 ^ R \<le> v" "v < 2 * 2 ^ mantbits f * 2 ^ R" using assms(1,2) by (simp_all add: power_add)
  then have q: "2 ^ mantbits f \<le> v div 2 ^ R" "v div 2 ^ R < 2 * 2 ^ mantbits f"
    by (simp_all add: less_eq_div_iff_mult_less_eq less_mult_imp_div_less)
  show "rounds f rm s x (e * 2 ^ mantbits f + sg_of rm s R v)"
    "x = fval f (e * 2 ^ mantbits f + sg_of rm s R v) \<longleftrightarrow> v mod 2 ^ R = 0"
    using rounds_grid [OF assms(3) bounds(1) m_pos _ _ x, of rm s] q by simp_all
  show "2 ^ mantbits f \<le> sg_of rm s R v" "sg_of rm s R v \<le> 2 * 2 ^ mantbits f"
    using sg_of_bounds [OF bounds(1), where s = v and rm = rm and sn = s] q by linarith+
  show "2 * 2 ^ mantbits f \<le> sg_of rm s R v \<longleftrightarrow> 2 ^ (mantbits f + R + 1) \<le> v + inc_of rm s R"
    using sg_of_reach [OF bounds(1) v(2), of rm s] by (simp add: power_add mult.commute mult.left_commute)
qed

lemma normal_not_tiny:
  assumes "2 ^ (mantbits f + R) \<le> v" "v < 2 ^ (mantbits f + R + 1)" "jam (R - 1) y v"
    and x: "x = y * 2 powi (int e + 1 - bias f - int (mantbits f) - int R)"
    and "rounds f rm s (2 * x) t"
  shows "2 * 2 ^ mantbits f \<le> t"
proof -
  have "2 * x = y * 2 powi (int (e + 1) + 1 - bias f - int (mantbits f) - int R)"
    unfolding x using power_int_add_1 [of "2 :: real" "int e + 1 - bias f - int (mantbits f) - int R"] by (simp add: algebra_simps)
  note n = normal_round [OF assms(1-3) this, of rm s]
  show ?thesis using rounds_unique [OF n(1) assms(5)] n(3) by auto
qed

lemma tiny_iff:
  assumes "2 ^ (mantbits f + R) \<le> v" "v < 2 ^ (mantbits f + R + 1)" "jam (R - 1) y v" "0 < d"
    and x: "x = y / 2 ^ d * 2 powi (1 - bias f - int (mantbits f) - int R)"
  shows "(\<exists>t. rounds f rm s (2 * x) t \<and> t < 2 * 2 ^ mantbits f) \<longleftrightarrow> 1 < d \<or> v + inc_of rm s R < 2 ^ (mantbits f + R + 1)"
proof -
  obtain d' where d: "d = Suc d'" using assms(4) by (metis gr0_implies_Suc)
  then have x2: "2 * x = y / 2 ^ d' * 2 powi (1 - bias f - int (mantbits f) - int R)" by (simp add: x)
  have "\<exists>t. rounds f rm s (2 * x) t \<and> (t < 2 * 2 ^ mantbits f \<longleftrightarrow> 1 < d \<or> v + inc_of rm s R < 2 ^ (mantbits f + R + 1))"
  proof (cases "d' = 0")
    case True
    then have "2 * x = y * 2 powi (int 0 + 1 - bias f - int (mantbits f) - int R)" using x2 by simp
    note n = normal_round [OF assms(1-3) this, of rm s]
    show ?thesis using n(1,5) d True by (intro exI [of _ "sg_of rm s R v"]) (auto simp: not_le [symmetric])
  next
    case False
    note n = denormal_round(2,4) [OF assms(2,3), where d = d' and rm = rm and s = s, folded x2]
    obtain t where t: "rounds f rm s (2 * x) t" "t \<le> 2 ^ mantbits f" using n False by simp
    have "(2 :: nat) ^ mantbits f < 2 * 2 ^ mantbits f" by simp
    with t(2) have "t < 2 * 2 ^ mantbits f" by (rule le_less_trans)
    moreover have "1 < d" using d False by simp
    ultimately show ?thesis using t(1) by blast
  qed
  then show ?thesis using rounds_unique by blast
qed

lemma make_inf_val: "unat (make_inf f s) = sign_code f s + inf_code f"
proof -
  define M :: u64 where "M = shl 1 (expbits f) - 1"
  have M: "M = mask (expbits f)" by (simp add: M_def shl_def mask_eq_decr_exp)
  have "shl (of_flag s) (width f - 1) AND shl M (mantbits f) = 0"
    unfolding M by (rule bit_word_eqI) (auto simp: bits bit_mask_iff of_flag_def bit_1_iff width)
  then have "unat (make_inf f s) = unat (shl (of_flag s :: u64) (width f - 1)) + unat (shl M (mantbits f))"
    using unat_or_disjoint by (simp add: make_inf_def pack_raw_def M_def)
  moreover have "unat (shl (of_flag s :: u64) (width f - 1)) = sign_code f s"
    using unat_bit [of "width f - 1"] bounds by (cases s) (simp_all add: of_flag_def sign_code_def unat_shl)
  moreover have "unat (shl M (mantbits f)) = inf_code f"
  proof -
    have "(2 :: nat) ^ (width f - 1) \<le> 2 ^ 63" using bounds by (intro power_increasing) simp_all
    then have "inf_code f < 2 ^ 64" using inf_code_less by simp
    then show ?thesis using unat_mask [of "expbits f"] ebits by (simp add: unat_shl M_def inf_code_def)
  qed
  ultimately show ?thesis by simp
qed

lemma inf_code_large: "2 * 2 ^ mantbits f < inf_code f"
proof -
  have "(2 :: nat) ^ 2 \<le> 2 ^ expbits f" using ebits by (intro power_increasing) simp_all
  then have "3 * 2 ^ mantbits f \<le> inf_code f" unfolding inf_code_def by (intro mult_le_mono1) simp
  moreover have "0 < (2 :: nat) ^ mantbits f" by simp
  ultimately show ?thesis by linarith
qed

lemma overflow_val:
  "unat (if inc_word R rm s \<noteq> 0 then make_inf f s else make_inf f s - 1) =
    sign_code f s + inf_code f - (if rm = SF_RNE \<or> rm = SF_RMM \<or> rm = (if s then SF_RDN else SF_RUP) then 0 else 1)"
proof -
  have "inc_word R rm s \<noteq> 0 \<longleftrightarrow> inc_of rm s R \<noteq> 0" using inc_word_val [of rm s] by (auto simp: word_eq_unat)
  moreover have "inc_of rm s R \<noteq> 0 \<longleftrightarrow> rm = SF_RNE \<or> rm = SF_RMM \<or> rm = (if s then SF_RDN else SF_RUP)"
    using one_less_power [of "2 :: nat" R] bounds(1) by (auto simp: inc_of_def)
  moreover have "unat (make_inf f s - 1) = sign_code f s + inf_code f - 1"
    using unat_minus_one [of "make_inf f s"] inf_code_large make_inf_val by (auto simp: word_eq_unat)
  ultimately show ?thesis using make_inf_val by simp
qed

lemma roundpack_denormal:
  assumes v: "2 ^ (mantbits f + R) \<le> unat sigp" "unat sigp < 2 ^ (mantbits f + R + 1)"
    and ex: "- (2 ^ 30) < ex" "ex < 2 ^ 30"
    and jam: "jam (R - 1) y (unat sigp)"
    and x: "x = y * 2 powi (ex + 1 - bias f - int (mantbits f) - int R)"
    and True: "ex < 0"
  shows "rounded_result f rm s x (roundpack f s ex sigp rm)"
proof -
  define d where "d = nat (- ex)"
  have d: "0 < d" "ex = - int d" "1 < d \<longleftrightarrow> ex < - 1" using True by (simp_all add: d_def)
  define p where "p = srjam64 sigp (- ex)"
  have x': "x = y / 2 ^ d * 2 powi (1 - bias f - int (mantbits f) - int R)"
  proof -
    have "(2 :: real) powi (1 - bias f - int (mantbits f) - int R) = 2 ^ d * 2 powi (ex + 1 - bias f - int (mantbits f) - int R)"
      using powi_split [of "1 - bias f - int (mantbits f) - int R" d] d by (simp add: algebra_simps)
    then show ?thesis by (simp add: x)
  qed
  have p: "unat p = unat sigp div 2 ^ d + (if unat sigp mod 2 ^ d \<noteq> 0 \<and> even (unat sigp div 2 ^ d) then 1 else 0)"
    unfolding p_def d(2) minus_minus by (rule srjam64_val [OF d(1)])
  note n = denormal_round [OF v(2) jam d(1), folded p x']
  let ?n = "sg_of rm s R (unat p)"
  have lt: "?n < inf_code f" using n(4) [of rm s] inf_code_large by linarith
  let ?fl = "if (ex < - 1 \<or> sigp + inc_word R rm s < (if width f = 32 then 0x80000000 else 0x8000000000000000)) \<and> p AND (shl 1 R - 1) \<noteq> 0
    then SF_UF else 0"
  have rp: "roundpack f s ex sigp rm = fin f s rm (int 0) p ?fl"
    using True exponent_guard(2) [OF ex] by (simp add: roundpack_fin Let_def R [symmetric] p_def)
  have pl: "unat p < 2 ^ (mantbits f + R + 1)" using n(1) by simp
  note fin = fin_val [OF pl _ lt, where e = 0 and fl = ?fl and rm = rm and s = s]
  have tiny: "(\<exists>t. rounds f rm s (2 * x) t \<and> t < 2 * 2 ^ mantbits f) \<longleftrightarrow>
    ex < - 1 \<or> sigp + inc_word R rm s < (if width f = 32 then 0x80000000 else 0x8000000000000000)"
    unfolding tiny_iff [OF v jam d(1) x'] d(3) word_less_nat_alt unat_overflow sum_val [OF v(2)] ..
  have "unat (fst (roundpack f s ex sigp rm)) = sign_code f s + ?n"
    unfolding rp by (rule fin(1)) simp_all
  moreover have "snd (roundpack f s ex sigp rm) = (if x = fval f ?n then 0
    else if \<exists>t. rounds f rm s (2 * x) t \<and> t < 2 * 2 ^ mantbits f then SF_NX OR SF_UF else SF_NX)"
  proof -
    have "snd (roundpack f s ex sigp rm) = (if unat p mod 2 ^ R \<noteq> 0 then ?fl OR SF_NX else ?fl)"
      unfolding rp by (rule fin(2)) simp_all
    then show ?thesis
      unfolding tiny n(3) using low_mask_zero [of R p] bounds by (simp add: or.commute)
  qed
  ultimately show ?thesis
    unfolding rounded_result_def using n(2) [of rm s] lt by (intro exI [of _ ?n] conjI) (simp_all only: if_True)
qed

lemma roundpack_normal:
  assumes v: "2 ^ (mantbits f + R) \<le> unat sigp" "unat sigp < 2 ^ (mantbits f + R + 1)"
    and ex: "- (2 ^ 30) < ex" "ex < 2 ^ 30"
    and jam: "jam (R - 1) y (unat sigp)"
    and x: "x = y * 2 powi (ex + 1 - bias f - int (mantbits f) - int R)"
    and False: "\<not> ex < 0"
  shows "rounded_result f rm s x (roundpack f s ex sigp rm)"
proof -
  define e where "e = nat ex"
  have e: "ex = int e" using False by (simp add: e_def)
  note n = normal_round [OF v jam x [unfolded e]]
  let ?n = "e * 2 ^ mantbits f + sg_of rm s R (unat sigp)"
  have nt: "\<not> (\<exists>t. rounds f rm s (2 * x) t \<and> t < 2 * 2 ^ mantbits f)"
    using normal_not_tiny [OF v jam x [unfolded e]] by (auto simp: not_less)
  define I where "I = uint (shl 1 (expbits f) - 1 :: u64)"
  define Ov where "Ov \<longleftrightarrow> I - 2 < ex \<or> I - 2 \<le> ex \<and> 2 ^ (mantbits f + R + 1) \<le> unat sigp + inc_of rm s R"
  have I: "I = 2 ^ expbits f - 1" unfolding I_def by (rule exponent_guard(1) [OF ex])
  have Ov: "Ov \<longleftrightarrow> inf_code f \<le> ?n"
    unfolding Ov_def I e inf_code_def by (rule overflow_iff [OF ebits(1) _ n(3,4,5)]) simp
  have rp: "roundpack f s ex sigp rm =
    (if Ov then (if inc_word R rm s \<noteq> 0 then make_inf f s else make_inf f s - 1, SF_OF OR SF_NX) else fin f s rm (int e) sigp 0)"
    using False exponent_guard(2) [OF ex] unat_overflow sum_val [OF v(2), of rm s]
    by (auto simp: roundpack_fin Let_def R [symmetric] I_def [symmetric] Ov_def word_le_nat_alt e)
  show ?thesis
  proof (cases Ov)
    case ov: True
    then have "\<not> ?n < inf_code f" using Ov by simp
    then show ?thesis
      unfolding rounded_result_def using ov rp overflow_val [of rm s] n(1) [of rm s]
      by (intro exI [of _ ?n] conjI) (simp_all only: if_True if_False fst_conv snd_conv)
  next
    case nov: False
    then have lt: "?n < inf_code f" using Ov by simp
    have "0 < (2 :: nat) ^ mantbits f" by simp
    then have "sg_of rm s R (unat sigp) \<noteq> 0" using n(3) [of rm s] by linarith
    then have "unat (fst (roundpack f s ex sigp rm)) = sign_code f s + ?n"
      "snd (roundpack f s ex sigp rm) = (if x = fval f ?n then 0 else SF_NX)"
      using fin_val [OF v(2) refl lt, of 0] rp nov n(2) [of rm s] by simp_all
    then show ?thesis
      unfolding rounded_result_def using n(1) [of rm s] lt nt by (intro exI [of _ ?n] conjI) (simp_all only: if_True if_False)
  qed
qed

lemma roundpack_correct:
  assumes v: "2 ^ (mantbits f + R) \<le> unat sigp" "unat sigp < 2 ^ (mantbits f + R + 1)"
    and ex: "- (2 ^ 30) < ex" "ex < 2 ^ 30"
    and jam: "jam (R - 1) y (unat sigp)"
    and x: "x = y * 2 powi (ex + 1 - bias f - int (mantbits f) - int R)"
  shows "rounded_result f rm s x (roundpack f s ex sigp rm)"
  using roundpack_denormal [OF assms] roundpack_normal [OF assms] by blast

lemma round_mag_correct:
  assumes nz: "val128 mant \<noteq> 0" and X: "real (val128 mant) \<le> X" "X < real (val128 mant) + 1"
    and st: "st \<longleftrightarrow> X \<noteq> real (val128 mant)" "st \<Longrightarrow> int (mantbits f) + 1 \<le> msb128 mant"
    and e2: "- (2 ^ 29) < e2" "e2 < 2 ^ 29" and x: "x = X * 2 powi e2"
  shows "rounded_result f rm s x (round_mag f s mant e2 st rm)"
proof -
  define L where "L = mantbits f + R"
  define mb where "mb = nat (msb128 mant)"
  have mb: "msb128 mant = int mb" "mb \<le> 127" and v: "2 ^ mb \<le> val128 mant" "val128 mant < 2 ^ (mb + 1)"
    using msb128_val [OF nz] by (simp_all add: mb_def nat_le_iff)
  have L: "L \<le> 62" "(if width f = 32 then 30 else 62) = int L" using bounds lead by (auto simp: L_def split: if_splits)
  obtain y p where y: "round_mag f s mant e2 st rm = roundpack f s (e2 + int mb + bias f - 1) p rm"
    "jam (R - 1) y (unat p)" "2 ^ L \<le> unat p" "unat p < 2 ^ (L + 1)" "x = y * 2 powi (e2 + int mb - int L)"
  proof (cases "mb \<le> L")
    case True
    define k where "k = L - mb"
    have k: "int L - int mb = int k" "L = mb + k" using True by (simp_all add: k_def)
    have "round_mag f s mant e2 st rm =
      roundpack f s (e2 + int mb + bias f - 1) (if st then lo (shl128 mant (int k)) OR 1 else lo (shl128 mant (int k))) rm"
      using nz unfolding round_mag_def is0_128_val Let_def L(2) mb(1) k(1) by simp
    moreover have "st \<Longrightarrow> k \<le> R - 1" using st(2) mb(1) by (simp add: k_def L_def)
    moreover have "x = X * 2 ^ k * 2 powi (e2 + int mb - int L)"
      using powi_split [of e2 k] by (simp add: x k(2) algebra_simps)
    ultimately show thesis using that scale_left [OF v k(2) L(1) X st(1), of "R - 1"] bounds by simp
  next
    case False
    define k where "k = mb - L"
    have k: "- (int L - int mb) = int k" "mb = L + k" "0 < k" using False by (simp_all add: k_def)
    obtain r lost where r: "shr128_jam mant (int k) = (r, lost)" by fastforce
    have "round_mag f s mant e2 st rm = roundpack f s (e2 + int mb + bias f - 1) (if lost \<or> st then lo r OR 1 else lo r) rm"
      using nz False r unfolding round_mag_def is0_128_val Let_def L(2) mb(1) k(1) by simp
    moreover have "x = X / 2 ^ k * 2 powi (e2 + int mb - int L)"
      using powi_split [of "e2 + int k" k] by (simp add: x k(2))
    ultimately show thesis using that scale_right [OF v k(2,3) L(1) X st(1) _ r, of "R - 1"] bounds by simp
  qed
  show ?thesis
    unfolding y(1) using y e2 mb(2) bias_bound
    by (intro roundpack_correct [of _ _ y]) (simp_all add: L_def algebra_simps)
qed

end

interpretation b32: ieee_format F32 7
  by unfold_locales (simp_all add: F32_def)

interpretation b64: ieee_format F64 10
  by unfold_locales (simp_all add: F64_def)

end
