(* ===== verification/Softfloat_Props.thy ===== *)
theory Softfloat_Props
  imports Rounding
begin

text \<open>
  The operations of \<open>src/src/softfloat.c\<close> are correctly rounded. \<open>real_of\<close> is the real number a finite bit
  pattern stands for; each operation on finite operands returns the exact real result rounded once,
  in every rounding mode, with the IEEE flags (\<open>ieee_result\<close>), and the comparisons compare the real
  numbers. The lemmas are proved once in the locale \<open>ieee_format\<close> for any format, and the theorems at
  the end are their instances for binary32 and binary64.
\<close>

definition mag :: "Fmt \<Rightarrow> u64 \<Rightarrow> nat" where
  "mag f w = unat w mod 2 ^ (width f - 1)"

definition neg :: "Fmt \<Rightarrow> u64 \<Rightarrow> bool" where
  "neg f w \<longleftrightarrow> odd (unat w div 2 ^ (width f - 1))"

definition finite_code :: "Fmt \<Rightarrow> u64 \<Rightarrow> bool" where
  "finite_code f w \<longleftrightarrow> unat w < 2 ^ width f \<and> mag f w < inf_code f"

definition real_of :: "Fmt \<Rightarrow> u64 \<Rightarrow> real" where
  "real_of f w = (if neg f w then - fval f (mag f w) else fval f (mag f w))"

definition up_val :: "Up \<Rightarrow> real" where
  "up_val u = real (val128 (sig u)) * 2 powi exp2 u"

definition signed_val :: "bool \<Rightarrow> real \<Rightarrow> real" where
  "signed_val s x = (if s then - x else x)"

definition ieee_result :: "Fmt \<Rightarrow> u32 \<Rightarrow> real \<Rightarrow> bool \<Rightarrow> u64 \<times> u32 \<Rightarrow> bool" where
  "ieee_result f rm z s r \<longleftrightarrow>
     (if z = 0 then r = (make_zero f s, 0) else rounded_result f rm (z < 0) \<bar>z\<bar> r)"

definition order_of :: "real \<Rightarrow> real \<Rightarrow> int" where
  "order_of x y = (if x < y then - 1 else if x = y then 0 else 1)"

definition add_finish :: "Fmt \<Rightarrow> u32 \<Rightarrow> int \<Rightarrow> u256 \<Rightarrow> bool \<Rightarrow> bool \<Rightarrow> u64 \<times> u32" where
  "add_finish f rm wbot M s sticky =
     (if is0_256 M \<and> \<not> sticky then (make_zero f (rm = SF_RDN), 0)
      else
        (let mb = msb256 M;
             (mant, e2, sticky) =
               (if mb \<le> 127 then (mk128 (M ! 1) (M ! 0), wbot, sticky)
                else (let (red, lost) = shr256_jam M (mb - 127)
                      in (mk128 (red ! 1) (red ! 0), wbot + (mb - 127), if lost then True else sticky)))
         in round_mag f s mant e2 sticky rm))"

definition add_ordered :: "Fmt \<Rightarrow> u32 \<Rightarrow> bool \<Rightarrow> u128 \<Rightarrow> int \<Rightarrow> bool \<Rightarrow> u128 \<Rightarrow> int \<Rightarrow> u64 \<times> u32" where
  "add_ordered f rm sX sigX eX sY sigY eY =
     (let wbot = eX + msb128 sigX - 253;
          A = shl128_256 sigX (eX - wbot);
          shY = eY - wbot;
          (B, stickyY) = (if shY \<ge> 0 then (shl128_256 sigY shY, False)
                          else shr256_jam (u256_from128 sigY) (- shY))
      in if sX = sY then add_finish f rm wbot (add256 A B) sX stickyY
         else (let c = cmp256 A B
               in if c > 0 then
                    (let M = sub256 A B
                     in if stickyY then add_finish f rm wbot (sub256 M (u256_from128 (mk128 0 1))) sX True
                        else add_finish f rm wbot M sX False)
                  else if c < 0 then add_finish f rm wbot (sub256 B A) sY stickyY
                  else (make_zero f (rm = SF_RDN), 0)))"

subsection \<open>Unpacking\<close>

lemma fval_pos: "0 < n \<Longrightarrow> 0 < fval f n"
  using fval_less_iff [of f 0 n] by simp

lemma fval_eq_0 [simp]: "fval f n = 0 \<longleftrightarrow> n = 0"
  using fval_eq_iff [of f n 0] by simp

lemma pow_nonzero: "2 ^ k \<le> n \<Longrightarrow> n \<noteq> 0" for n :: nat
  by (metis le_zero_eq power_not_zero zero_neq_numeral)

lemma floor_sqrt:
  fixes k n :: nat
  assumes "k\<^sup>2 \<le> n" "n < (k + 1)\<^sup>2"
  shows "real k \<le> sqrt (real n)" "sqrt (real n) < real k + 1" "sqrt (real n) = real k \<longleftrightarrow> k\<^sup>2 = n"
proof -
  have sq: "(real k)\<^sup>2 \<le> real n" "real n < (real k + 1)\<^sup>2"
    using assms unfolding of_nat_le_iff [where 'a = real, symmetric] of_nat_less_iff [where 'a = real, symmetric]
    by (simp_all only: of_nat_power of_nat_add of_nat_1)
  show "real k \<le> sqrt (real n)" using sq(1) by (rule real_le_rsqrt)
  show "sqrt (real n) < real k + 1" using sq(2) by (intro real_less_lsqrt) simp_all
  have "sqrt (real n) = real k \<longleftrightarrow> (sqrt (real n))\<^sup>2 = (real k)\<^sup>2"
    by (rule power2_eq_iff_nonneg [symmetric]) simp_all
  also have "\<dots> \<longleftrightarrow> real n = real (k\<^sup>2)" by simp
  also have "\<dots> \<longleftrightarrow> k\<^sup>2 = n" unfolding of_nat_eq_iff by auto
  finally show "sqrt (real n) = real k \<longleftrightarrow> k\<^sup>2 = n" .
qed

lemma isqrt_real:
  assumes "isqrt128 n = (rt, nz)"
  shows "real (unat rt) \<le> sqrt (real (val128 n))" "sqrt (real (val128 n)) < real (unat rt) + 1"
    "nz \<longleftrightarrow> sqrt (real (val128 n)) \<noteq> real (unat rt)"
  using isqrt128_val [OF assms] floor_sqrt [of "unat rt" "val128 n"] by blast+

lemma msb128_ge:
  assumes "2 ^ k \<le> val128 a"
  shows "int k \<le> msb128 a"
proof -
  note m = msb128_val [OF pow_nonzero [OF assms]]
  then have "(2 :: nat) ^ k < 2 ^ (nat (msb128 a) + 1)" using assms by (meson le_less_trans)
  then have "k < nat (msb128 a) + 1" by (rule power_less_imp_less_exp [rotated]) simp
  then have "k \<le> nat (msb128 a)" by simp
  then show ?thesis using m by linarith
qed

context ieee_format
begin

lemma mag_parts: "mag f w = unat w div 2 ^ mantbits f mod 2 ^ expbits f * 2 ^ mantbits f + unat w mod 2 ^ mantbits f"
  using mod_mult2_eq [of "unat w" "2 ^ mantbits f" "2 ^ expbits f"] by (simp add: mag_def width power_add mult.commute)

lemma sign_word: "shr w (width f - 1) AND 1 \<noteq> 0 \<longleftrightarrow> neg f w"
  using unat_low_mask [of 1 "shr w (width f - 1)"]
  by (auto simp: neg_def word_eq_unat unat_shr shl_def odd_iff_mod_2_eq_one)

lemma unpack_sign: "sgn_of (unpack f w) = neg f w"
  using sign_word [of w] by (simp add: unpack_def Let_def)

lemma unpack_fields:
  fixes w :: u64
  shows
  "unat (shr w (mantbits f) AND (shl 1 (expbits f) - 1)) = unat w div 2 ^ mantbits f mod 2 ^ expbits f"
  "unat (w AND (shl 1 (mantbits f) - 1)) = unat w mod 2 ^ mantbits f"
  using unat_low_mask [of "expbits f" "shr w (mantbits f)"] unat_low_mask [of "mantbits f" w] ebits bounds
  by (simp_all add: unat_shr)

lemma expmask_val: "unat (shl 1 (expbits f) - 1 :: u64) = 2 ^ expbits f - 1"
  using unat_mask [of "expbits f"] ebits by simp

lemma unpack_zero: "mag f w = 0 \<Longrightarrow> cls (unpack f w) = CLS_ZERO"
  using unpack_fields [of w] mag_parts [of w] by (simp add: unpack_def Let_def word_eq_unat)

lemma unpack_normal:
  fixes w :: u64
  assumes "mag f w < inf_code f" "mag f w \<noteq> 0"
  defines "E \<equiv> unat w div 2 ^ mantbits f mod 2 ^ expbits f"
  defines "F \<equiv> unat w mod 2 ^ mantbits f"
  shows "cls (unpack f w) = CLS_NORMAL" "hi (sig (unpack f w)) = 0"
    "unat (lo (sig (unpack f w))) = (if E = 0 then F else 2 ^ mantbits f + F)"
    "exp2 (unpack f w) = max (int E) 1 - bias f - int (mantbits f)"
proof -
  define aw :: u64 where "aw = shl 1 (expbits f) - 1"
  define ew where "ew = shr w (mantbits f) AND aw"
  define fw where "fw = w AND (shl 1 (mantbits f) - 1)"
  have u: "unat ew = E" "unat fw = F" "unat aw = 2 ^ expbits f - 1"
    using unpack_fields [of w] expmask_val by (simp_all add: ew_def fw_def aw_def E_def F_def)
  have "E * 2 ^ mantbits f + F < (2 ^ expbits f - 1) * 2 ^ mantbits f"
    using assms(1) unfolding mag_parts E_def [symmetric] F_def [symmetric] inf_code_def .
  then have "E * 2 ^ mantbits f < (2 ^ expbits f - 1) * 2 ^ mantbits f" by linarith
  then have E: "ew \<noteq> aw" using u by (auto simp: word_eq_unat)
  have EF: "E = 0 \<Longrightarrow> F \<noteq> 0"
    using assms(2) unfolding mag_parts E_def [symmetric] F_def [symmetric] by simp
  have or: "unat (shl 1 (mantbits f) OR fw) = 2 ^ mantbits f + F"
  proof -
    have "unat fw div 2 ^ mantbits f = 0" by (simp add: u F_def)
    then have "\<not> bit (unat fw) (mantbits f)" by (simp add: bit_iff_odd)
    then have "\<not> bit fw (mantbits f)" using bounds by (simp add: bit_unsigned_iff)
    then have "shl 1 (mantbits f) AND fw = 0" by (intro bit_word_eqI) (auto simp: bits bit_1_iff)
    then have "unat (shl 1 (mantbits f) OR fw) = unat (shl 1 (mantbits f) :: u64) + unat fw" by (rule unat_or_disjoint)
    then show ?thesis using unat_bit [of "mantbits f"] bounds u by simp
  qed
  have ez: "ew = 0 \<longleftrightarrow> E = 0" and fz: "fw = 0 \<longleftrightarrow> F = 0" using u by (auto simp: word_eq_unat)
  have un: "unpack f w = (if ew = 0 then
      \<lparr>sgn_of = neg f w, cls = CLS_NORMAL, snan = False, sig = mk128 0 fw, exp2 = 1 - bias f - int (mantbits f)\<rparr>
    else \<lparr>sgn_of = neg f w, cls = CLS_NORMAL, snan = False, sig = mk128 0 (shl 1 (mantbits f) OR fw),
      exp2 = uint ew - bias f - int (mantbits f)\<rparr>)"
    using E EF ez fz unfolding unpack_def Let_def sign_word aw_def [symmetric] unfolding ew_def [symmetric] fw_def [symmetric]
    by (cases "ew = 0") simp_all
  show "cls (unpack f w) = CLS_NORMAL" "hi (sig (unpack f w)) = 0"
    "unat (lo (sig (unpack f w))) = (if E = 0 then F else 2 ^ mantbits f + F)"
    "exp2 (unpack f w) = max (int E) 1 - bias f - int (mantbits f)"
    using u or unfolding un ez by (auto simp: mk128_def uint_nat)
qed

lemma unpack_finite:
  assumes "mag f w < inf_code f" "mag f w \<noteq> 0"
  shows "up_val (unpack f w) = fval f (mag f w)"
    "0 < val128 (sig (unpack f w))" "val128 (sig (unpack f w)) < 2 ^ (mantbits f + 1)"
    "- (2 ^ 21) < exp2 (unpack f w)" "exp2 (unpack f w) < 2 ^ 21"
proof -
  define E where "E = unat w div 2 ^ mantbits f mod 2 ^ expbits f"
  define F where "F = unat w mod 2 ^ mantbits f"
  note n = unpack_normal [OF assms, folded E_def F_def]
  have m: "mag f w = E * 2 ^ mantbits f + F" "F < 2 ^ mantbits f" by (simp_all add: mag_parts E_def F_def)
  have v: "val128 (sig (unpack f w)) = (if E = 0 then F else 2 ^ mantbits f + F)"
    using n(2,3) by (simp add: val128_def)
  show "up_val (unpack f w) = fval f (mag f w)"
    unfolding up_val_def v n(4) fval_def Let_def m using m(2) by simp
  show "0 < val128 (sig (unpack f w))" using assms(2) m by (auto simp: v)
  show "val128 (sig (unpack f w)) < 2 ^ (mantbits f + 1)" using m by (simp add: v)
  have "E < 2 ^ expbits f" by (simp add: E_def)
  also have "(2 :: nat) ^ expbits f \<le> 2 ^ 11" using ebits by (intro power_increasing) simp_all
  finally have "int E < 2 ^ 11" by simp
  then show "- (2 ^ 21) < exp2 (unpack f w)" "exp2 (unpack f w) < 2 ^ 21"
    unfolding n(4) using bias_bound bounds by (simp_all add: max_def)
qed

lemma lo_sig: "mag f w < inf_code f \<Longrightarrow> mag f w \<noteq> 0 \<Longrightarrow> unat (lo (sig (unpack f w))) = val128 (sig (unpack f w))"
  using unpack_normal(2) by (simp add: val128_def)

lemma product_val:
  assumes "mag f a < inf_code f" "mag f a \<noteq> 0" "mag f b < inf_code f" "mag f b \<noteq> 0"
  defines "p \<equiv> mul64 (lo (sig (unpack f a))) (lo (sig (unpack f b)))"
  shows "real (val128 p) * 2 powi (exp2 (unpack f a) + exp2 (unpack f b)) = fval f (mag f a) * fval f (mag f b)" "val128 p \<noteq> 0"
proof -
  note A = unpack_finite [OF assms(1,2)] and B = unpack_finite [OF assms(3,4)]
  have p: "val128 p = val128 (sig (unpack f a)) * val128 (sig (unpack f b))"
    unfolding p_def mul64_val lo_sig [OF assms(1,2)] lo_sig [OF assms(3,4)] ..
  show "real (val128 p) * 2 powi (exp2 (unpack f a) + exp2 (unpack f b)) = fval f (mag f a) * fval f (mag f b)"
    unfolding A(1) [symmetric] B(1) [symmetric] up_val_def p by (simp add: power_int_add)
  show "val128 p \<noteq> 0" using A(2) B(2) p by simp
qed

lemma product_rounded:
  assumes "mag f a < inf_code f" "mag f a \<noteq> 0" "mag f b < inf_code f" "mag f b \<noteq> 0"
  shows "rounded_result f rm s (fval f (mag f a) * fval f (mag f b))
    (round_mag f s (mul64 (lo (sig (unpack f a))) (lo (sig (unpack f b)))) (exp2 (unpack f a) + exp2 (unpack f b)) False rm)"
  by (rule round_mag_correct [OF product_val(2) [OF assms] _ _ _ _ _ _ product_val(1) [OF assms, symmetric]])
    (use unpack_finite [OF assms(1,2)] unpack_finite [OF assms(3,4)] in auto)

lemma mul_correct:
  assumes "mag f a < inf_code f" "mag f a \<noteq> 0" "mag f b < inf_code f" "mag f b \<noteq> 0"
  shows "rounded_result f rm (neg f a \<noteq> neg f b) (fval f (mag f a) * fval f (mag f b)) (fp_mul f a b rm)"
  using product_rounded [OF assms, of rm "neg f a \<noteq> neg f b"]
    unpack_normal(1) [OF assms(1,2)] unpack_normal(1) [OF assms(3,4)]
  by (simp add: fp_mul_def Let_def unpack_sign)

lemma norm_correct:
  assumes "mag f w < inf_code f" "mag f w \<noteq> 0"
  defines "u \<equiv> norm_operand (unpack f w) f"
  shows "up_val u = fval f (mag f w)" "2 ^ mantbits f \<le> val128 (sig u)" "val128 (sig u) < 2 ^ (mantbits f + 1)"
    "- (2 ^ 22) < exp2 u" "exp2 u < 2 ^ 21" "unat (lo (sig u)) = val128 (sig u)"
proof -
  define v where "v = unpack f w"
  note V = unpack_finite [OF assms(1,2), folded v_def]
  define k where "k = nat (msb128 (sig v))"
  have k: "msb128 (sig v) = int k" "2 ^ k \<le> val128 (sig v)" "val128 (sig v) < 2 ^ (k + 1)"
    using msb128_val [of "sig v"] V(2) by (simp_all add: k_def)
  have "(2 :: nat) ^ k < 2 ^ (mantbits f + 1)" using k(2) V(3) by (rule le_less_trans)
  then have "k < mantbits f + 1" by (rule power_less_imp_less_exp [rotated]) simp
  then have km: "k \<le> mantbits f" by simp
  define d where "d = mantbits f - k"
  have d: "mantbits f = k + d" using km by (simp add: d_def)
  have sz: "val128 (sig v) * 2 ^ d < 2 ^ (mantbits f + 1)"
    using mult_strict_right_mono [OF k(3), of "2 ^ d"] by (simp add: d power_add mult_ac)
  have le: "(2 :: nat) ^ (mantbits f + 1) \<le> 2 ^ 63" using bounds by (intro power_increasing) simp_all
  have u: "sig u = (if d = 0 then sig v else shl128 (sig v) (int d))" "exp2 u = exp2 v - int d"
    using V(2) unpack_normal(1) [OF assms(1,2), folded v_def] k(1) d unfolding u_def v_def [symmetric]
    by (auto simp: norm_operand_def Let_def is0_128_val)
  have su: "val128 (sig u) = val128 (sig v) * 2 ^ d"
    using shl128_exact [of "int d" "sig v"] sz le bounds d by (auto simp: u)
  show "up_val u = fval f (mag f w)"
    unfolding V(1) [symmetric] up_val_def su u(2) using powi_split [of "exp2 v" d] by simp
  show "2 ^ mantbits f \<le> val128 (sig u)" unfolding su d power_add using k(2) by simp
  show "val128 (sig u) < 2 ^ (mantbits f + 1)" unfolding su by (rule sz)
  then show "unat (lo (sig u)) = val128 (sig u)" using le by (intro lo_val) simp
  show "- (2 ^ 22) < exp2 u" "exp2 u < 2 ^ 21" using V(4,5) u d bounds by simp_all
qed

lemma mant_cases: "width f = 32 \<and> mantbits f = 23 \<or> width f \<noteq> 32 \<and> mantbits f = 52"
  using R lead by (auto split: if_splits)

lemma div_correct:
  assumes "mag f a < inf_code f" "mag f a \<noteq> 0" "mag f b < inf_code f" "mag f b \<noteq> 0"
  shows "rounded_result f rm (neg f a \<noteq> neg f b) (fval f (mag f a) / fval f (mag f b)) (fp_div f a b rm)"
proof -
  define ua where "ua = norm_operand (unpack f a) f"
  define ub where "ub = norm_operand (unpack f b) f"
  note A = norm_correct [OF assms(1,2), folded ua_def] and B = norm_correct [OF assms(3,4), folded ub_def]
  define P :: nat where "P = (if width f = 32 then 28 else 61)"
  have P: "P \<le> 61" "mantbits f + 2 \<le> P" "mantbits f + P \<le> 113" using mant_cases by (auto simp: P_def)
  have Pi: "(if width f = 32 then 28 else 61) = int P" by (simp add: P_def)
  define num where "num = shl128 (sig ua) (int P)"
  have lt: "val128 (sig ua) * 2 ^ P < 2 ^ (mantbits f + 1 + P)"
    using mult_strict_right_mono [OF A(3), of "2 ^ P"] by (simp add: power_add)
  also have "(2 :: nat) ^ (mantbits f + 1 + P) \<le> 2 ^ (mantbits f + 64)" using P by (intro power_increasing) simp_all
  finally have lt2: "val128 (sig ua) * 2 ^ P < 2 ^ mantbits f * 2 ^ 64" by (simp only: power_add)
  have "(2 :: nat) ^ (mantbits f + 64) < 2 ^ 128" using bounds by (intro power_strict_increasing) simp_all
  then have num: "val128 num = val128 (sig ua) * 2 ^ P"
    unfolding num_def using shl128_exact [of "int P" "sig ua"] lt2 P by (simp add: power_add)
  have "unat (hi num) < 2 ^ mantbits f"
    unfolding val128_split(1) [symmetric] num using lt2 by (rule less_mult_imp_div_less)
  then have "unat (hi num) < unat (lo (sig ub))" using B(2,6) by simp
  then obtain q r where qr: "udiv128by64 num (lo (sig ub)) = (q, r)" "unat q = val128 num div val128 (sig ub)"
    "unat r = val128 num mod val128 (sig ub)"
    using udiv128_val [of num "lo (sig ub)"] B(6) by (metis prod.collapse prod.inject)
  define X where "X = real (val128 num) / real (val128 (sig ub))"
  have Bp: "0 < val128 (sig ub)" using pow_nonzero [OF B(2)] by simp
  note fl = floor_div [of "val128 num" "real (val128 num)" "val128 (sig ub)", folded X_def, OF _ _ Bp]
  have x: "fval f (mag f a) / fval f (mag f b) = X * 2 powi (exp2 ua - exp2 ub - int P)"
    unfolding A(1) [symmetric] B(1) [symmetric] up_val_def X_def num by (simp add: power_int_diff)
  have q: "2 ^ (P - 1) \<le> unat q"
  proof -
    have "2 ^ (P - 1) * val128 (sig ub) \<le> 2 ^ (P - 1) * 2 ^ (mantbits f + 1)" using B(3) by simp
    also have "\<dots> = 2 ^ mantbits f * 2 ^ P" using P unfolding power_add [symmetric] by (intro arg_cong [of _ _ "(^) 2"]) simp
    also have "\<dots> \<le> val128 num" using A(2) by (simp add: num)
    finally show ?thesis using Bp by (simp add: qr(2) less_eq_div_iff_mult_less_eq)
  qed
  have "rounded_result f rm (neg f a \<noteq> neg f b) (fval f (mag f a) / fval f (mag f b))
    (round_mag f (neg f a \<noteq> neg f b) (mk128 0 q) (exp2 ua - exp2 ub - int P) (r \<noteq> 0) rm)"
  proof (rule round_mag_correct [OF _ _ _ _ _ _ _ x])
    show "val128 (mk128 0 q) \<noteq> 0" using pow_nonzero [OF q] by simp
    show "real (val128 (mk128 0 q)) \<le> X" "X < real (val128 (mk128 0 q)) + 1" using fl qr(2) by simp_all
    show "(r \<noteq> 0) = (X \<noteq> real (val128 (mk128 0 q)))" using fl qr(2,3) by (simp add: word_eq_unat)
    show "int (mantbits f) + 1 \<le> msb128 (mk128 0 q)" using msb128_ge [of "P - 1" "mk128 0 q"] q P by simp
  qed (use A(4,5) B(4,5) P in simp_all)
  then show ?thesis
    using unpack_normal(1) [OF assms(1,2)] unpack_normal(1) [OF assms(3,4)] qr(1)
    unfolding fp_div_def Let_def unpack_sign ua_def [symmetric] ub_def [symmetric] Pi num_def [symmetric] by simp
qed

lemma sqrt_correct:
  assumes "mag f a < inf_code f" "mag f a \<noteq> 0" "\<not> neg f a"
  shows "rounded_result f rm False (sqrt (fval f (mag f a))) (fp_sqrt f a rm)"
proof -
  define ua where "ua = norm_operand (unpack f a) f"
  note A = norm_correct [OF assms(1,2), folded ua_def]
  define P :: nat where "P = (if width f = 32 then 28 else 35)"
  have Pi: "(if width f = 32 then 28 else 35) = int P" by (simp add: P_def)
  have P: "P \<le> 35" "mantbits f + 2 \<le> 2 * P" using mant_cases by (auto simp: P_def)
  define s where "s = (if odd (exp2 ua) then shl128 (sig ua) 1 else sig ua)"
  define e where "e = (if odd (exp2 ua) then exp2 ua - 1 else exp2 ua)"
  have se: "(if odd (exp2 ua) then (shl128 (sig ua) 1, exp2 ua - 1) else (sig ua, exp2 ua)) = (s, e)"
    by (simp add: s_def e_def)
  have m54: "(2 :: nat) ^ (mantbits f + 1) \<le> 2 ^ 53" using mant_cases by (intro power_increasing) auto
  have s: "val128 s = val128 (sig ua) * (if odd (exp2 ua) then 2 else 1)"
    using shl128_exact [of 1 "sig ua"] A(3) m54 by (simp add: s_def)
  have sb: "2 ^ mantbits f \<le> val128 s" "val128 s < 2 ^ 54" using s A(2,3) m54 by (simp_all split: if_splits)
  define h where "h = e div 2"
  have h: "e = 2 * h" by (simp add: h_def e_def)
  have hb: "- (2 ^ 23) < h" "h < 2 ^ 21" using A(4,5) h by (auto simp: e_def split: if_splits)
  have e: "up_val ua = real (val128 s) * 2 powi e"
    unfolding up_val_def s e_def using powi_split [of "exp2 ua" 1] by auto
  define n where "n = shl128 s (2 * int P)"
  have P4: "(4 :: nat) ^ P \<le> 4 ^ 35" using P by (intro power_increasing) simp_all
  have "val128 s * 4 ^ P < 2 ^ 54 * 4 ^ 35" using sb(2) P4 by (intro mult_less_le_imp_less) simp_all
  then have n: "val128 n = val128 s * 4 ^ P"
    unfolding n_def using shl128_exact [of "2 * int P" s] P by (simp add: nat_mult_distrib power_mult)
  obtain rt nz where r: "isqrt128 n = (rt, nz)" by fastforce
  note rv = isqrt128_val [OF r]
  define X where "X = sqrt (real (val128 n))"
  have X: "real (unat rt) \<le> X" "X < real (unat rt) + 1" "nz \<longleftrightarrow> X \<noteq> real (unat rt)"
    unfolding X_def by (rule isqrt_real [OF r])+
  have x: "sqrt (fval f (mag f a)) = X * 2 powi (h - int P)"
  proof -
    have "fval f (mag f a) = real (val128 s) * (2 powi h)\<^sup>2"
      unfolding A(1) [symmetric] e h by (simp add: power_int_mult power2_eq_square flip: power_int_add)
    then have "sqrt (fval f (mag f a)) = sqrt (real (val128 s)) * 2 powi h" by (simp add: real_sqrt_mult)
    moreover have "X = sqrt (real (val128 s)) * 2 ^ P"
      by (simp add: X_def n real_sqrt_mult real_sqrt_power)
    ultimately show ?thesis using powi_split [of h P] by simp
  qed
  have q: "2 ^ (mantbits f + 1) \<le> unat rt"
  proof -
    have "((2 :: nat) ^ (mantbits f + 1))\<^sup>2 = 2 ^ mantbits f * 2 ^ (mantbits f + 2)" by (simp add: power2_eq_square flip: power_add)
    also have "\<dots> \<le> 2 ^ mantbits f * 2 ^ (2 * P)" using P by (intro mult_le_mono2 power_increasing) simp_all
    also have "\<dots> \<le> val128 n" using sb(1) by (simp add: n power_mult)
    also have "\<dots> < (unat rt + 1)\<^sup>2" using rv by simp
    finally have "2 ^ (mantbits f + 1) < unat rt + 1" by (rule power_less_imp_less_base) simp
    then show ?thesis by simp
  qed
  have "rounded_result f rm False (sqrt (fval f (mag f a))) (round_mag f False (mk128 0 rt) (h - int P) nz rm)"
  proof (rule round_mag_correct [OF _ _ _ _ _ _ _ x])
    show "val128 (mk128 0 rt) \<noteq> 0" using pow_nonzero [OF q] by simp
    show "int (mantbits f) + 1 \<le> msb128 (mk128 0 rt)" using msb128_ge [of "mantbits f + 1" "mk128 0 rt"] q by simp
  qed (use X hb P in simp_all)
  then show ?thesis
    using unpack_normal(1) [OF assms(1,2)] assms(3) r
    unfolding fp_sqrt_def Let_def unpack_sign ua_def [symmetric] Pi se prod.case n_def [symmetric] by (simp add: h_def)
qed

end

subsection \<open>Addition\<close>

lemma signed_pos:
  assumes "z = signed_val s Z * c" "0 < Z" "0 < c"
  shows "z \<noteq> 0" "z < 0 \<longleftrightarrow> s" "\<bar>z\<bar> = Z * c"
  using assms by (auto simp: signed_val_def abs_mult mult_less_0_iff)

lemma add_core_ordered:
  "add_core f sX sigX eX sY sigY eY rm =
     (if eY + msb128 sigY > eX + msb128 sigX then add_ordered f rm sY sigY eY sX sigX eX
      else add_ordered f rm sX sigX eX sY sigY eY)"
  by (cases "eY + msb128 sigY > eX + msb128 sigX")
    (simp_all only: add_core_def add_ordered_def add_finish_def Let_def if_True if_False prod.case)

lemma low128:
  assumes "length M = 4" "val_words M < 2 ^ 128"
  shows "val128 (mk128 (M ! 1) (M ! 0)) = val_words M"
proof -
  define B :: nat where "B = 2 ^ 64"
  obtain w x y z where M: "M = [w, x, y, z]" using four_words [OF assms(1)] by blast
  have "val_words M = unat w + B * (unat x + B * val_words [y, z])" by (simp add: M B_def)
  moreover have "(2 :: nat) ^ 128 = B * B" by (simp add: B_def)
  ultimately have lt: "unat w + B * (unat x + B * val_words [y, z]) < B * B" using assms(2) by simp
  have "val_words [y, z] = 0"
  proof (rule ccontr)
    assume "val_words [y, z] \<noteq> 0"
    then have "1 \<le> val_words [y, z]" by linarith
    then have "B * B * 1 \<le> B * B * val_words [y, z]" by (rule mult_le_mono2)
    then show False using lt unfolding distrib_left mult.assoc by linarith
  qed
  then show ?thesis by (simp add: M)
qed

lemma align_small:
  assumes "val128 a \<noteq> 0" "sh + msb128 a \<le> 253"
    and B: "(B, st) = (if sh \<ge> 0 then (shl128_256 a sh, False) else shr256_jam (u256_from128 a) (- sh))"
  defines "Y \<equiv> real (val128 a) * 2 powi sh"
  shows "length B = 4" "real (val_words B) \<le> Y" "Y < real (val_words B) + 1" "st \<longleftrightarrow> Y \<noteq> real (val_words B)"
    "val_words B < 2 ^ 254" "st \<Longrightarrow> val_words B < 2 ^ 128"
proof -
  define mb where "mb = nat (msb128 a)"
  have m: "msb128 a = int mb" "val128 a < 2 ^ (mb + 1)" using msb128_val [OF assms(1)] by (simp_all add: mb_def)
  have "length B = 4 \<and> real (val_words B) \<le> Y \<and> Y < real (val_words B) + 1 \<and> (st \<longleftrightarrow> Y \<noteq> real (val_words B)) \<and>
    val_words B < 2 ^ 254 \<and> (st \<longrightarrow> val_words B < 2 ^ 128)"
  proof (cases "0 \<le> sh")
    case True
    define k where "k = nat sh"
    have k: "sh = int k" "k < 256" using True assms(2) m by (simp_all add: k_def)
    have "val128 a * 2 ^ k < 2 ^ (mb + 1) * 2 ^ k" using m by simp
    also have "\<dots> \<le> 2 ^ 254" unfolding power_add [symmetric] using assms(2) m k by (intro power_increasing) simp_all
    finally have lt: "val128 a * 2 ^ k < 2 ^ 254" .
    moreover have "(2 :: nat) ^ 254 < 2 ^ 256" by (intro power_strict_increasing) simp_all
    ultimately have "val_words B = val128 a * 2 ^ k"
      using shl128_256_val(1) [of sh a] B True k by simp
    then show ?thesis using B True lt shl128_256_val(2) [of sh a] k by (simp add: Y_def)
  next
    case False
    define k where "k = nat (- sh)"
    have k: "- sh = int k" "sh = - int k" "0 < k" using False by (simp_all add: k_def)
    have jam: "shr256_jam (u256_from128 a) (int k) = (B, st)" using B False k by simp
    have l: "length (u256_from128 a) = 4" by (simp add: u256_from128_def)
    note v = shr256_jam_val [OF l _ jam, unfolded val_words_128]
    have Y: "Y = real (val128 a) / real (2 ^ k)" by (simp add: Y_def k(2) power_int_minus divide_inverse)
    have "val128 a div 2 ^ k < 2 ^ 128" by (rule le_less_trans [OF div_le_dividend val128_less])
    then have "val_words B < 2 ^ 128" using v(1) k by simp
    then show ?thesis
      using v k floor_div [of "val128 a" "real (val128 a)" "2 ^ k"] unfolding Y by simp
  qed
  then show "length B = 4" "real (val_words B) \<le> Y" "Y < real (val_words B) + 1" "st \<longleftrightarrow> Y \<noteq> real (val_words B)"
    "val_words B < 2 ^ 254" "st \<Longrightarrow> val_words B < 2 ^ 128" by blast+
qed

lemma align_large:
  assumes "val128 a \<noteq> 0"
  defines "A \<equiv> shl128_256 a (253 - msb128 a)"
  shows "length A = 4" "real (val_words A) = real (val128 a) * 2 powi (253 - msb128 a)" "2 ^ 253 \<le> val_words A" "val_words A < 2 ^ 254"
proof -
  define mb where "mb = nat (msb128 a)"
  have m: "msb128 a = int mb" "mb \<le> 127" and v: "2 ^ mb \<le> val128 a" "val128 a < 2 ^ (mb + 1)"
    using msb128_val [OF assms(1)] by (simp_all add: mb_def nat_le_iff)
  define k where "k = 253 - mb"
  have k: "253 - msb128 a = int k" "mb + k = 253" "k < 256" using m by (simp_all add: k_def)
  have e: "mb + 1 + k = 254" using k(2) by simp
  have "val128 a * 2 ^ k < 2 ^ (mb + 1) * 2 ^ k" using v(2) by simp
  then have lt: "val128 a * 2 ^ k < 2 ^ 254" unfolding power_add [symmetric] e .
  have ge: "2 ^ 253 \<le> val128 a * 2 ^ k" using mult_le_mono1 [OF v(1), of "2 ^ k"] unfolding power_add [symmetric] k(2) .
  have "(2 :: nat) ^ 254 < 2 ^ 256" by (intro power_strict_increasing) simp_all
  then have A: "val_words A = val128 a * 2 ^ k"
    unfolding A_def k(1) using shl128_256_val(1) [of "int k" a] k lt by simp
  show "length A = 4" unfolding A_def k(1) using shl128_256_val(2) [of "int k" a] k by simp
  show "real (val_words A) = real (val128 a) * 2 powi (253 - msb128 a)" by (simp add: A k(1))
  show "2 ^ 253 \<le> val_words A" "val_words A < 2 ^ 254" unfolding A by (rule ge, rule lt)
qed

context ieee_format
begin

lemma add_finish_correct:
  assumes M: "length M = 4" "real (val_words M) \<le> Z" "Z < real (val_words M) + 1" and st: "st \<longleftrightarrow> Z \<noteq> real (val_words M)"
    "st \<Longrightarrow> 2 ^ 128 \<le> val_words M" and Z: "0 < Z" and w: "- (2 ^ 28) < wbot" "wbot < 2 ^ 28"
  shows "rounded_result f rm s (Z * 2 powi wbot) (add_finish f rm wbot M s st)"
proof -
  have nz: "val_words M \<noteq> 0" using Z st by (cases st) (auto dest: pow_nonzero)
  define mb where "mb = nat (msb256 M)"
  have mb: "msb256 M = int mb" "mb \<le> 255" "2 ^ mb \<le> val_words M" "val_words M < 2 ^ (mb + 1)"
    using msb256_val [OF M(1) nz] by (simp_all add: mb_def nat_le_iff)
  show ?thesis
  proof (cases "mb \<le> 127")
    case True
    then have "(2 :: nat) ^ (mb + 1) \<le> 2 ^ 128" by (intro power_increasing) simp_all
    then have lt: "val_words M < 2 ^ 128" using mb(4) by (rule less_le_trans [rotated])
    then have "\<not> st" using st(2) by (auto simp: not_le [symmetric] simp del: power_numeral)
    then have "rounded_result f rm s (Z * 2 powi wbot) (round_mag f s (mk128 (M ! 1) (M ! 0)) wbot st rm)"
      using low128 [OF M(1) lt] nz M st(1) w by (intro round_mag_correct [of _ Z]) simp_all
    then show ?thesis using True nz by (simp add: add_finish_def is0_256_val [OF M(1)] mb(1))
  next
    case False
    define k where "k = mb - 127"
    have k: "mb = 127 + k" "0 < k" "int mb - 127 = int k" using False by (simp_all add: k_def)
    obtain r lost where r: "shr256_jam M (int k) = (r, lost)" by fastforce
    have v: "val_words r = val_words M div 2 ^ k" "length r = 4" "lost \<longleftrightarrow> val_words M mod 2 ^ k \<noteq> 0"
      using shr256_jam_val [OF M(1) _ r] k(2) by simp_all
    have ge: "2 ^ 127 \<le> val_words r" using mb(3) by (simp add: v less_eq_div_iff_mult_less_eq k(1) power_add)
    have lt: "val_words r < 2 ^ 128" using mb(4) by (simp add: v less_mult_imp_div_less k(1) power_add mult_ac)
    define mt where "mt = mk128 (r ! 1) (r ! 0)"
    note fl = floor_div [OF M(2,3), of "2 ^ k"] and lo = low128 [OF v(2) lt, folded mt_def]
    have "rounded_result f rm s (Z * 2 powi wbot) (round_mag f s mt (wbot + int k) (lost \<or> st) rm)"
    proof (rule round_mag_correct [of _ "Z / real (2 ^ k)"])
      show "val128 mt \<noteq> 0" unfolding lo by (rule pow_nonzero [OF ge])
      show "int (mantbits f) + 1 \<le> msb128 mt"
        using msb128_ge [of 127 mt] ge bounds unfolding lo by simp
      show "Z * 2 powi wbot = Z / real (2 ^ k) * 2 powi (wbot + int k)" using powi_split [of "wbot + int k" k] by simp
    qed (use fl v st(1) w k mb(2) in \<open>simp_all add: lo\<close>)
    moreover have "add_finish f rm wbot M s st = round_mag f s mt (wbot + int k) (lost \<or> st) rm"
      using False nz r unfolding add_finish_def is0_256_val [OF M(1)] mb(1) Let_def k(3) by (simp add: mt_def)
    ultimately show ?thesis by simp
  qed
qed

lemma sub_finish:
  assumes len: "length A = 4" "length B = 4" and lt: "val_words B < val_words A"
    and Y: "real (val_words B) \<le> Y" "Y < real (val_words B) + 1"
    and st: "st \<longleftrightarrow> Y \<noteq> real (val_words B)" "st \<Longrightarrow> val_words B + 2 ^ 128 + 1 \<le> val_words A"
    and w: "- (2 ^ 28) < w" "w < 2 ^ 28"
  shows "0 < real (val_words A) - Y"
    and "rounded_result f rm s ((real (val_words A) - Y) * 2 powi w)
      (if st then add_finish f rm w (sub256 (sub256 A B) (u256_from128 (mk128 0 1))) s True
       else add_finish f rm w (sub256 A B) s False)"
proof -
  define N where "N = val_words A - val_words B"
  have N: "val_words (sub256 A B) = N" "length (sub256 A B) = 4" "real N = real (val_words A) - real (val_words B)" "0 < N"
    using sub256_val [OF len] lt by (simp_all add: N_def of_nat_diff)
  show pos: "0 < real (val_words A) - Y"
    using Y st(1) N(3,4) lt by (cases st) linarith+
  show "rounded_result f rm s ((real (val_words A) - Y) * 2 powi w)
    (if st then add_finish f rm w (sub256 (sub256 A B) (u256_from128 (mk128 0 1))) s True
     else add_finish f rm w (sub256 A B) s False)"
  proof (cases st)
    case False
    then have "real (val_words A) - Y = real N" using st(1) N(3) by simp
    moreover have "rounded_result f rm s (real N * 2 powi w) (add_finish f rm w (sub256 A B) s False)"
      using N w by (intro add_finish_correct) simp_all
    ultimately show ?thesis using False by simp
  next
    case True
    have N1: "2 ^ 128 + 1 \<le> N" using st(2) True by (simp add: N_def)
    have "val_words (sub256 (sub256 A B) (u256_from128 (mk128 0 1))) = N - 1" "length (sub256 (sub256 A B) (u256_from128 (mk128 0 1))) = 4"
      using sub256_val [OF N(2), of "u256_from128 (mk128 0 1)"] N1 N(1) by (simp_all add: u256_from128_def mk128_def)
    then have "rounded_result f rm s ((real (val_words A) - Y) * 2 powi w)
      (add_finish f rm w (sub256 (sub256 A B) (u256_from128 (mk128 0 1))) s True)"
      using Y st(1) N(3) N1 True w pos by (intro add_finish_correct) (simp_all add: of_nat_diff)
    then show ?thesis using True by simp
  qed
qed

lemma add_ordered_correct:
  fixes sX sY :: bool
  assumes nz: "val128 sigX \<noteq> 0" "val128 sigY \<noteq> 0" and ord: "eY + msb128 sigY \<le> eX + msb128 sigX"
    and eb: "- (2 ^ 24) < eX" "eX < 2 ^ 24"
  defines "z \<equiv> signed_val sX (real (val128 sigX) * 2 powi eX) + signed_val sY (real (val128 sigY) * 2 powi eY)"
  shows "if z = 0 then add_ordered f rm sX sigX eX sY sigY eY = (make_zero f (rm = SF_RDN), 0)
    else rounded_result f rm (z < 0) \<bar>z\<bar> (add_ordered f rm sX sigX eX sY sigY eY)"
proof -
  define w where "w = eX + msb128 sigX - 253"
  define A where "A = shl128_256 sigX (eX - w)"
  obtain B st where B: "(B, st) = (if eY - w \<ge> 0 then (shl128_256 sigY (eY - w), False) else shr256_jam (u256_from128 sigY) (- (eY - w)))"
    by (metis surj_pair)
  define Y where "Y = real (val128 sigY) * 2 powi (eY - w)"
  have eA: "eX - w = 253 - msb128 sigX" by (simp add: w_def)
  note a = align_large [OF nz(1), folded eA A_def] and b = align_small [OF nz(2) _ B, folded Y_def]
  have le: "eY - w + msb128 sigY \<le> 253" using ord by (simp add: w_def)
  note b = b [OF le]
  define c :: real where "c = 2 powi w"
  have c: "0 < c" by (simp add: c_def)
  have "real (val_words A) * c = real (val128 sigX) * 2 powi eX" "Y * c = real (val128 sigY) * 2 powi eY"
    by (simp_all add: a(2) Y_def c_def mult.assoc flip: power_int_add)
  then have z: "z = (signed_val sX (real (val_words A)) + signed_val sY Y) * c"
    by (simp add: z_def signed_val_def algebra_simps)
  have wb: "- (2 ^ 28) < w" "w < 2 ^ 28" using eb msb128_val [OF nz(1)] by (simp_all add: w_def)
  note fin = add_finish_correct [OF _ _ _ _ _ _ wb, folded c_def]
  have ao: "add_ordered f rm sX sigX eX sY sigY eY =
    (if sX = sY then add_finish f rm w (add256 A B) sX st
     else if val_words A < val_words B then add_finish f rm w (sub256 B A) sY st
     else if val_words A = val_words B then (make_zero f (rm = SF_RDN), 0)
     else if st then add_finish f rm w (sub256 (sub256 A B) (u256_from128 (mk128 0 1))) sX True
     else add_finish f rm w (sub256 A B) sX False)"
    unfolding add_ordered_def Let_def w_def [symmetric] A_def [symmetric] B [symmetric] prod.case cmp256_val [OF a(1) b(1)]
    by simp
  have Ap: "0 < real (val_words A)" using pow_nonzero [OF a(3)] by simp
  have sm: "st \<Longrightarrow> val_words B < 2 ^ 128" by (rule b(6))
  consider (same) "sX = sY" | (less) "sX \<noteq> sY" "val_words A < val_words B"
    | (eq) "sX \<noteq> sY" "val_words A = val_words B" | (greater) "sX \<noteq> sY" "val_words B < val_words A"
    by linarith
  then show ?thesis
  proof cases
    case same
    have "val_words A + val_words B < 2 ^ 256" using a(4) b(5) by simp
    note s = add256_val [OF a(1) b(1) this]
    have "z = signed_val sX (real (val_words A) + Y) * c" using z same by (simp add: signed_val_def)
    moreover have "0 < real (val_words A) + Y" using Ap b(2) by linarith
    moreover have "rounded_result f rm sX ((real (val_words A) + Y) * c) (add_finish f rm w (add256 A B) sX st)"
      using s b(2,3,4) a(3) \<open>0 < real (val_words A) + Y\<close> by (intro fin) simp_all
    ultimately show ?thesis using signed_pos [OF _ _ c] same ao by auto
  next
    case less
    then have "\<not> st" using sm a(3) by (auto simp: not_less)
    then have Y: "Y = real (val_words B)" using b(4) by simp
    note d = sub_finish [OF b(1) a(1) less(2) _ _ _ _ wb, of "real (val_words A)" False, folded c_def Y]
    have "z = signed_val sY (Y - real (val_words A)) * c" using z less(1) by (auto simp: signed_val_def algebra_simps)
    then show ?thesis using signed_pos [OF _ _ c] d less ao \<open>\<not> st\<close> by auto
  next
    case eq
    then have "\<not> st" using sm a(3) by auto
    then show ?thesis using z b(4) eq ao by (auto simp: signed_val_def)
  next
    case greater
    have "st \<Longrightarrow> val_words B + 2 ^ 128 + 1 \<le> val_words A" using sm a(3) by simp
    note d = sub_finish [OF a(1) b(1) greater(2) b(2,3,4) this wb, folded c_def]
    have "z = signed_val sX (real (val_words A) - Y) * c" using z greater(1) by (auto simp: signed_val_def algebra_simps)
    then show ?thesis using signed_pos [OF _ d(1) c] d(2) [of rm sX] greater ao by auto
  qed
qed

lemma add_core_correct:
  fixes sX sY :: bool
  assumes "val128 sigX \<noteq> 0" "val128 sigY \<noteq> 0" "- (2 ^ 24) < eX" "eX < 2 ^ 24" "- (2 ^ 24) < eY" "eY < 2 ^ 24"
  defines "z \<equiv> signed_val sX (real (val128 sigX) * 2 powi eX) + signed_val sY (real (val128 sigY) * 2 powi eY)"
  shows "if z = 0 then add_core f sX sigX eX sY sigY eY rm = (make_zero f (rm = SF_RDN), 0)
    else rounded_result f rm (z < 0) \<bar>z\<bar> (add_core f sX sigX eX sY sigY eY rm)"
proof (cases "eX + msb128 sigX < eY + msb128 sigY")
  case True
  then show ?thesis
    using add_ordered_correct [OF assms(2,1) _ assms(5,6), of eX sY sX rm]
    unfolding add_core_ordered z_def add.commute [of "signed_val sX _"] by simp
next
  case False
  then show ?thesis
    using add_ordered_correct [OF assms(1,2) _ assms(3,4), of eY sX sY rm] unfolding add_core_ordered z_def by simp
qed

lemma sign_split: "unat w < 2 ^ width f \<Longrightarrow> unat w = sign_code f (neg f w) + mag f w"
proof -
  assume w: "unat w < 2 ^ width f"
  define D :: nat where "D = 2 ^ (width f - 1)"
  have "2 ^ width f = 2 * D" using bounds by (simp add: D_def flip: power_Suc)
  then have "unat w div D < 2" using w by (simp add: less_mult_imp_div_less)
  then have "unat w div D = of_bool (neg f w)" unfolding neg_def D_def [symmetric] by (cases "unat w div D") auto
  then show ?thesis
    using div_mult_mod_eq [of "unat w" D] unfolding sign_code_def mag_def D_def [symmetric] by simp
qed

lemma flip_sign:
  assumes "unat w < 2 ^ width f"
  shows "unat (w XOR sign_bit f) = sign_code f (\<not> neg f w) + mag f w"
proof -
  define k where "k = width f - 1"
  have k: "k < 64" using bounds by (simp add: k_def)
  have b: "bit w k \<longleftrightarrow> neg f w"
    using k unfolding neg_def k_def [symmetric] bit_iff_odd [symmetric] by (simp add: bit_unsigned_iff)
  have sb: "sign_bit f = shl 1 k" by (simp add: sign_bit_def k_def)
  show ?thesis
  proof (cases "neg f w")
    case True
    have "(w XOR shl 1 k) AND shl 1 k = 0" "(w XOR shl 1 k) OR shl 1 k = w"
      using True b k by (auto intro!: bit_word_eqI simp: bits bit_1_iff bit_xor_iff)
    then have "unat w = unat (w XOR shl 1 k) + 2 ^ k" using unat_or_disjoint [of "w XOR shl 1 k" "shl 1 k"] unat_bit [OF k] by simp
    then show ?thesis using sign_split [OF assms] True by (simp add: sb sign_code_def k_def)
  next
    case False
    have "w AND shl 1 k = 0" "w XOR shl 1 k = w OR shl 1 k"
      using False b k by (auto intro!: bit_word_eqI simp: bits bit_1_iff bit_xor_iff)
    then have "unat (w XOR shl 1 k) = unat w + 2 ^ k" using unat_or_disjoint [of w "shl 1 k"] unat_bit [OF k] by simp
    then show ?thesis using sign_split [OF assms] False by (simp add: sb sign_code_def k_def)
  qed
qed

lemma exact_result:
  assumes "unat w = sign_code f s + n" "n < inf_code f"
  shows "rounded_result f rm s (fval f n) (w, 0)"
proof -
  have "rounds f rm s (fval f n) n" by (auto simp: rounds_def away_def intro!: exI [of _ n])
  then show ?thesis using assms unfolding rounded_result_def by (intro exI [of _ n]) simp
qed

lemma up_real:
  assumes "finite_code f w" "mag f w \<noteq> 0"
  shows "signed_val (neg f w) (up_val (unpack f w)) = real_of f w" "real_of f w \<noteq> 0"
  using assms unpack_finite(1) [of w] by (auto simp: finite_code_def signed_val_def real_of_def)

lemma real_of_zero: "mag f w = 0 \<Longrightarrow> real_of f w = 0"
  by (simp add: real_of_def)

lemma real_of_sign: "mag f w \<noteq> 0 \<Longrightarrow> real_of f w < 0 \<longleftrightarrow> neg f w" "\<bar>real_of f w\<bar> = fval f (mag f w)"
  using fval_pos [of "mag f w" f] by (cases "mag f w = 0"; auto simp: real_of_def)+

lemma exact_operand:
  assumes "finite_code f w" "mag f w \<noteq> 0"
  shows "rounded_result f rm (real_of f w < 0) \<bar>real_of f w\<bar> (w, 0)"
  using exact_result [OF sign_split] assms by (simp add: finite_code_def real_of_sign)

lemma exact_flipped:
  assumes "finite_code f w" "mag f w \<noteq> 0"
  shows "rounded_result f rm (- real_of f w < 0) \<bar>- real_of f w\<bar> (w XOR sign_bit f, 0)"
proof -
  have "- real_of f w < 0 \<longleftrightarrow> \<not> neg f w" using real_of_sign(1) [OF assms(2)] up_real(2) [OF assms] by auto
  then show ?thesis using exact_result [OF flip_sign] assms by (simp add: finite_code_def real_of_sign)
qed

lemma unpack_bounds:
  assumes "finite_code f w" "mag f w \<noteq> 0"
  shows "val128 (sig (unpack f w)) \<noteq> 0" "- (2 ^ 21) < exp2 (unpack f w)" "exp2 (unpack f w) < 2 ^ 21"
    "cls (unpack f w) = CLS_NORMAL"
  using assms unpack_finite [of w] unpack_normal(1) [of w] by (simp_all add: finite_code_def)

lemma unpack_cls: "finite_code f w \<Longrightarrow> cls (unpack f w) = (if mag f w = 0 then CLS_ZERO else CLS_NORMAL)"
  using unpack_zero unpack_bounds(4) by simp

lemma add_correct:
  fixes a b :: u64 and sub :: bool
  assumes "finite_code f a" "finite_code f b"
  defines "z \<equiv> real_of f a + (if sub then - real_of f b else real_of f b)"
  shows "if z = 0 then fp_add f a b sub rm =
      (make_zero f (if mag f a = 0 \<and> neg f a = (neg f b \<noteq> sub) then neg f a else rm = SF_RDN), 0)
    else rounded_result f rm (z < 0) \<bar>z\<bar> (fp_add f a b sub rm)"
proof -
  consider (both) "mag f a \<noteq> 0" "mag f b \<noteq> 0" | (left) "mag f a \<noteq> 0" "mag f b = 0"
    | (right) "mag f a = 0" "mag f b \<noteq> 0" | (none) "mag f a = 0" "mag f b = 0" by blast
  then show ?thesis
  proof cases
    case both
    have "signed_val (neg f b \<noteq> sub) (up_val (unpack f b)) = (if sub then - real_of f b else real_of f b)"
      using up_real(1) [OF assms(2) both(2)] by (auto simp: signed_val_def)
    then have z: "z = signed_val (neg f a) (up_val (unpack f a)) + signed_val (neg f b \<noteq> sub) (up_val (unpack f b))"
      unfolding z_def up_real(1) [OF assms(1) both(1)] by simp
    have "fp_add f a b sub rm = add_core f (neg f a) (sig (unpack f a)) (exp2 (unpack f a))
      (neg f b \<noteq> sub) (sig (unpack f b)) (exp2 (unpack f b)) rm"
      using unpack_bounds(4) [OF assms(1) both(1)] unpack_bounds(4) [OF assms(2) both(2)]
      by (cases sub) (simp_all add: fp_add_def Let_def unpack_sign)
    then show ?thesis
      using add_core_correct [of "sig (unpack f a)" "sig (unpack f b)" "exp2 (unpack f a)" "exp2 (unpack f b)" "neg f a" "neg f b \<noteq> sub" rm]
        unpack_bounds(1,2,3) [OF assms(1) both(1)] unpack_bounds(1,2,3) [OF assms(2) both(2)] both z
      unfolding up_val_def by auto
  next
    case left
    then show ?thesis
      using exact_operand [OF assms(1) left(1)] up_real(2) [OF assms(1) left(1)] unpack_bounds(4) [OF assms(1) left(1)]
        unpack_zero [OF left(2)] by (simp add: z_def real_of_zero fp_add_def Let_def)
  next
    case right
    then show ?thesis
      using exact_operand [OF assms(2) right(2)] exact_flipped [OF assms(2) right(2)] up_real(2) [OF assms(2) right(2)]
        unpack_bounds(4) [OF assms(2) right(2)] unpack_zero [OF right(1)]
      by (cases sub) (simp_all add: z_def real_of_zero fp_add_def Let_def)
  next
    case none
    then show ?thesis
      using unpack_zero [OF none(1)] unpack_zero [OF none(2)]
      by (cases sub) (auto simp: z_def real_of_zero fp_add_def Let_def unpack_sign)
  qed
qed

lemma product_sign:
  assumes "mag f a \<noteq> 0" "mag f b \<noteq> 0"
  shows "real_of f a * real_of f b \<noteq> 0" "real_of f a * real_of f b < 0 \<longleftrightarrow> neg f a \<noteq> neg f b"
    "\<bar>real_of f a * real_of f b\<bar> = fval f (mag f a) * fval f (mag f b)"
    "signed_val (neg f a \<noteq> neg f b) (fval f (mag f a) * fval f (mag f b)) = real_of f a * real_of f b"
  using fval_pos [of "mag f a" f] fval_pos [of "mag f b" f] assms
  by (auto simp: real_of_def signed_val_def abs_mult mult_less_0_iff)

lemma muladd_correct:
  fixes a b c :: u64
  assumes fin: "finite_code f a" "finite_code f b" "finite_code f c"
  defines "z \<equiv> real_of f a * real_of f b + real_of f c"
  shows "if z = 0 then fp_muladd f a b c rm =
      (make_zero f (if mag f c = 0 \<and> (neg f a \<noteq> neg f b) = neg f c then neg f c else rm = SF_RDN), 0)
    else rounded_result f rm (z < 0) \<bar>z\<bar> (fp_muladd f a b c rm)"
proof -
  have lt: "mag f a < inf_code f" "mag f b < inf_code f" using fin by (simp_all add: finite_code_def)
  consider (prod) "mag f a = 0 \<or> mag f b = 0" "mag f c = 0" | (addend) "mag f a = 0 \<or> mag f b = 0" "mag f c \<noteq> 0"
    | (mul) "mag f a \<noteq> 0" "mag f b \<noteq> 0" "mag f c = 0" | (all) "mag f a \<noteq> 0" "mag f b \<noteq> 0" "mag f c \<noteq> 0" by blast
  then show ?thesis
  proof cases
    case prod
    then show ?thesis
      using fin [THEN unpack_cls] by (auto simp: z_def real_of_zero fp_muladd_def Let_def unpack_sign)
  next
    case addend
    then have "z = real_of f c" "fp_muladd f a b c rm = (c, 0)"
      using fin [THEN unpack_cls] by (auto simp: z_def real_of_zero fp_muladd_def Let_def unpack_sign)
    then show ?thesis using exact_operand [OF fin(3) addend(2)] up_real(2) [OF fin(3) addend(2)] by simp
  next
    case mul
    note P = product_sign [OF mul(1,2)]
    have "fp_muladd f a b c rm = round_mag f (neg f a \<noteq> neg f b) (mul64 (lo (sig (unpack f a))) (lo (sig (unpack f b))))
      (exp2 (unpack f a) + exp2 (unpack f b)) False rm"
      using unpack_bounds(4) [OF fin(1) mul(1)] unpack_bounds(4) [OF fin(2) mul(2)] unpack_zero [OF mul(3)]
      by (simp add: fp_muladd_def Let_def unpack_sign)
    then show ?thesis
      using product_rounded [OF lt(1) mul(1) lt(2) mul(2), of rm "neg f a \<noteq> neg f b"] P mul(3) by (simp add: z_def real_of_zero)
  next
    case all
    note P = product_sign [OF all(1,2)] and V = product_val [OF lt(1) all(1) lt(2) all(2)]
    have "fp_muladd f a b c rm = add_core f (neg f a \<noteq> neg f b) (mul64 (lo (sig (unpack f a))) (lo (sig (unpack f b))))
      (exp2 (unpack f a) + exp2 (unpack f b)) (neg f c) (sig (unpack f c)) (exp2 (unpack f c)) rm"
      using unpack_bounds(4) [OF fin(1) all(1)] unpack_bounds(4) [OF fin(2) all(2)] unpack_bounds(4) [OF fin(3) all(3)]
      by (simp add: fp_muladd_def Let_def unpack_sign)
    moreover have "z = signed_val (neg f a \<noteq> neg f b) (fval f (mag f a) * fval f (mag f b)) + signed_val (neg f c) (up_val (unpack f c))"
      unfolding z_def P(4) up_real(1) [OF fin(3) all(3)] ..
    ultimately show ?thesis
      using add_core_correct [OF V(2) unpack_bounds(1) [OF fin(3) all(3)], of "exp2 (unpack f a) + exp2 (unpack f b)" "exp2 (unpack f c)"
          "neg f a \<noteq> neg f b" "neg f c" rm]
        unpack_bounds(2,3) [OF fin(1) all(1)] unpack_bounds(2,3) [OF fin(2) all(2)] unpack_bounds(2,3) [OF fin(3) all(3)] all
      unfolding up_val_def V(1) by auto
  qed
qed

lemma leading:
  assumes "finite_code f w" "mag f w \<noteq> 0"
  defines "u \<equiv> unpack f w"
  defines "l \<equiv> exp2 u + msb128 (sig u)"
  shows "2 powi l \<le> fval f (mag f w)" "fval f (mag f w) < 2 powi (l + 1)" "- 100000 < l"
    "fval f (mag f w) = real (val128 (shl128 (sig u) (127 - msb128 (sig u)))) * 2 powi (l - 127)"
proof -
  note U = unpack_bounds [OF assms(1,2), folded u_def]
  have v: "fval f (mag f w) = real (val128 (sig u)) * 2 powi exp2 u"
    using unpack_finite(1) [of w] assms(1,2) by (simp add: finite_code_def up_val_def u_def)
  define mb where "mb = nat (msb128 (sig u))"
  have mb: "msb128 (sig u) = int mb" "mb \<le> 127" "2 ^ mb \<le> val128 (sig u)" "val128 (sig u) < 2 ^ (mb + 1)"
    using msb128_val [OF U(1)] by (simp_all add: mb_def nat_le_iff)
  have "real (2 ^ mb) \<le> real (val128 (sig u))" "real (val128 (sig u)) < real (2 ^ (mb + 1))"
    using mb(3,4) by (simp_all only: of_nat_le_iff of_nat_less_iff)
  then have b: "2 ^ mb * 2 powi exp2 u \<le> fval f (mag f w)" "fval f (mag f w) < 2 ^ (mb + 1) * 2 powi exp2 u"
    unfolding v by simp_all
  have p: "(2 :: real) powi l = 2 ^ mb * 2 powi exp2 u" "(2 :: real) powi (l + 1) = 2 ^ (mb + 1) * 2 powi exp2 u"
    using powi_split [of l mb] powi_split [of "l + 1" "mb + 1"] by (simp_all add: l_def mb(1))
  show "2 powi l \<le> fval f (mag f w)" "fval f (mag f w) < 2 powi (l + 1)" unfolding p by (rule b)+
  have "- 100000 < exp2 u"
    using unpack_normal(4) [of w] assms(1,2) bias_bound bounds by (simp add: finite_code_def u_def max_def)
  then show "- 100000 < l" by (simp add: l_def mb(1))
  define k where "k = 127 - mb"
  have k: "127 - msb128 (sig u) = int k" "mb + 1 + k = 128" using mb(1,2) by (simp_all add: k_def)
  have "val128 (sig u) * 2 ^ k < 2 ^ (mb + 1) * 2 ^ k" using mb(4) by simp
  then have "val128 (sig u) * 2 ^ k < 2 ^ 128" unfolding power_add [symmetric] k(2) .
  then have "val128 (shl128 (sig u) (int k)) = val128 (sig u) * 2 ^ k" using shl128_exact [of "int k" "sig u"] k by simp
  moreover have "l - 127 = exp2 u - int k" using k(1) by (simp add: l_def)
  ultimately show "fval f (mag f w) = real (val128 (shl128 (sig u) (127 - msb128 (sig u)))) * 2 powi (l - 127)"
    unfolding k(1) v using powi_split [of "exp2 u" k] by simp
qed

lemma magnitude_order:
  assumes "finite_code f a" "finite_code f b" "mag f a \<noteq> 0 \<or> mag f b \<noteq> 0"
  defines "ua \<equiv> unpack f a" and "ub \<equiv> unpack f b"
  defines "la \<equiv> exp2 ua + (if cls ua = CLS_ZERO then - 100000 else msb128 (sig ua))"
  defines "lb \<equiv> exp2 ub + (if cls ub = CLS_ZERO then - 100000 else msb128 (sig ub))"
  shows "(if la \<noteq> lb then (if la < lb then - 1 else 1)
    else cmp128 (shl128 (sig ua) (127 - msb128 (sig ua))) (shl128 (sig ub) (127 - msb128 (sig ub)))) =
    order_of (fval f (mag f a)) (fval f (mag f b))"
proof -
  have z: "mag f w = 0 \<Longrightarrow> exp2 (unpack f w) = 0" for w
    using unpack_fields [of w] mag_parts [of w] by (simp add: unpack_def Let_def word_eq_unat)
  have A: "la = (if mag f a = 0 then - 100000 else exp2 ua + msb128 (sig ua))" "- 100000 \<le> la"
    using unpack_cls [OF assms(1)] z [of a] leading(3) [OF assms(1)] by (auto simp: la_def ua_def)
  have B: "lb = (if mag f b = 0 then - 100000 else exp2 ub + msb128 (sig ub))" "- 100000 \<le> lb"
    using unpack_cls [OF assms(2)] z [of b] leading(3) [OF assms(2)] by (auto simp: lb_def ub_def)
  have strict: "fval f (mag f v) < fval f (mag f w)"
    if "finite_code f v" "finite_code f w" "mag f w \<noteq> 0" "mag f v = 0 \<or> exp2 (unpack f v) + msb128 (sig (unpack f v)) < exp2 (unpack f w) + msb128 (sig (unpack f w))" for v w
  proof (cases "mag f v = 0")
    case True
    then show ?thesis using fval_pos [of "mag f w" f] that(3) by simp
  next
    case False
    then have "(2 :: real) powi (exp2 (unpack f v) + msb128 (sig (unpack f v)) + 1) \<le> 2 powi (exp2 (unpack f w) + msb128 (sig (unpack f w)))"
      using that(4) by (intro power_int_increasing) simp_all
    then show ?thesis using leading(2) [OF that(1) False] leading(1) [OF that(2,3)] by linarith
  qed
  consider (lt) "la < lb" | (gt) "lb < la" | (eq) "la = lb" by linarith
  then show ?thesis
  proof cases
    case lt
    then have "fval f (mag f a) < fval f (mag f b)"
      using A B strict [OF assms(1,2)] by (auto simp: ua_def ub_def split: if_splits)
    then show ?thesis using lt by (simp add: order_of_def)
  next
    case gt
    then have "fval f (mag f b) < fval f (mag f a)"
      using A B strict [OF assms(2,1)] by (auto simp: ua_def ub_def split: if_splits)
    then show ?thesis using gt by (simp add: order_of_def)
  next
    case eq
    then have nz: "mag f a \<noteq> 0" "mag f b \<noteq> 0"
      using A B assms(3) leading(3) [OF assms(1)] leading(3) [OF assms(2)] by (auto simp: ua_def ub_def split: if_splits)
    define c :: real where "c = 2 powi (la - 127)"
    have "0 < c" "fval f (mag f a) = real (val128 (shl128 (sig ua) (127 - msb128 (sig ua)))) * c"
      "fval f (mag f b) = real (val128 (shl128 (sig ub) (127 - msb128 (sig ub)))) * c"
      using leading(4) [OF assms(1) nz(1)] leading(4) [OF assms(2) nz(2)] A(1) B(1) nz eq by (simp_all add: c_def ua_def ub_def)
    then show ?thesis using eq by (simp add: order_of_def cmp128_val)
  qed
qed

lemma fcmp_correct:
  assumes fin: "finite_code f a" "finite_code f b"
  shows "fcmp f a b = order_of (real_of f a) (real_of f b)"
proof (cases "mag f a = 0 \<and> mag f b = 0")
  case True
  then show ?thesis using fin [THEN unpack_cls] by (simp add: fcmp_def Let_def real_of_zero order_of_def)
next
  case False
  then have nz: "mag f a \<noteq> 0 \<or> mag f b \<noteq> 0" by simp
  have pos: "0 \<le> fval f (mag f a)" "0 \<le> fval f (mag f b)" "fval f (mag f a) \<noteq> 0 \<or> fval f (mag f b) \<noteq> 0"
    using nz fval_le_iff [of f 0 "mag f a"] fval_le_iff [of f 0 "mag f b"] by simp_all
  have c: "cls (unpack f a) \<noteq> CLS_INF" "cls (unpack f b) \<noteq> CLS_INF" "\<not> (cls (unpack f a) = CLS_ZERO \<and> cls (unpack f b) = CLS_ZERO)"
    using fin [THEN unpack_cls] nz by auto
  have "fcmp f a b = (if neg f a \<noteq> neg f b then if neg f a then - 1 else 1
    else if neg f a then - order_of (fval f (mag f a)) (fval f (mag f b)) else order_of (fval f (mag f a)) (fval f (mag f b)))"
    unfolding fcmp_def Let_def unpack_sign magnitude_order [OF fin nz, symmetric] using c by simp
  also have "\<dots> = order_of (real_of f a) (real_of f b)"
  proof -
    have "(if p \<noteq> q then if p then - 1 else 1 else if p then - order_of x y else order_of x y) =
      order_of (if p then - x else x) (if q then - y else y)" if "0 \<le> x" "0 \<le> y" "x \<noteq> 0 \<or> y \<noteq> 0" for p q and x y :: real
      using that by (auto simp: order_of_def)
    then show ?thesis unfolding real_of_def using pos by blast
  qed
  finally show ?thesis .
qed

lemma mul_result:
  assumes fin: "finite_code f a" "finite_code f b"
  shows "ieee_result f rm (real_of f a * real_of f b) (neg f a \<noteq> neg f b) (fp_mul f a b rm)"
proof (cases "mag f a = 0 \<or> mag f b = 0")
  case True
  then show ?thesis
    using fin [THEN unpack_cls] by (auto simp: ieee_result_def real_of_zero fp_mul_def Let_def unpack_sign)
next
  case False
  then show ?thesis
    using mul_correct [of a b rm] product_sign [of a b] fin by (simp add: ieee_result_def finite_code_def)
qed

lemma div_result:
  assumes fin: "finite_code f a" "finite_code f b" and b: "mag f b \<noteq> 0"
  shows "ieee_result f rm (real_of f a / real_of f b) (neg f a \<noteq> neg f b) (fp_div f a b rm)"
proof (cases "mag f a = 0")
  case True
  then show ?thesis
    using fin [THEN unpack_cls] b by (auto simp: ieee_result_def real_of_zero fp_div_def Let_def unpack_sign)
next
  case False
  have "real_of f a / real_of f b \<noteq> 0" "real_of f a / real_of f b < 0 \<longleftrightarrow> neg f a \<noteq> neg f b"
    "\<bar>real_of f a / real_of f b\<bar> = fval f (mag f a) / fval f (mag f b)"
    using fval_pos [of "mag f a" f] fval_pos [of "mag f b" f] False b by (auto simp: real_of_def abs_divide divide_less_0_iff)
  then show ?thesis
    using div_correct [of a b rm] False b fin by (simp add: ieee_result_def finite_code_def)
qed

lemma zero_code:
  assumes "finite_code f a" "mag f a = 0"
  shows "a = make_zero f (neg f a)"
proof -
  have "unat (make_zero f (neg f a)) = sign_code f (neg f a)"
    using unat_bit [of "width f - 1"] bounds by (simp add: make_zero_def sign_bit_def sign_code_def)
  then show ?thesis using sign_split [of a] assms by (simp add: word_eq_unat finite_code_def)
qed

lemma sqrt_result:
  assumes fin: "finite_code f a" and "mag f a = 0 \<or> \<not> neg f a"
  shows "ieee_result f rm (sqrt (real_of f a)) (neg f a) (fp_sqrt f a rm)"
proof (cases "mag f a = 0")
  case True
  then show ?thesis
    using unpack_cls [OF fin] zero_code [OF fin True] by (simp add: ieee_result_def real_of_zero fp_sqrt_def Let_def)
next
  case False
  then show ?thesis
    using sqrt_correct [of a rm] fval_pos [of "mag f a" f] assms by (simp add: ieee_result_def finite_code_def real_of_def)
qed

end

subsection \<open>The operations are correctly rounded\<close>

text \<open>
  C14: Addition and subtraction of finite numbers, in both formats and in every rounding mode, return the
  exact sum rounded once.
\<close>

theorem fp_add_rounded:
  assumes "f \<in> {F32, F64}" "finite_code f a" "finite_code f b"
  shows "ieee_result f rm (real_of f a + (if sub then - real_of f b else real_of f b))
    (if mag f a = 0 \<and> neg f a = (neg f b \<noteq> sub) then neg f a else rm = SF_RDN) (fp_add f a b sub rm)"
  using b32.add_correct [where a = a and b = b and sub = sub and rm = rm] b64.add_correct [where a = a and b = b and sub = sub and rm = rm] assms unfolding ieee_result_def by blast

lemmas finite_evals = finite_code_def mag_def neg_def inf_code_def F32_def F64_def

theorem fp_add_rounded_witness:
  "finite_code F32 0x3f800000 \<and> finite_code F32 0xb3800000 \<and>
   ieee_result F32 SF_RNE (real_of F32 0x3f800000 + real_of F32 0xb3800000) False (fp_add F32 0x3f800000 0xb3800000 False SF_RNE)"
  using fp_add_rounded [of F32 "0x3f800000" "0xb3800000" SF_RNE False] by (simp add: finite_evals)

text \<open>
  C15: Multiplication of finite numbers returns the exact product rounded once; a zero product has the
  sign of the product.
\<close>

theorem fp_mul_rounded:
  assumes "f \<in> {F32, F64}" "finite_code f a" "finite_code f b"
  shows "ieee_result f rm (real_of f a * real_of f b) (neg f a \<noteq> neg f b) (fp_mul f a b rm)"
  using b32.mul_result b64.mul_result assms by blast

theorem fp_mul_rounded_witness:
  "finite_code F64 0x3ff0000000000001 \<and>
   ieee_result F64 SF_RUP (real_of F64 0x3ff0000000000001 * real_of F64 0x3ff0000000000001) False
     (fp_mul F64 0x3ff0000000000001 0x3ff0000000000001 SF_RUP)"
  using fp_mul_rounded [of F64 "0x3ff0000000000001" "0x3ff0000000000001" SF_RUP] by (simp add: finite_evals)

text \<open>
  C16: Division of finite numbers by a nonzero one returns the exact quotient rounded once.
\<close>

theorem fp_div_rounded:
  assumes "f \<in> {F32, F64}" "finite_code f a" "finite_code f b" "mag f b \<noteq> 0"
  shows "ieee_result f rm (real_of f a / real_of f b) (neg f a \<noteq> neg f b) (fp_div f a b rm)"
  using b32.div_result b64.div_result assms by blast

theorem fp_div_rounded_witness:
  "finite_code F32 0x3f800000 \<and> finite_code F32 0x40400000 \<and> mag F32 0x40400000 \<noteq> 0 \<and>
   ieee_result F32 SF_RNE (real_of F32 0x3f800000 / real_of F32 0x40400000) False (fp_div F32 0x3f800000 0x40400000 SF_RNE)"
  using fp_div_rounded [of F32 "0x3f800000" "0x40400000" SF_RNE] by (simp add: finite_evals)

text \<open>
  C17: The square root of a finite number that is zero or positive is the exact root rounded once; the
  root of a zero is that zero.
\<close>

theorem fp_sqrt_rounded:
  assumes "f \<in> {F32, F64}" "finite_code f a" "mag f a = 0 \<or> \<not> neg f a"
  shows "ieee_result f rm (sqrt (real_of f a)) (neg f a) (fp_sqrt f a rm)"
  using b32.sqrt_result b64.sqrt_result assms by blast

theorem fp_sqrt_rounded_witness:
  "finite_code F64 0x4000000000000000 \<and>
   ieee_result F64 SF_RNE (sqrt (real_of F64 0x4000000000000000)) False (fp_sqrt F64 0x4000000000000000 SF_RNE)"
  using fp_sqrt_rounded [of F64 "0x4000000000000000" SF_RNE] by (simp add: finite_evals)

text \<open>
  C18: The fused multiply-add of finite numbers rounds the exact value of the product plus the addend
  once: there is no intermediate rounding.
\<close>

theorem fp_muladd_rounded:
  assumes "f \<in> {F32, F64}" "finite_code f a" "finite_code f b" "finite_code f c"
  shows "ieee_result f rm (real_of f a * real_of f b + real_of f c)
    (if mag f c = 0 \<and> (neg f a \<noteq> neg f b) = neg f c then neg f c else rm = SF_RDN) (fp_muladd f a b c rm)"
  using b32.muladd_correct [of a b c rm] b64.muladd_correct [of a b c rm] assms unfolding ieee_result_def by blast

theorem fp_muladd_rounded_witness:
  "finite_code F32 0x3f800001 \<and> finite_code F32 0xbf800002 \<and>
   ieee_result F32 SF_RNE (real_of F32 0x3f800001 * real_of F32 0x3f800001 + real_of F32 0xbf800002) False
     (fp_muladd F32 0x3f800001 0x3f800001 0xbf800002 SF_RNE)"
  using fp_muladd_rounded [of F32 "0x3f800001" "0x3f800001" "0xbf800002" SF_RNE] by (simp add: finite_evals)

text \<open>
  C19: The comparisons of finite numbers compare their values, without raising a flag: the two zeros are
  equal and subnormal numbers are ordered with the others.
\<close>

theorem fp_compare_finite:
  assumes "f \<in> {F32, F64}" "finite_code f a" "finite_code f b"
  shows "fp_eq f a b = (real_of f a = real_of f b, 0) \<and> fp_lt f a b = (real_of f a < real_of f b, 0) \<and>
    fp_le f a b = (real_of f a \<le> real_of f b, 0)"
proof -
  have "cls (unpack f a) \<noteq> CLS_NAN" "cls (unpack f b) \<noteq> CLS_NAN"
    using assms b32.unpack_cls b64.unpack_cls by (auto split: if_splits)
  moreover have "fcmp f a b = order_of (real_of f a) (real_of f b)"
    using assms b32.fcmp_correct b64.fcmp_correct by blast
  ultimately show ?thesis
    by (auto simp: fp_eq_def fp_lt_def fp_le_def Let_def order_of_def)
qed

theorem fp_compare_finite_witness:
  "finite_code F32 0x00000001 \<and> finite_code F32 0x80000000 \<and>
   fp_lt F32 0x80000000 0x00000001 = (real_of F32 0x80000000 < real_of F32 0x00000001, 0)"
  using fp_compare_finite [of F32 "0x80000000" "0x00000001"] by (simp add: finite_evals)

end
