(* ===== verification/Softfloat_Int.thy ===== *)
theory Softfloat_Int
  imports Softfloat_Props
begin

text \<open>
  Conversions between floating point and integers (\<open>fp_to_int\<close>, \<open>int_to_fp\<close> of \<open>src/src/softfloat.c\<close>): a
  finite number is rounded to an integer in the given mode and clamped to the range of the target
  type, and an integer converts to the nearest representable number.
\<close>

definition rounds_int :: "u32 \<Rightarrow> bool \<Rightarrow> real \<Rightarrow> nat \<Rightarrow> bool" where
  "rounds_int rm s x n \<longleftrightarrow>
     (\<exists>k. real k \<le> x \<and> x < real k + 1 \<and> n = k + of_bool (away rm s (x - real k) (real k + 1 - x) (odd k)))"

definition int_result :: "bool \<Rightarrow> nat \<Rightarrow> u32 \<Rightarrow> bool \<Rightarrow> real \<Rightarrow> u64 \<times> u32 \<Rightarrow> bool" where
  "int_result sgd bits rm s x r \<longleftrightarrow>
     (\<exists>n. rounds_int rm s x n \<and>
        (let v = (if s then - int n else int n);
             low = (if sgd then - (2 ^ (bits - 1)) else 0);
             high = (if sgd then 2 ^ (bits - 1) - 1 else 2 ^ bits - 1)
         in uint (fst r) = max low (min v high) mod 2 ^ bits \<and>
            snd r = (if v < low \<or> high < v then SF_NV else if x = real n then 0 else SF_NX)))"

definition clamp_int :: "bool \<Rightarrow> nat \<Rightarrow> bool \<Rightarrow> u64 \<times> bool \<times> bool \<Rightarrow> u64 \<times> u32" where
  "clamp_int sgd bits s m =
     (let allbits = (if bits \<ge> 64 then - 1 else shl 1 bits - 1);
          maxpos = (if sgd then shl 1 (bits - 1) - 1 else allbits);
          minneg = (if sgd then shl 1 (bits - 1) else 0);
          (mag, overflow, inexact) = m;
          nx = (if inexact then SF_NX else 0)
      in if s then
           (if overflow \<or> mag > minneg then (minneg, SF_NV)
            else if \<not> sgd \<and> mag \<noteq> 0 then (0, SF_NV)
            else (- mag AND allbits, nx))
         else if overflow \<or> mag > maxpos then (maxpos, SF_NV)
         else (mag, nx))"

subsection \<open>Rounding to an integer\<close>

lemma rounds_int_exact: "rounds_int rm s (real n) n"
  by (auto simp: rounds_int_def away_def intro!: exI [of _ n])

lemma rounds_int_unique: "rounds_int rm s x n \<Longrightarrow> rounds_int rm s x n' \<Longrightarrow> n = n'"
proof -
  assume "rounds_int rm s x n" "rounds_int rm s x n'"
  then obtain k k' where k: "real k \<le> x" "x < real k + 1" "real k' \<le> x" "x < real k' + 1"
    and n: "n = k + of_bool (away rm s (x - real k) (real k + 1 - x) (odd k))"
      "n' = k' + of_bool (away rm s (x - real k') (real k' + 1 - x) (odd k'))"
    unfolding rounds_int_def by blast
  have "k = k'" using k by linarith
  then show "n = n'" using n by simp
qed

lemma rounds_int_shift:
  fixes v d :: nat
  assumes "0 < d"
  defines "q \<equiv> v div 2 ^ d" and "r \<equiv> v mod 2 ^ d" and "h \<equiv> 2 ^ (d - 1)"
  shows "rounds_int rm s (real v / 2 ^ d)
    (q + of_bool (if rm = SF_RNE then h < r \<or> h = r \<and> odd q else if rm = SF_RMM then h \<le> r else rm = (if s then SF_RDN else SF_RUP) \<and> r \<noteq> 0))"
    "real v / 2 ^ d = real (q + of_bool (if rm = SF_RNE then h < r \<or> h = r \<and> odd q else if rm = SF_RMM then h \<le> r else rm = (if s then SF_RDN else SF_RUP) \<and> r \<noteq> 0)) \<longleftrightarrow> r = 0"
proof -
  define D :: real where "D = 2 ^ d"
  have D: "0 < D" by (simp add: D_def)
  define x where "x = real v / D"
  note A = away_parts [OF jam_exact [of "d - 1" v] assms(1), of rm s, folded q_def r_def h_def D_def]
  have sc: "real v - real q * D = (x - real q) * D" "(real q + 1) * D - real v = (real q + 1 - x) * D"
    using D by (simp_all add: x_def left_diff_distrib)
  note A' = A [unfolded sc away_scale [OF D]]
  have fl: "real q \<le> x" "x < real q + 1" "x = real q \<longleftrightarrow> r = 0"
    using floor_div [of v "real v" "2 ^ d"] by (simp_all add: x_def D_def q_def r_def)
  show "rounds_int rm s (real v / 2 ^ d)
    (q + of_bool (if rm = SF_RNE then h < r \<or> h = r \<and> odd q else if rm = SF_RMM then h \<le> r else rm = (if s then SF_RDN else SF_RUP) \<and> r \<noteq> 0))"
    unfolding A' [symmetric] D_def [symmetric] x_def [symmetric] rounds_int_def using fl by blast
  show "real v / 2 ^ d = real (q + of_bool (if rm = SF_RNE then h < r \<or> h = r \<and> odd q else if rm = SF_RMM then h \<le> r else rm = (if s then SF_RDN else SF_RUP) \<and> r \<noteq> 0)) \<longleftrightarrow> r = 0"
    unfolding A' [symmetric] D_def [symmetric] x_def [symmetric] using fl by (auto simp: away_def)
qed

lemma round_bits:
  fixes v d :: nat
  assumes "0 < d"
  defines "rb \<equiv> odd (v div 2 ^ (d - 1))" and "st \<equiv> v mod 2 ^ (d - 1) \<noteq> 0"
  shows "v mod 2 ^ d \<noteq> 0 \<longleftrightarrow> rb \<or> st" "2 ^ (d - 1) \<le> v mod 2 ^ d \<longleftrightarrow> rb" "2 ^ (d - 1) = v mod 2 ^ d \<longleftrightarrow> rb \<and> \<not> st"
proof -
  define h :: nat where "h = 2 ^ (d - 1)"
  have d: "(2 :: nat) ^ d = h * 2" "0 < h" using assms(1) by (simp_all add: h_def flip: power_Suc2)
  have m: "v mod 2 ^ d = h * of_bool rb + v mod h"
    unfolding d(1) mod_mult2_eq rb_def h_def [symmetric] by (simp add: mod_2_eq_odd)
  define t where "t = v mod h"
  have "t < h" using d(2) by (simp add: t_def)
  then show "v mod 2 ^ d \<noteq> 0 \<longleftrightarrow> rb \<or> st" "2 ^ (d - 1) \<le> v mod 2 ^ d \<longleftrightarrow> rb" "2 ^ (d - 1) = v mod 2 ^ d \<longleftrightarrow> rb \<and> \<not> st"
    unfolding m st_def h_def [symmetric] t_def [symmetric] using d(2) by auto
qed

lemma small_shift: "v < 2 ^ 64 \<Longrightarrow> 64 \<le> k \<Longrightarrow> v div 2 ^ k = 0 \<and> v mod 2 ^ k = v" for v k :: nat
  using power_increasing [of 64 k "2 :: nat"] by simp

lemma to_int_mag_right:
  fixes sg :: u64 and d :: nat
  assumes "sg \<noteq> 0" "0 < d" "to_int_mag sg (- int d) s rm = (mg, ov, nx)"
  shows "\<not> ov" "rounds_int rm s (real (unat sg) / 2 ^ d) (unat mg)" "nx \<longleftrightarrow> real (unat sg) / 2 ^ d \<noteq> real (unat mg)"
proof -
  define v where "v = unat sg"
  define rb where "rb = odd (v div 2 ^ (d - 1))"
  define st where "st = (v mod 2 ^ (d - 1) \<noteq> 0)"
  define F where "F = (if int d \<ge> 64 then 0 else shr sg (nat (int d)))"
  define i where "i = (if rm = SF_RNE then rb \<and> (st \<or> F AND 1 \<noteq> 0) else if rm = SF_RTZ then False else if rm = SF_RDN then s \<and> (rb \<or> st)
    else if rm = SF_RUP then \<not> s \<and> (rb \<or> st) else if rm = SF_RMM then rb else False)"
  have v: "v < 2 ^ 64" "v \<noteq> 0" using unat_bound [of sg] assms(1) by (simp_all add: v_def word_eq_unat)
  have q: "unat F = v div 2 ^ d"
    using small_shift [OF v(1), of d] by (simp add: F_def unat_shr v_def)
  have r1: "(if int d \<ge> 1 \<and> int d \<le> 64 then shr sg (nat (int d - 1)) AND 1 \<noteq> 0 else False) = rb"
  proof -
    have "unat (shr sg (d - 1) AND 1) = v div 2 ^ (d - 1) mod 2"
      using unat_low_mask [of 1 "shr sg (d - 1)"] by (simp add: shl_def unat_shr v_def)
    moreover have "nat (int d - 1) = d - 1" by simp
    ultimately show ?thesis using assms(2) small_shift [OF v(1), of "d - 1"] by (auto simp: rb_def word_eq_unat odd_iff_mod_2_eq_one)
  qed
  have r2: "(sg AND (if int d - 1 \<ge> 64 then - 1 else if int d \<ge> 1 then shl 1 (nat (int d - 1)) - 1 else 0) \<noteq> 0) = st"
  proof -
    have "nat (int d - 1) = d - 1" by simp
    then show ?thesis
      using assms(1,2) v low_mask_zero [of "d - 1" sg] small_shift [OF v(1), of "d - 1"] by (cases "d - 1 < 64") (auto simp: st_def v_def)
  qed
  have m: "mg = F + of_flag i" "\<not> ov" "nx \<longleftrightarrow> rb \<or> st"
    using assms unfolding to_int_mag_def Let_def minus_minus r1 r2 F_def [symmetric] i_def [symmetric] by auto
  have o: "F AND 1 \<noteq> 0 \<longleftrightarrow> odd (v div 2 ^ d)"
    using unat_low_mask [of 1 F] by (simp add: shl_def q word_eq_unat odd_iff_mod_2_eq_one)
  note b = round_bits [OF assms(2), of v, folded rb_def st_def]
  have i: "i \<longleftrightarrow> (if rm = SF_RNE then 2 ^ (d - 1) < v mod 2 ^ d \<or> 2 ^ (d - 1) = v mod 2 ^ d \<and> odd (v div 2 ^ d)
    else if rm = SF_RMM then 2 ^ (d - 1) \<le> v mod 2 ^ d else rm = (if s then SF_RDN else SF_RUP) \<and> v mod 2 ^ d \<noteq> 0)"
    unfolding i_def o b order_less_le by auto
  have "v div 2 ^ d \<le> v div 2 ^ 1" using assms(2) by (intro div_le_mono2 power_increasing) simp_all
  then have "unat mg = v div 2 ^ d + of_bool i"
    using v(1) q by (cases i) (simp_all add: m(1) of_flag_def unat_word_ariths)
  then show "\<not> ov" "rounds_int rm s (real (unat sg) / 2 ^ d) (unat mg)" "nx \<longleftrightarrow> real (unat sg) / 2 ^ d \<noteq> real (unat mg)"
    using m(2,3) rounds_int_shift [OF assms(2), where rm = rm and s = s and v = v] unfolding v_def [symmetric] i [symmetric] b(1) [symmetric] by simp_all
qed

lemma to_int_mag_left:
  fixes sg :: u64 and k :: nat
  assumes "sg \<noteq> 0" "to_int_mag sg (int k) s rm = (mg, ov, nx)"
  shows "ov \<longleftrightarrow> 2 ^ 64 \<le> unat sg * 2 ^ k" "\<not> ov \<Longrightarrow> unat mg = unat sg * 2 ^ k" "\<not> nx"
proof -
  define t where "t = nat (63 - clz64 sg)"
  have t: "63 - clz64 sg = int t" "2 ^ t \<le> unat sg" "unat sg < 2 ^ (t + 1)"
    using msb64_val [OF assms(1)] by (simp_all add: t_def)
  have e: "(mg, ov, nx) = (if int t + int k > 63 then (0, True, False) else (shl sg k, False, False))"
    using assms unfolding to_int_mag_def t(1) Let_def by (auto split: if_splits)
  have ge: "2 ^ (t + k) \<le> unat sg * 2 ^ k" using t(2) by (simp add: power_add)
  have lt: "unat sg * 2 ^ k < 2 ^ (t + 1 + k)" using t(3) by (simp add: power_add)
  have "2 ^ 64 \<le> unat sg * 2 ^ k \<longleftrightarrow> 63 < t + k"
  proof (cases "63 < t + k")
    case True
    then have "(2 :: nat) ^ 64 \<le> 2 ^ (t + k)" by (intro power_increasing) simp_all
    then show ?thesis using True ge by simp
  next
    case False
    then have "(2 :: nat) ^ (t + 1 + k) \<le> 2 ^ 64" by (intro power_increasing) simp_all
    then show ?thesis using False lt by simp
  qed
  then show "ov \<longleftrightarrow> 2 ^ 64 \<le> unat sg * 2 ^ k" "\<not> ov \<Longrightarrow> unat mg = unat sg * 2 ^ k" "\<not> nx"
    using e by (auto simp: unat_shl not_le split: if_splits)
qed

lemma to_int_mag_val:
  assumes "sg \<noteq> 0" "to_int_mag sg e2 s rm = (mg, ov, nx)"
  defines "x \<equiv> real (unat sg) * 2 powi e2"
  shows "\<exists>n. rounds_int rm s x n \<and> (if ov then 2 ^ 64 \<le> n else n = unat mg \<and> (nx \<longleftrightarrow> x \<noteq> real n))"
proof (cases "0 \<le> e2")
  case True
  define k where "k = nat e2"
  have "e2 = int k" using True by (simp add: k_def)
  then have x: "x = real (unat sg * 2 ^ k)" and m: "to_int_mag sg (int k) s rm = (mg, ov, nx)"
    using assms(2) by (simp_all add: x_def)
  show ?thesis
    using to_int_mag_left [OF assms(1) m] rounds_int_exact [of rm s "unat sg * 2 ^ k"] unfolding x
    by (intro exI [of _ "unat sg * 2 ^ k"]) auto
next
  case False
  define d where "d = nat (- e2)"
  have d: "e2 = - int d" "0 < d" using False by (simp_all add: d_def)
  then have x: "x = real (unat sg) / 2 ^ d" and m: "to_int_mag sg (- int d) s rm = (mg, ov, nx)"
    using assms(2) by (simp_all add: x_def power_int_minus divide_inverse)
  show ?thesis
    using to_int_mag_right [OF assms(1) d(2) m] unfolding x by auto
qed

lemma neg_masked: "uint (- w AND 0xffffffff) = - uint w mod 2 ^ 32" "uint (- w) = - uint w mod 2 ^ 64" for w :: u64
proof -
  show u: "uint (- w) = - uint w mod 2 ^ 64" by (simp add: uint_word_ariths)
  have m: "(0xffffffff :: u64) = mask 32" by (simp add: mask_eq_exp_minus_1)
  have "uint (- w AND 0xffffffff) = uint (take_bit 32 (- w))" unfolding m take_bit_eq_mask ..
  also have "\<dots> = uint (- w) mod 2 ^ 32" unfolding unsigned_take_bit_eq by (simp add: take_bit_eq_mod)
  also have "\<dots> = - uint w mod 2 ^ 32" unfolding u by (rule mod_mod_cancel) simp
  finally show "uint (- w AND 0xffffffff) = - uint w mod 2 ^ 32" .
qed

lemma clamp_int_correct:
  assumes bits: "bits = 32 \<or> bits = 64" and n: "rounds_int rm s x n"
    and m: "if ov then 2 ^ 64 \<le> n else n = unat mg \<and> (nx \<longleftrightarrow> x \<noteq> real n)"
  shows "int_result sgd bits rm s x (clamp_int sgd bits s (mg, ov, nx))"
proof -
  define ab :: u64 where "ab = (if bits \<ge> 64 then - 1 else shl 1 bits - 1)"
  define mp where "mp = (if sgd then shl 1 (bits - 1) - 1 else ab)"
  define mn :: u64 where "mn = (if sgd then shl 1 (bits - 1) else 0)"
  define L :: int where "L = (if sgd then 2 ^ (bits - 1) else 0)"
  define H :: int where "H = (if sgd then 2 ^ (bits - 1) - 1 else 2 ^ bits - 1)"
  define M :: int where "M = 2 ^ bits"
  have m1: "uint (- 1 :: u64) = 18446744073709551615" by (simp add: uint_word_ariths)
  have w: "uint mn = L" "uint mp = H" "uint (- mg AND ab) = - uint mg mod M"
    using bits neg_masked [of mg] by (auto simp: mn_def mp_def ab_def L_def H_def M_def m1 shl_def)
  have lh: "- L mod M = L" "0 \<le> L" "0 \<le> H" "H < M" "L \<le> 2 ^ 63" "H < 2 ^ 64" "\<not> sgd \<longrightarrow> L = 0"
    using bits by (auto simp: L_def H_def M_def)
  define v where "v = (if s then - int n else int n)"
  have r: "clamp_int sgd bits s (mg, ov, nx) =
    (if s then if ov \<or> mn < mg then (mn, SF_NV) else if \<not> sgd \<and> mg \<noteq> 0 then (0, SF_NV) else (- mg AND ab, if nx then SF_NX else 0)
     else if ov \<or> mp < mg then (mp, SF_NV) else (mg, if nx then SF_NX else 0))"
    unfolding clamp_int_def Let_def prod.case ab_def [symmetric] mp_def [symmetric] mn_def [symmetric] ..
  have "uint (fst (clamp_int sgd bits s (mg, ov, nx))) = max (- L) (min v H) mod M \<and>
    snd (clamp_int sgd bits s (mg, ov, nx)) = (if v < - L \<or> H < v then SF_NV else if x = real n then 0 else SF_NX)"
  proof (cases ov)
    case True
    then have "2 ^ 64 \<le> int n" using m by simp
    then show ?thesis unfolding r using True lh w by (cases s) (auto simp: v_def)
  next
    case False
    then have n: "int n = uint mg" and nx: "nx \<longleftrightarrow> x \<noteq> real n" using m by simp_all
    have c: "mn < mg \<longleftrightarrow> L < int n" "mp < mg \<longleftrightarrow> H < int n" "mg \<noteq> 0 \<longleftrightarrow> int n \<noteq> 0"
      unfolding word_less_def w n by (simp_all add: uint_0_iff)
    show ?thesis
      unfolding r c using False lh w nx n by (cases s; cases "L < int n"; cases "H < int n") (auto simp: v_def)
  qed
  then show ?thesis
    unfolding int_result_def Let_def v_def L_def H_def M_def using \<open>rounds_int rm s x n\<close> by (intro exI [of _ n]) (auto split: if_splits)
qed

lemma fp_to_int_clamp:
  assumes "cls (unpack f a) = CLS_NORMAL"
  shows "fp_to_int f a sgd bits rm = clamp_int sgd bits (sgn_of (unpack f a))
    (to_int_mag (lo (sig (unpack f a))) (exp2 (unpack f a)) (sgn_of (unpack f a)) rm)"
  using assms by (simp add: fp_to_int_def clamp_int_def Let_def split: prod.splits)

lemma sint_magnitude: "int (unat (if sint a < 0 then - a else a)) = \<bar>sint a\<bar>" for a :: u64
proof (cases "sint a < 0")
  case True
  have "uint (- a) = - uint a mod 2 ^ 64" by (simp add: uint_word_ariths)
  also have "- uint a mod 2 ^ 64 = (- sint a) mod 2 ^ 64"
    unfolding uint_sint_wrap [of a] using True by (simp add: mod_diff_eq [symmetric])
  also have "\<dots> = - sint a" by (rule mod_pos_pos_trivial) (use True sint_ge [of a] in simp_all)
  finally show ?thesis using True by simp
next
  case False
  then show ?thesis using uint_sint_wrap [of a] by simp
qed

context ieee_format
begin

lemma to_int_result:
  assumes fin: "finite_code f a" and bits: "bits = 32 \<or> bits = 64"
  shows "int_result sgd bits rm (neg f a) (fval f (mag f a)) (fp_to_int f a sgd bits rm)"
proof (cases "mag f a = 0")
  case True
  then show ?thesis
    using unpack_cls [OF fin] rounds_int_exact [of rm "neg f a" 0] bits
    unfolding int_result_def by (intro exI [of _ 0]) (auto simp: fp_to_int_def Let_def)
next
  case False
  define u where "u = unpack f a"
  have lt: "mag f a < inf_code f" using fin by (simp add: finite_code_def)
  obtain mg ov nx where m: "to_int_mag (lo (sig u)) (exp2 u) (neg f a) rm = (mg, ov, nx)" by (metis prod_cases3)
  have v: "fval f (mag f a) = real (unat (lo (sig u))) * 2 powi exp2 u"
    unfolding u_def lo_sig [OF lt False] unpack_finite(1) [OF lt False, symmetric] up_val_def ..
  have "lo (sig u) \<noteq> 0"
    using unpack_bounds(1) [OF fin False] lo_sig [OF lt False] by (auto simp: u_def word_eq_unat)
  from to_int_mag_val [OF this m]
  obtain n where "rounds_int rm (neg f a) (fval f (mag f a)) n"
    "if ov then 2 ^ 64 \<le> n else n = unat mg \<and> (nx \<longleftrightarrow> fval f (mag f a) \<noteq> real n)"
    unfolding v by blast
  from clamp_int_correct [OF bits this] show ?thesis
    using unpack_bounds(4) [OF fin False] m by (simp add: fp_to_int_clamp unpack_sign u_def)
qed

lemma from_int_result:
  assumes "mg \<noteq> 0"
  shows "rounded_result f rm s (real (unat mg)) (int_to_fp f mg s rm)"
proof -
  have "rounded_result f rm s (real (unat mg)) (round_mag f s (mk128 0 mg) 0 False rm)"
    by (rule round_mag_correct [of _ "real (unat mg)"]) (use assms in \<open>simp_all add: word_eq_unat\<close>)
  then show ?thesis using assms by (simp add: int_to_fp_def)
qed

lemma from_sint_result: "ieee_result f rm (real_of_int (sint a)) False (sint_to_fp f a rm)"
proof (cases "a = 0")
  case True
  then show ?thesis by (simp add: ieee_result_def sint_to_fp_def int_to_fp_def Let_def make_zero_def)
next
  case False
  define r m where "r = sint a" and "m = (if r < 0 then - a else a)"
  have z: "r \<noteq> 0" "m \<noteq> 0" using False by (simp_all add: r_def m_def signed_eq_0_iff)
  have s: "a <s 0 \<longleftrightarrow> r < 0" by (simp add: r_def word_sless_alt)
  have "int (unat m) = \<bar>r\<bar>" unfolding m_def r_def by (rule sint_magnitude)
  then have "real (unat m) = \<bar>real_of_int r\<bar>" by (metis of_int_abs of_int_of_nat_eq)
  with from_int_result [OF z(2), of rm "r < 0"]
  have "rounded_result f rm (r < 0) \<bar>real_of_int r\<bar> (int_to_fp f m (r < 0) rm)" by simp
  moreover have "sint_to_fp f a rm = int_to_fp f m (r < 0) rm" by (simp add: sint_to_fp_def s m_def Let_def)
  ultimately show ?thesis using z unfolding r_def [symmetric] by (simp add: ieee_result_def)
qed

end

text \<open>
  C20: Converting a finite number to a signed or unsigned 32- or 64-bit integer rounds it to an integer in
  the given mode and clamps it to the range of the type: the result is exact when in range, with the
  inexact flag exactly when rounding changed the value, and the nearest bound with the invalid flag
  otherwise.
\<close>

theorem fp_to_int_clamped:
  assumes "f \<in> {F32, F64}" "finite_code f a" "bits = 32 \<or> bits = 64"
  shows "int_result sgd bits rm (neg f a) (fval f (mag f a)) (fp_to_int f a sgd bits rm)"
  using b32.to_int_result b64.to_int_result assms by blast

theorem fp_to_int_clamped_witness:
  "finite_code F32 0xc0200000 \<and>
   int_result True 32 SF_RNE True (fval F32 0x40200000) (fp_to_int F32 0xc0200000 True 32 SF_RNE)"
  using fp_to_int_clamped [of F32 "0xc0200000" 32 True SF_RNE] by (simp add: finite_evals)

text \<open>
  C21: Converting a signed integer to floating point rounds its value once.
\<close>

theorem sint_to_fp_rounded:
  assumes "f \<in> {F32, F64}"
  shows "ieee_result f rm (real_of_int (sint a)) False (sint_to_fp f a rm)"
  using b32.from_sint_result b64.from_sint_result assms by blast

theorem sint_to_fp_rounded_witness:
  "ieee_result F32 SF_RNE (real_of_int (sint (0xfffffffffeffffff :: u64))) False (sint_to_fp F32 0xfffffffffeffffff SF_RNE)"
  by (rule sint_to_fp_rounded) blast

end
