(* ===== verification/Elf.thy ===== *)
theory Elf
  imports Memory "HOL-Library.Monad_Syntax"
begin

text \<open>
  The ELF loader of \<open>src/src/elf.c\<close>: the header check, the two passes of \<open>elf_load\<close> over the program
  headers and the symbol search \<open>elf_symbol\<close>. A file is the list of its bytes. Offsets are computed
  in \<open>size_t\<close> (64 bits) as in C, and a read outside the file, undefined behaviour in C, is the result
  \<open>None\<close>; so a result \<open>Some r\<close> says that the C code stayed inside the buffer. Each diagnostic of the
  code is a constructor of \<open>ElfError\<close>.
\<close>

subsection \<open>Reading the file\<close>

datatype ElfError = ELF_CANNOT_READ | ELF_TOO_SMALL | ELF_BAD_MAGIC | ELF_BAD_CLASS | ELF_NOT_LE
  | ELF_NOT_EXEC | ELF_NOT_RISCV | ELF_PHDR_SIZE | ELF_PHDR_RANGE | ELF_SEG_RANGE | ELF_SEG_SIZE
  | ELF_NO_SEGMENT | ELF_BEYOND_4G | ELF_IMAGE_SIZE | ELF_NO_FIT | ELF_SEG_LOAD | ELF_ENTRY
  | ELF_NO_SYMBOL

abbreviation (input) ELF_EHSIZE :: u64 where "ELF_EHSIZE \<equiv> 52"
abbreviation (input) ELF64_EHSIZE :: u64 where "ELF64_EHSIZE \<equiv> 64"
abbreviation (input) ELF_PHSIZE :: u16 where "ELF_PHSIZE \<equiv> 32"
abbreviation (input) ELF64_PHSIZE :: u16 where "ELF64_PHSIZE \<equiv> 56"
abbreviation (input) ELF_SHSIZE :: u16 where "ELF_SHSIZE \<equiv> 40"
abbreviation (input) ELF_SYMSIZE :: u32 where "ELF_SYMSIZE \<equiv> 16"
abbreviation (input) ET_EXEC :: u16 where "ET_EXEC \<equiv> 2"
abbreviation (input) EM_RISCV :: u16 where "EM_RISCV \<equiv> 243"
abbreviation (input) PT_LOAD :: u32 where "PT_LOAD \<equiv> 1"
abbreviation (input) SHT_SYMTAB :: u32 where "SHT_SYMTAB \<equiv> 2"
abbreviation (input) ELF_MEM_MAX :: u64 where "ELF_MEM_MAX \<equiv> 0x10000000"
abbreviation (input) GUEST_STACK_SIZE :: u64 where "GUEST_STACK_SIZE \<equiv> 0x10000"

definition flen :: "u8 list \<Rightarrow> u64" where
  "flen buf = of_nat (length buf)"

definition byte_at :: "u8 list \<Rightarrow> u64 \<Rightarrow> u8 option" where
  "byte_at buf i = (if unat i < length buf then Some (buf ! unat i) else None)"

definition rd_u32 :: "u8 list \<Rightarrow> u64 \<Rightarrow> u32 option" where
  "rd_u32 buf i = do {
     a \<leftarrow> byte_at buf i; b \<leftarrow> byte_at buf (i + 1); c \<leftarrow> byte_at buf (i + 2); d \<leftarrow> byte_at buf (i + 3);
     Some (ucast a OR shl (ucast b) 8 OR shl (ucast c) 16 OR shl (ucast d) 24)
   }"

definition rd_u16 :: "u8 list \<Rightarrow> u64 \<Rightarrow> u16 option" where
  "rd_u16 buf i = do {
     a \<leftarrow> byte_at buf i; b \<leftarrow> byte_at buf (i + 1);
     Some (ucast a OR shl (ucast b) 8)
   }"

definition rd_u64 :: "u8 list \<Rightarrow> u64 \<Rightarrow> u64 option" where
  "rd_u64 buf i = do {
     l \<leftarrow> rd_u32 buf i; h \<leftarrow> rd_u32 buf (i + 4);
     Some (ucast l OR shl (ucast h) 32)
   }"

text \<open>A field that is 64 bits wide in the 64-bit class and 32 bits wide in the other.\<close>

definition rd_word :: "bool \<Rightarrow> u8 list \<Rightarrow> u64 \<Rightarrow> u64 option" where
  "rd_word is64 buf i = (if is64 then rd_u64 buf i else map_option ucast (rd_u32 buf i))"

definition check_header :: "u8 list \<Rightarrow> (ElfError + bool) option" where
  "check_header buf =
     (if flen buf < ELF_EHSIZE then Some (Inl ELF_TOO_SMALL)
      else do {
        m0 \<leftarrow> byte_at buf 0; m1 \<leftarrow> byte_at buf 1; m2 \<leftarrow> byte_at buf 2; m3 \<leftarrow> byte_at buf 3;
        cls \<leftarrow> byte_at buf 4; enc \<leftarrow> byte_at buf 5;
        ty \<leftarrow> rd_u16 buf 16; mach \<leftarrow> rd_u16 buf 18;
        Some (if m0 \<noteq> 0x7f \<or> m1 \<noteq> 0x45 \<or> m2 \<noteq> 0x4c \<or> m3 \<noteq> 0x46 then Inl ELF_BAD_MAGIC
              else if cls \<noteq> 1 \<and> cls \<noteq> 2 then Inl ELF_BAD_CLASS
              else if cls = 2 \<and> flen buf < ELF64_EHSIZE then Inl ELF_TOO_SMALL
              else if enc \<noteq> 1 then Inl ELF_NOT_LE
              else if ty \<noteq> ET_EXEC then Inl ELF_NOT_EXEC
              else if mach \<noteq> EM_RISCV then Inl ELF_NOT_RISCV
              else Inr (cls = 2))
      })"

subsection \<open>Loading the segments\<close>

record Phdrs =
  ph_off :: u64
  ph_entsize :: u16
  ph_num :: u16
  ph_min :: u16

definition read_phdrs :: "bool \<Rightarrow> u8 list \<Rightarrow> Phdrs option" where
  "read_phdrs is64 buf =
     (if is64 then do {
        phoff \<leftarrow> rd_u64 buf 32; sz \<leftarrow> rd_u16 buf 54; n \<leftarrow> rd_u16 buf 56;
        Some \<lparr>ph_off = phoff, ph_entsize = sz, ph_num = n, ph_min = ELF64_PHSIZE\<rparr>
      }
      else do {
        phoff \<leftarrow> rd_u32 buf 28; sz \<leftarrow> rd_u16 buf 42; n \<leftarrow> rd_u16 buf 44;
        Some \<lparr>ph_off = ucast phoff, ph_entsize = sz, ph_num = n, ph_min = ELF_PHSIZE\<rparr>
      })"

definition phdr_at :: "Phdrs \<Rightarrow> nat \<Rightarrow> u64" where
  "phdr_at t i = ph_off t + of_nat i * ucast (ph_entsize t)"

record Segment =
  s_offset :: u64
  s_vaddr :: u64
  s_filesz :: u64
  s_memsz :: u64

definition read_phdr :: "bool \<Rightarrow> u8 list \<Rightarrow> u64 \<Rightarrow> Segment option" where
  "read_phdr is64 buf p =
     (if is64 then do {
        off \<leftarrow> rd_u64 buf (p + 8); va \<leftarrow> rd_u64 buf (p + 16); fs \<leftarrow> rd_u64 buf (p + 32); ms \<leftarrow> rd_u64 buf (p + 40);
        Some \<lparr>s_offset = off, s_vaddr = va, s_filesz = fs, s_memsz = ms\<rparr>
      }
      else do {
        off \<leftarrow> rd_u32 buf (p + 4); va \<leftarrow> rd_u32 buf (p + 8); fs \<leftarrow> rd_u32 buf (p + 16); ms \<leftarrow> rd_u32 buf (p + 20);
        Some \<lparr>s_offset = ucast off, s_vaddr = ucast va, s_filesz = ucast fs, s_memsz = ucast ms\<rparr>
      })"

text \<open>Pass 1 over the program headers \<open>i\<close>, with the accumulated lowest address, end and count.\<close>

fun measure_segments :: "bool \<Rightarrow> u8 list \<Rightarrow> Phdrs \<Rightarrow> nat list \<Rightarrow> u64 \<Rightarrow> u64 \<Rightarrow> nat \<Rightarrow> (ElfError + u64 \<times> u64 \<times> nat) option" where
  "measure_segments is64 buf t [] lo hi loaded = Some (Inr (lo, hi, loaded))"
| "measure_segments is64 buf t (i # is) lo hi loaded =
     (if phdr_at t i + ucast (ph_min t) > flen buf then Some (Inl ELF_PHDR_RANGE)
      else do {
        ty \<leftarrow> rd_u32 buf (phdr_at t i);
        (if ty \<noteq> PT_LOAD then measure_segments is64 buf t is lo hi loaded
         else do {
           s \<leftarrow> read_phdr is64 buf (phdr_at t i);
           (if s_offset s > flen buf \<or> s_filesz s > flen buf - s_offset s then Some (Inl ELF_SEG_RANGE)
            else if s_filesz s > s_memsz s then Some (Inl ELF_SEG_SIZE)
            else measure_segments is64 buf t is
                   (if s_vaddr s < lo then s_vaddr s else lo)
                   (if s_vaddr s + s_memsz s > hi then s_vaddr s + s_memsz s else hi) (Suc loaded))
         })
      })"

definition file_bytes :: "u8 list \<Rightarrow> Segment \<Rightarrow> u8 list" where
  "file_bytes buf s = take (unat (s_filesz s)) (drop (unat (s_offset s)) buf)"

text \<open>Pass 2: copy the file-backed part of each segment; \<open>False\<close> when one does not fit.\<close>

fun load_segments :: "bool \<Rightarrow> u8 list \<Rightarrow> Phdrs \<Rightarrow> nat list \<Rightarrow> Memory \<Rightarrow> (bool \<times> Memory) option" where
  "load_segments is64 buf t [] m = Some (True, m)"
| "load_segments is64 buf t (i # is) m = do {
     ty \<leftarrow> rd_u32 buf (phdr_at t i);
     (if ty \<noteq> PT_LOAD then load_segments is64 buf t is m
      else do {
        s \<leftarrow> read_phdr is64 buf (phdr_at t i);
        (if s_filesz s > 0 then
           (case mem_load m (s_vaddr s) (file_bytes buf s) of
              (False, m) \<Rightarrow> Some (False, mem_free m)
            | (True, m) \<Rightarrow> load_segments is64 buf t is m)
         else load_segments is64 buf t is m)
      })
   }"

text \<open>The size of the guest memory for an image from \<open>lo\<close> to \<open>hi\<close>.\<close>

definition guest_span :: "u64 \<Rightarrow> u64 \<Rightarrow> u32 \<Rightarrow> ElfError + u64" where
  "guest_span lo hi min_size =
     (let image = hi - lo
      in if hi > 0x100000000 then Inl ELF_BEYOND_4G
         else if image = 0 \<or> image > ELF_MEM_MAX then Inl ELF_IMAGE_SIZE
         else let span = image + GUEST_STACK_SIZE;
                  span = (if ucast min_size > span then ucast min_size else span)
              in if span > ELF_MEM_MAX \<or> lo + span > 0x100000000 then Inl ELF_NO_FIT else Inr span)"

text \<open>The tail of \<open>elf_load\<close> once the span is known: allocate, copy, and check the entry point.\<close>

definition load_image :: "bool \<Rightarrow> u8 list \<Rightarrow> Phdrs \<Rightarrow> u64 \<Rightarrow> u64 \<Rightarrow> ((ElfError + u64 \<times> nat) \<times> Memory) option" where
  "load_image is64 buf t lo span = do {
     (ok, m) \<leftarrow> load_segments is64 buf t [0..<unat (ph_num t)] (mem_init lo span);
     (if \<not> ok then Some (Inl ELF_SEG_LOAD, m)
      else do {
        e \<leftarrow> rd_word is64 buf 24;
        Some (if e < mbase m \<or> e \<ge> mbase m + msize m then (Inl ELF_ENTRY, mem_free m)
              else (Inr (e, if is64 then 64 else 32), m))
      })
   }"

definition elf_load :: "u8 list option \<Rightarrow> u32 \<Rightarrow> Memory \<Rightarrow> ((ElfError + u64 \<times> nat) \<times> Memory) option" where
  "elf_load file min_size m =
     (case file of
        None \<Rightarrow> Some (Inl ELF_CANNOT_READ, m)
      | Some buf \<Rightarrow> do {
          h \<leftarrow> check_header buf;
          (case h of
             Inl e \<Rightarrow> Some (Inl e, m)
           | Inr is64 \<Rightarrow> do {
               t \<leftarrow> read_phdrs is64 buf;
               (if ph_entsize t < ph_min t then Some (Inl ELF_PHDR_SIZE, m)
                else do {
                  r \<leftarrow> measure_segments is64 buf t [0..<unat (ph_num t)] (- 1) 0 0;
                  (case r of
                     Inl e \<Rightarrow> Some (Inl e, m)
                   | Inr (lo, hi, loaded) \<Rightarrow>
                       (if loaded = 0 then Some (Inl ELF_NO_SEGMENT, m)
                        else case guest_span lo hi min_size of
                               Inl e \<Rightarrow> Some (Inl e, m)
                             | Inr span \<Rightarrow> load_image is64 buf t lo span))
                })
             })
        })"

subsection \<open>Symbols\<close>

text \<open>The name at \<open>p\<close>: \<open>Some None\<close> when it is not terminated within \<open>avail\<close> bytes.\<close>

fun sym_name :: "u8 list \<Rightarrow> u64 \<Rightarrow> nat \<Rightarrow> u8 list option option" where
  "sym_name buf p 0 = Some None"
| "sym_name buf p (Suc avail) = do {
     b \<leftarrow> byte_at buf p;
     (if b = 0 then Some (Some []) else map_option (map_option (Cons b)) (sym_name buf (p + 1) avail))
   }"

record Symtab =
  st_off :: u32
  st_size :: u32
  st_entsize :: u32
  st_stroff :: u32
  st_strsize :: u32

text \<open>The loop over one symbol table. Its index is a \<open>uint32_t\<close>, so a loop that has not ended after
  \<open>2\<^sup>3\<^sup>2\<close> rounds never ends; that is the fuel, and running out of it is \<open>None\<close> too.\<close>

fun find_symbol :: "nat \<Rightarrow> u8 list \<Rightarrow> Symtab \<Rightarrow> u8 list \<Rightarrow> u32 \<Rightarrow> u32 option option" where
  "find_symbol 0 buf t name off = None"
| "find_symbol (Suc fuel) buf t name off =
     (if off + ELF_SYMSIZE \<le> st_size t then do {
        st_name \<leftarrow> rd_u32 buf (ucast (st_off t) + ucast off);
        (if st_name \<ge> st_strsize t then find_symbol fuel buf t name (off + st_entsize t)
         else do {
           sym \<leftarrow> sym_name buf (ucast (st_stroff t) + ucast st_name) (unat (st_strsize t - st_name));
           (if sym = Some name then map_option Some (rd_u32 buf (ucast (st_off t) + ucast off + 4))
            else find_symbol fuel buf t name (off + st_entsize t))
         })
      }
      else Some None)"

record Shdrs =
  sh_off :: u32
  sh_entsize :: u16
  sh_num :: u16

definition read_shdrs :: "u8 list \<Rightarrow> Shdrs option" where
  "read_shdrs buf = do {
     shoff \<leftarrow> rd_u32 buf 32; sz \<leftarrow> rd_u16 buf 46; n \<leftarrow> rd_u16 buf 48;
     Some \<lparr>sh_off = shoff, sh_entsize = sz, sh_num = n\<rparr>
   }"

definition shdr_at :: "Shdrs \<Rightarrow> u64 \<Rightarrow> u64" where
  "shdr_at t i = ucast (sh_off t) + i * ucast (sh_entsize t)"

text \<open>The fields of the symbol table described by section header \<open>s\<close>, with its string table; \<open>Some None\<close>
  when they are malformed.\<close>

definition read_symtab :: "u8 list \<Rightarrow> Shdrs \<Rightarrow> u64 \<Rightarrow> Symtab option option" where
  "read_symtab buf t s = do {
     sym_off \<leftarrow> rd_u32 buf (s + 16); sym_size \<leftarrow> rd_u32 buf (s + 20);
     link \<leftarrow> rd_u32 buf (s + 24); entsize \<leftarrow> rd_u32 buf (s + 36);
     (if entsize < ELF_SYMSIZE \<or> link \<ge> ucast (sh_num t) then Some None
      else if (ucast sym_off :: u64) + ucast sym_size > flen buf then Some None
      else if shdr_at t (ucast link) + ucast ELF_SHSIZE > flen buf then Some None
      else do {
        str_off \<leftarrow> rd_u32 buf (shdr_at t (ucast link) + 16);
        str_size \<leftarrow> rd_u32 buf (shdr_at t (ucast link) + 20);
        Some (if (ucast str_off :: u64) + ucast str_size > flen buf then None
              else Some \<lparr>st_off = sym_off, st_size = sym_size, st_entsize = entsize,
                         st_stroff = str_off, st_strsize = str_size\<rparr>)
      })
   }"

fun search_sections :: "u8 list \<Rightarrow> Shdrs \<Rightarrow> u8 list \<Rightarrow> nat list \<Rightarrow> u32 option option" where
  "search_sections buf t name [] = Some None"
| "search_sections buf t name (i # is) =
     (if shdr_at t (of_nat i) + ucast ELF_SHSIZE > flen buf then Some None
      else do {
        ty \<leftarrow> rd_u32 buf (shdr_at t (of_nat i) + 4);
        (if ty \<noteq> SHT_SYMTAB then search_sections buf t name is
         else do {
           st \<leftarrow> read_symtab buf t (shdr_at t (of_nat i));
           (case st of
              None \<Rightarrow> Some None
            | Some st \<Rightarrow> do {
                r \<leftarrow> find_symbol (2 ^ 32) buf st name 0;
                (case r of None \<Rightarrow> search_sections buf t name is | Some v \<Rightarrow> Some (Some v))
              })
         })
      })"

definition elf_symbol :: "u8 list option \<Rightarrow> u8 list \<Rightarrow> (ElfError + u32) option" where
  "elf_symbol file name =
     (case file of
        None \<Rightarrow> Some (Inl ELF_CANNOT_READ)
      | Some buf \<Rightarrow> do {
          h \<leftarrow> check_header buf;
          (case h of
             Inl e \<Rightarrow> Some (Inl e)
           | Inr True \<Rightarrow> Some (Inl ELF_NO_SYMBOL)
           | Inr False \<Rightarrow> do {
               t \<leftarrow> read_shdrs buf;
               (if sh_off t = 0 \<or> sh_num t = 0 \<or> sh_entsize t < ELF_SHSIZE then Some (Inl ELF_NO_SYMBOL)
                else do {
                  r \<leftarrow> search_sections buf t name [0..<unat (sh_num t)];
                  Some (case r of None \<Rightarrow> Inl ELF_NO_SYMBOL | Some v \<Rightarrow> Inr v)
                })
             })
        })"

subsection \<open>Specification\<close>

definition inside :: "u8 list \<Rightarrow> u64 \<Rightarrow> nat \<Rightarrow> bool" where
  "inside buf i n \<longleftrightarrow> unat i + n \<le> length buf \<and> length buf < 2 ^ 63"

definition segment_at :: "bool \<Rightarrow> u8 list \<Rightarrow> Phdrs \<Rightarrow> nat \<Rightarrow> Segment option" where
  "segment_at is64 buf t i = do {
     ty \<leftarrow> rd_u32 buf (phdr_at t i);
     (if ty = PT_LOAD then read_phdr is64 buf (phdr_at t i) else None)
   }"

definition segments :: "bool \<Rightarrow> u8 list \<Rightarrow> Phdrs \<Rightarrow> nat list \<Rightarrow> Segment list" where
  "segments is64 buf t is = List.map_filter (segment_at is64 buf t) is"

text \<open>The byte an image has at an address: that of the last segment whose file part covers it, else 0.\<close>

definition image_byte :: "u8 list \<Rightarrow> Segment list \<Rightarrow> u64 \<Rightarrow> u8" where
  "image_byte buf ss a =
     fold (\<lambda>s b. if a - s_vaddr s < s_filesz s then buf ! (unat (s_offset s) + unat (a - s_vaddr s)) else b) ss 0"

text \<open>The header-range check is sound when the table's offset is not close to wrapping around.\<close>

definition table_ok :: "bool \<Rightarrow> Phdrs \<Rightarrow> bool" where
  "table_ok is64 t \<longleftrightarrow> ph_off t < 2 ^ 63 \<and> ph_min t = (if is64 then ELF64_PHSIZE else ELF_PHSIZE)"

definition seg_ok :: "u8 list \<Rightarrow> Segment \<Rightarrow> bool" where
  "seg_ok buf s \<longleftrightarrow> unat (s_offset s) + unat (s_filesz s) \<le> length buf"

definition image_loaded :: "u8 list \<Rightarrow> Segment list \<Rightarrow> Memory \<Rightarrow> bool" where
  "image_loaded buf ss m \<longleftrightarrow>
     (\<forall>a. mdata m (a - mbase m) = image_byte buf ss a) \<and>
     (\<forall>s\<in>set ss. mbase m \<le> s_vaddr s \<and> (s_filesz s > 0 \<longrightarrow> mem_in_range m (s_vaddr s) (s_filesz s)) \<and>
        (unat (s_vaddr s) + unat (s_memsz s) < 2 ^ 64 \<longrightarrow>
           unat (s_vaddr s) + unat (s_memsz s) + unat GUEST_STACK_SIZE \<le> unat (mbase m) + unat (msize m)))"

definition tab_ok :: "u8 list \<Rightarrow> Symtab \<Rightarrow> bool" where
  "tab_ok buf t \<longleftrightarrow> unat (st_off t) + unat (st_size t) \<le> length buf \<and> unat (st_stroff t) + unat (st_strsize t) \<le> length buf \<and>
     length buf < 2 ^ 31 \<and> 16 \<le> unat (st_entsize t) \<and> unat (st_entsize t) < 2 ^ 32 - 16"

definition symbol_in :: "u8 list \<Rightarrow> Symtab \<Rightarrow> u8 list \<Rightarrow> u32 \<Rightarrow> bool" where
  "symbol_in buf t name v \<longleftrightarrow> (\<exists>(off :: u32) nm. nm < st_strsize t \<and>
     rd_u32 buf (ucast (st_off t) + ucast off) = Some nm \<and>
     sym_name buf (ucast (st_stroff t) + ucast nm) (unat (st_strsize t - nm)) = Some (Some name) \<and>
     rd_u32 buf (ucast (st_off t) + ucast off + 4) = Some v)"

definition symtab_at :: "u8 list \<Rightarrow> Shdrs \<Rightarrow> nat \<Rightarrow> Symtab option" where
  "symtab_at buf t i = do {
     ty \<leftarrow> rd_u32 buf (shdr_at t (of_nat i) + 4);
     (if ty = SHT_SYMTAB then Option.bind (read_symtab buf t (shdr_at t (of_nat i))) id else None)
   }"

definition symtabs :: "u8 list \<Rightarrow> Symtab list" where
  "symtabs buf = (case read_shdrs buf of
       None \<Rightarrow> []
     | Some t \<Rightarrow> List.map_filter (symtab_at buf t) [0..<unat (sh_num t)])"

text \<open>A small executable: one segment of four bytes at \<open>0x1000\<close> with eight bytes in memory, and one symbol
  \<open>a\<close>; the four arguments are the bytes of the symbol table's entry size.\<close>

definition demo_elf :: "u8 \<Rightarrow> u8 \<Rightarrow> u8 \<Rightarrow> u8 \<Rightarrow> u8 list" where
  "demo_elf b0 b1 b2 b3 =
    [0x7f, 0x45, 0x4c, 0x46, 1, 1, 1, 0, 0, 0, 0, 0, 0, 0, 0, 0, 2, 0, 243, 0, 1, 0, 0, 0,
     0x00, 0x10, 0, 0, 52, 0, 0, 0, 108, 0, 0, 0, 0, 0, 0, 0, 52, 0, 32, 0, 1, 0, 40, 0, 2, 0, 0, 0,
     1, 0, 0, 0, 84, 0, 0, 0, 0x00, 0x10, 0, 0, 0x00, 0x10, 0, 0, 4, 0, 0, 0, 8, 0, 0, 0, 0, 0, 0, 0, 0, 0, 0, 0,
     0x73, 0, 0, 0,
     1, 0, 0, 0, 0x04, 0x10, 0, 0, 0, 0, 0, 0, 0, 0, 0, 0,
     0, 0x61, 0, 0,
     0, 0, 0, 0, 2, 0, 0, 0, 0, 0, 0, 0, 0, 0, 0, 0, 88, 0, 0, 0, 16, 0, 0, 0, 1, 0, 0, 0,
     0, 0, 0, 0, 0, 0, 0, 0, b0, b1, b2, b3,
     0, 0, 0, 0, 3, 0, 0, 0, 0, 0, 0, 0, 0, 0, 0, 0, 104, 0, 0, 0, 4, 0, 0, 0, 0, 0, 0, 0,
     0, 0, 0, 0, 0, 0, 0, 0, 0, 0, 0, 0]"

text \<open>A 64-bit header whose program-header table is said to start eight bytes below \<open>2\<^sup>6\<^sup>4\<close>.\<close>

definition wrap_elf :: "u8 list" where
  "wrap_elf =
    [0x7f, 0x45, 0x4c, 0x46, 2, 1, 1, 0, 0, 0, 0, 0, 0, 0, 0, 0, 2, 0, 243, 0, 1, 0, 0, 0,
     0, 0, 0, 0, 0, 0, 0, 0, 0xf8, 0xff, 0xff, 0xff, 0xff, 0xff, 0xff, 0xff, 0, 0, 0, 0, 0, 0, 0, 0,
     0, 0, 0, 0, 64, 0, 56, 0, 1, 0, 0, 0, 0, 0, 0, 0]"

subsection \<open>Reads stay inside the file\<close>

lemma inside_offset:
  assumes "inside buf i n" "k + w \<le> n"
  shows "inside buf (i + of_nat k) w"
proof -
  have k: "k < 2 ^ 64" and s: "unat i + k < 2 ^ 64" using assms by (simp_all add: inside_def)
  have "unat (i + of_nat k) = (unat i + k mod 2 ^ 64) mod 2 ^ 64" by (simp add: unat_word_ariths unat_of_nat)
  also have "\<dots> = unat i + k" using k s by simp
  finally show ?thesis using assms by (simp add: inside_def)
qed

lemma bind_some: "x \<noteq> None \<Longrightarrow> (\<And>v. x = Some v \<Longrightarrow> f v \<noteq> None) \<Longrightarrow> x \<bind> f \<noteq> None"
  by auto

lemma some_some: "Some x \<noteq> None" by simp

lemma if_some: "(b \<Longrightarrow> x \<noteq> None) \<Longrightarrow> (\<not> b \<Longrightarrow> y \<noteq> None) \<Longrightarrow> (if b then x else y) \<noteq> None"
  by simp

lemma case_some:
  "(\<And>a. s = Inl a \<Longrightarrow> f a \<noteq> None) \<Longrightarrow> (\<And>b. s = Inr b \<Longrightarrow> g b \<noteq> None) \<Longrightarrow> case_sum f g s \<noteq> None"
  "(\<And>a b. p = (a, b) \<Longrightarrow> h a b \<noteq> None) \<Longrightarrow> case_prod h p \<noteq> None"
  "(b \<Longrightarrow> x \<noteq> None) \<Longrightarrow> (\<not> b \<Longrightarrow> y \<noteq> None) \<Longrightarrow> case_bool x y b \<noteq> None"
  "(z = None \<Longrightarrow> x \<noteq> None) \<Longrightarrow> (\<And>a. z = Some a \<Longrightarrow> f' a \<noteq> None) \<Longrightarrow> case_option x f' z \<noteq> None"
  by (simp_all split: sum.split prod.split bool.split option.split)

lemma inside_0: "n \<le> length buf \<Longrightarrow> length buf < 2 ^ 63 \<Longrightarrow> k + w \<le> n \<Longrightarrow> inside buf (of_nat k) w"
  using inside_offset [of buf 0 n k w] by (simp add: inside_def)

lemma inside_mono: "inside buf i n \<Longrightarrow> m \<le> n \<Longrightarrow> inside buf i m"
  by (simp add: inside_def)

lemma read_byte: "inside buf i 1 \<Longrightarrow> byte_at buf i \<noteq> None"
  by (simp add: inside_def byte_at_def)

lemma read_u16: "inside buf i 2 \<Longrightarrow> rd_u16 buf i \<noteq> None"
  unfolding rd_u16_def using inside_offset [of buf i 2 1 1] inside_mono [of buf i 2 1]
  by (intro bind_some read_byte some_some) simp_all

lemma read_u32: "inside buf i 4 \<Longrightarrow> rd_u32 buf i \<noteq> None"
  unfolding rd_u32_def
  using inside_offset [of buf i 4 1 1] inside_offset [of buf i 4 2 1] inside_offset [of buf i 4 3 1] inside_mono [of buf i 4 1]
  by (intro bind_some read_byte some_some) simp_all

lemma read_u64: "inside buf i 8 \<Longrightarrow> rd_u64 buf i \<noteq> None"
  unfolding rd_u64_def using inside_offset [of buf i 8 4 4] inside_mono [of buf i 8 4]
  by (intro bind_some read_u32 some_some) simp_all

lemmas reads = bind_some some_some if_some case_some read_byte read_u16 read_u32 read_u64

lemma flen_less: "length buf < 2 ^ 63 \<Longrightarrow> flen buf < w \<longleftrightarrow> length buf < unat w"
  by (simp add: flen_def word_less_nat_alt unat_of_nat)

lemma header_fields:
  assumes "n \<le> length buf" "length buf < 2 ^ 63"
  shows "w \<le> n \<Longrightarrow> inside buf 0 w" "1 + w \<le> n \<Longrightarrow> inside buf 1 w"
    "numeral k + w \<le> n \<Longrightarrow> inside buf (numeral k) w"
  using inside_0 [OF assms, of 0 w] inside_0 [OF assms, of 1 w] inside_0 [OF assms, of "numeral k" w] by simp_all

lemma check_header_reads: "length buf < 2 ^ 63 \<Longrightarrow> check_header buf \<noteq> None"
  unfolding check_header_def
  by (intro reads) (simp_all add: flen_less header_fields [of 52])

lemma header_length:
  assumes "check_header buf = Some (Inr is64)" "length buf < 2 ^ 63"
  shows "(if is64 then 64 else 52) \<le> length buf" "is64 \<longleftrightarrow> buf ! 4 = 2"
  using assms by (auto simp: check_header_def flen_less byte_at_def split: if_splits bind_splits)

lemma read_phdrs_reads:
  assumes "check_header buf = Some (Inr is64)" "length buf < 2 ^ 63"
  shows "read_phdrs is64 buf \<noteq> None"
  unfolding read_phdrs_def using header_length [OF assms] assms(2)
  by (intro reads) (auto intro: header_fields)

lemma phdr_fields:
  assumes "inside buf p n"
  shows "numeral k + w \<le> n \<Longrightarrow> inside buf (p + numeral k) w"
  using inside_offset [OF assms, of "numeral k" w] by simp

lemma read_phdr_reads: "inside buf p (if is64 then 56 else 32) \<Longrightarrow> read_phdr is64 buf p \<noteq> None"
  unfolding read_phdr_def by (intro reads) (auto intro: phdr_fields)

lemma phdr_inside:
  assumes t: "table_ok is64 t" and i: "i < 2 ^ 16" and l: "length buf < 2 ^ 63"
    and c: "\<not> phdr_at t i + ucast (ph_min t) > flen buf"
  shows "inside buf (phdr_at t i) (if is64 then 56 else 32)"
proof -
  define e where "e = unat (ph_entsize t)"
  have e: "e < 2 ^ 16" using unsigned_less [of "ph_entsize t"] by (simp add: e_def)
  have off: "unat (ph_off t) < 2 ^ 63" using t by (simp add: table_ok_def word_less_nat_alt)
  have "i * e \<le> 2 ^ 16 * 2 ^ 16" using i e by (intro mult_mono) simp_all
  then have s: "unat (ph_off t) + i * e + 56 < 2 ^ 64" using off by simp
  have p: "phdr_at t i = of_nat (unat (ph_off t) + i * e)" by (simp add: phdr_at_def e_def)
  define x y :: nat where "x = unat (ph_off t) + i * e" and "y = x + (if is64 then 56 else 32)"
  have "phdr_at t i + ucast (ph_min t) = of_nat y"
    using t by (simp add: p table_ok_def x_def y_def)
  moreover have "y < 2 ^ 64" "x < 2 ^ 64" using s by (simp_all add: x_def y_def)
  then have "unat (of_nat y :: u64) = y" "unat (of_nat x :: u64) = x" by (simp_all add: unat_of_nat)
  moreover have "unat (flen buf) = length buf" using l by (simp add: flen_def unat_of_nat)
  ultimately have "y \<le> length buf" "unat (phdr_at t i) = x"
    using c by (simp_all add: word_less_nat_alt not_less p x_def [symmetric])
  then show ?thesis using l by (simp add: inside_def y_def)
qed

lemma inside_4: "inside buf p (if b then 56 else 32) \<Longrightarrow> inside buf p 4"
  by (simp add: inside_def split: if_splits)

lemma measure_segments_reads:
  assumes "table_ok is64 t" "length buf < 2 ^ 63" "\<forall>i\<in>set is. i < 2 ^ 16"
  shows "measure_segments is64 buf t is lo hi n \<noteq> None"
  using assms(3)
proof (induction "is" arbitrary: lo hi n)
  case (Cons i "is")
  then show ?case
    using phdr_inside [OF assms(1) _ assms(2), of i]
    unfolding measure_segments.simps by (intro reads read_phdr_reads) (auto intro: inside_4)
qed simp

text \<open>What pass 1 has checked when it succeeds.\<close>

lemma measure_segments_checked:
  assumes "measure_segments is64 buf t is lo hi n = Some (Inr r)" "i \<in> set is"
  shows "\<not> phdr_at t i + ucast (ph_min t) > flen buf"
    "segment_at is64 buf t i = Some s \<Longrightarrow>
       s_offset s \<le> flen buf \<and> s_filesz s \<le> flen buf - s_offset s \<and> s_filesz s \<le> s_memsz s"
  using assms
  by (induction "is" arbitrary: lo hi n)
    (auto simp: segment_at_def split: if_splits bind_splits)

lemma load_segments_reads:
  assumes "\<forall>i\<in>set is. inside buf (phdr_at t i) (if is64 then 56 else 32)"
  shows "load_segments is64 buf t is m \<noteq> None"
  using assms
proof (induction "is" arbitrary: m)
  case (Cons i "is")
  then show ?case
    unfolding load_segments.simps by (intro reads read_phdr_reads) (auto intro: inside_4 split: prod.split bool.split)
qed simp

lemma elf_load_reads:
  assumes l: "length buf < 2 ^ 63" and off: "\<And>p. buf ! 4 = 2 \<Longrightarrow> rd_u64 buf 32 = Some p \<Longrightarrow> p < 2 ^ 63"
  shows "elf_load (Some buf) min_size m \<noteq> None"
proof -
  have table: "table_ok is64 t" if "check_header buf = Some (Inr is64)" "read_phdrs is64 buf = Some t" for is64 t
  proof -
    have "ucast w < (2 ^ 63 :: u64)" for w :: u32
      using unat_bound [of w] by (simp add: word_less_nat_alt unsigned_ucast_eq take_bit_nat_eq_self)
    with that header_length(2) [OF that(1) l] off show ?thesis
      by (auto simp: read_phdrs_def table_ok_def split: bind_splits if_splits)
  qed
  have load: "load_image is64 buf t lo span \<noteq> None"
    if h: "check_header buf = Some (Inr is64)" "read_phdrs is64 buf = Some t"
      and m: "measure_segments is64 buf t [0..<unat (ph_num t)] a b c = Some (Inr r)" for is64 t a b c r lo span
  proof -
    have "unat (ph_num t) < 2 ^ 16" using unat_bound [of "ph_num t"] by simp
    then have "\<forall>i\<in>set [0..<unat (ph_num t)]. inside buf (phdr_at t i) (if is64 then 56 else 32)"
      using phdr_inside [OF table [OF h] _ l] measure_segments_checked(1) [OF m] by auto
    moreover have "rd_word is64 buf 24 \<noteq> None"
      using header_length(1) [OF h(1) l] l read_u64 [of buf 24] read_u32 [of buf 24]
        header_fields(3) [of 64 buf _ 8] header_fields(3) [of 52 buf _ 4]
      by (auto simp: rd_word_def split: if_splits)
    ultimately show ?thesis
      using load_segments_reads [of "[0..<unat (ph_num t)]" buf t is64 "mem_init lo span"] by (auto simp: load_image_def)
  qed
  have nums: "\<forall>i\<in>set [0..<unat (ph_num t)]. i < 2 ^ 16" for t
    using unat_bound [of "ph_num t"] by auto
  show ?thesis
    unfolding elf_load_def option.case
    by (intro reads check_header_reads read_phdrs_reads measure_segments_reads table l nums load) (simp_all add: l)
qed

subsection \<open>The loaded image\<close>

lemma file_bytes_props:
  assumes "seg_ok buf s"
  shows "length (file_bytes buf s) = unat (s_filesz s)"
    "k < unat (s_filesz s) \<Longrightarrow> file_bytes buf s ! k = buf ! (unat (s_offset s) + k)"
  using assms by (simp_all add: seg_ok_def file_bytes_def)

lemma mem_load_image:
  assumes "mem_load m (s_vaddr s) (file_bytes buf s) = (True, m')" "seg_ok buf s"
  shows "mbase m' = mbase m \<and> msize m' = msize m \<and> mem_in_range m (s_vaddr s) (s_filesz s) \<and>
    mdata m' (a - mbase m) =
      (if a - s_vaddr s < s_filesz s then buf ! (unat (s_offset s) + unat (a - s_vaddr s)) else mdata m (a - mbase m))"
proof -
  have d: "a - mbase m - (s_vaddr s - mbase m) = a - s_vaddr s" by simp
  show ?thesis
    using assms unfolding mem_load_def translate_def
    by (auto simp: file_bytes_props d word_less_nat_alt split: if_splits)
qed

lemma segments_Cons:
  "segments is64 buf t (i # is) =
     (case segment_at is64 buf t i of None \<Rightarrow> segments is64 buf t is | Some s \<Rightarrow> s # segments is64 buf t is)"
  by (simp add: segments_def List.map_filter_def split: option.split)

lemma load_segments_Cons:
  assumes "load_segments is64 buf t (i # is) m = Some (True, m')"
  shows "case segment_at is64 buf t i of
      None \<Rightarrow> load_segments is64 buf t is m = Some (True, m')
    | Some s \<Rightarrow> if s_filesz s > 0
        then \<exists>m1. mem_load m (s_vaddr s) (file_bytes buf s) = (True, m1) \<and> load_segments is64 buf t is m1 = Some (True, m')
        else load_segments is64 buf t is m = Some (True, m')"
  using assms by (auto simp: segment_at_def split: bind_splits if_splits prod.splits bool.splits)

lemma load_segments_image:
  assumes "load_segments is64 buf t is m = Some (True, m')" "\<forall>s\<in>set (segments is64 buf t is). seg_ok buf s"
  shows "mbase m' = mbase m \<and> msize m' = msize m \<and>
    (\<forall>s\<in>set (segments is64 buf t is). s_filesz s > 0 \<longrightarrow> mem_in_range m (s_vaddr s) (s_filesz s)) \<and>
    mdata m' (a - mbase m) =
      fold (\<lambda>s b. if a - s_vaddr s < s_filesz s then buf ! (unat (s_offset s) + unat (a - s_vaddr s)) else b)
        (segments is64 buf t is) (mdata m (a - mbase m))"
  using assms
proof (induction "is" arbitrary: m)
  case (Cons i "is")
  show ?case
  proof (cases "segment_at is64 buf t i")
    case None
    with load_segments_Cons [OF Cons.prems(1)] Cons.prems(2) Cons.IH [of m] show ?thesis by (simp add: segments_Cons)
  next
    case (Some s)
    note step = load_segments_Cons [OF Cons.prems(1), unfolded Some option.case]
    have ok: "seg_ok buf s" "\<forall>s\<in>set (segments is64 buf t is). seg_ok buf s"
      using Cons.prems(2) Some by (simp_all add: segments_Cons)
    show ?thesis
    proof (cases "s_filesz s > 0")
      case True
      with step obtain m1 where m1: "mem_load m (s_vaddr s) (file_bytes buf s) = (True, m1)"
        "load_segments is64 buf t is m1 = Some (True, m')" by auto
      from mem_load_image [OF m1(1) ok(1), of a] Cons.IH [OF m1(2) ok(2)] Some show ?thesis
        by (simp add: segments_Cons mem_in_range_def)
    next
      case False
      then have "s_filesz s = 0" by (simp add: word_neq_0_conv [symmetric])
      with step Cons.IH [of m] ok(2) Some show ?thesis by (simp add: segments_Cons)
    qed
  qed
qed (simp add: segments_def List.map_filter_def)

lemma measure_segments_bounds:
  assumes "measure_segments is64 buf t is lo hi n = Some (Inr (lo', hi', n'))"
  shows "lo' \<le> lo \<and> hi \<le> hi' \<and> n' = n + length (segments is64 buf t is) \<and>
    (\<forall>s\<in>set (segments is64 buf t is). lo' \<le> s_vaddr s \<and> s_vaddr s + s_memsz s \<le> hi')"
  using assms
proof (induction "is" arbitrary: lo hi n)
  case (Cons i "is")
  then show ?case
    by (auto simp: segments_Cons segment_at_def split: if_splits bind_splits) fastforce+
qed (simp add: segments_def List.map_filter_def)

lemma segments_seg_ok:
  assumes "measure_segments is64 buf t is lo hi n = Some (Inr r)" "length buf < 2 ^ 63"
  shows "\<forall>s\<in>set (segments is64 buf t is). seg_ok buf s"
proof
  fix s assume "s \<in> set (segments is64 buf t is)"
  then obtain i where "i \<in> set is" "segment_at is64 buf t i = Some s" by (auto simp: segments_def List.map_filter_def)
  from measure_segments_checked(2) [OF assms(1) this]
  have "unat (s_offset s) \<le> unat (flen buf)" "unat (s_filesz s) \<le> unat (flen buf) - unat (s_offset s)"
    by (auto simp: word_le_nat_alt unat_sub)
  then show "seg_ok buf s" using assms(2) by (simp add: seg_ok_def flen_def unat_of_nat)
qed

lemma guest_span_bounds:
  assumes "guest_span lo hi min_size = Inr span"
  shows "hi - lo + GUEST_STACK_SIZE \<le> span" "ucast min_size \<le> span" "span \<le> ELF_MEM_MAX" "lo + span \<le> 0x100000000"
    "hi - lo \<le> ELF_MEM_MAX"
  using assms by (auto simp: guest_span_def Let_def not_less split: if_splits)

lemma elf_load_steps:
  assumes "elf_load (Some buf) min_size m = Some (Inr (e, xl), m')"
  obtains is64 t lo hi n span where "check_header buf = Some (Inr is64)" "read_phdrs is64 buf = Some t"
    "measure_segments is64 buf t [0..<unat (ph_num t)] (- 1) 0 0 = Some (Inr (lo, hi, n))" "n \<noteq> 0"
    "guest_span lo hi min_size = Inr span" "load_image is64 buf t lo span = Some (Inr (e, xl), m')"
  using assms by (auto simp: elf_load_def split: bind_splits sum.splits if_splits)

lemma load_image_steps:
  assumes "load_image is64 buf t lo span = Some (Inr (e, xl), m')"
  shows "load_segments is64 buf t [0..<unat (ph_num t)] (mem_init lo span) = Some (True, m')"
    "mbase m' \<le> e" "e < mbase m' + msize m'" "xl = (if is64 then 64 else 32)"
  using assms by (auto simp: load_image_def not_less not_le split: bind_splits if_splits)

lemma no_wrap:
  fixes b s :: u64
  assumes "b \<le> e" "e < b + s"
  shows "unat (b + s) = unat b + unat s"
proof -
  have "unat b < unat (b + s)" using assms by (simp add: word_le_nat_alt word_less_nat_alt)
  moreover have "unat (b + s) = (unat b + unat s) mod 2 ^ 64" by (simp add: unat_word_ariths)
  ultimately show ?thesis
    using unat_bound [of b] unat_bound [of s] by (cases "unat b + unat s < 2 ^ 64") (simp_all add: le_mod_geq not_less)
qed

lemma stack_room:
  fixes lo hi span v sz :: u64
  assumes "hi - lo + GUEST_STACK_SIZE \<le> span" "hi - lo \<le> ELF_MEM_MAX" "unat (lo + span) = unat lo + unat span"
    "lo \<le> v" "v + sz \<le> hi" "unat v + unat sz < 2 ^ 64"
  shows "unat v + unat sz + unat GUEST_STACK_SIZE \<le> unat lo + unat span"
proof -
  have vs: "unat (v + sz) = unat v + unat sz" using assms(6) by (simp add: unat_word_ariths)
  then have "lo \<le> hi" using assms(4,5) by (simp add: word_le_nat_alt)
  then have d: "unat (hi - lo) = unat hi - unat lo" by (rule unat_sub)
  moreover have "unat (hi - lo + GUEST_STACK_SIZE) = unat (hi - lo) + unat GUEST_STACK_SIZE"
    using assms(2) by (simp add: unat_word_ariths word_le_nat_alt)
  ultimately show ?thesis using assms(1,5) vs \<open>lo \<le> hi\<close> by (simp add: word_le_nat_alt)
qed

subsection \<open>The symbol search\<close>

lemma sym_name_reads: "inside buf p n \<Longrightarrow> sym_name buf p n \<noteq> None"
proof (induction n arbitrary: p)
  case (Suc n)
  have "inside buf p 1" "inside buf (p + 1) n" using Suc.prems inside_offset [of buf p "Suc n" 1 n] inside_mono by auto
  from this(1) [THEN read_byte] this(2) [THEN Suc.IH] have "byte_at buf p \<noteq> None" "sym_name buf (p + 1) n \<noteq> None" .
  then show ?case by auto
qed simp

lemma sum_offset: "unat (ucast a + ucast b :: u64) = unat a + unat b" for a b :: u32
  using unat_bound [of a] unat_bound [of b] by (simp add: unat_word_ariths unat_ucast_up)

lemma next_offset:
  assumes t: "tab_ok buf t" and inv: "off = 0 \<or> st_entsize t \<le> off" "unat off + 16 < 2 ^ 32"
    and c: "off + ELF_SYMSIZE \<le> st_size t"
  shows "unat off + 16 \<le> unat (st_size t)" "unat (off + st_entsize t) = unat off + unat (st_entsize t)"
    "unat (off + st_entsize t) + 16 < 2 ^ 32" "st_entsize t \<le> off + st_entsize t"
proof -
  show a: "unat off + 16 \<le> unat (st_size t)" using c inv(2) by (simp add: word_le_nat_alt unat_word_ariths)
  then have b: "unat off + 16 \<le> 2 ^ 31" using t by (simp add: tab_ok_def)
  have "unat off + unat (st_entsize t) + 16 < 2 ^ 32"
    using inv(1) b t by (auto simp: word_le_nat_alt tab_ok_def)
  then show n: "unat (off + st_entsize t) = unat off + unat (st_entsize t)" "unat (off + st_entsize t) + 16 < 2 ^ 32"
    by (simp_all add: unat_word_ariths)
  then show "st_entsize t \<le> off + st_entsize t" by (simp add: word_le_nat_alt)
qed

lemma find_symbol_returns:
  assumes "tab_ok buf t" "off = 0 \<or> st_entsize t \<le> off" "unat off + 16 < 2 ^ 32"
    "unat (st_size t) < unat off + 16 * fuel" "fuel \<noteq> 0"
  shows "find_symbol fuel buf t name off \<noteq> None"
  using assms
proof (induction fuel arbitrary: off)
  case (Suc fuel)
  show ?case
  proof (cases "off + ELF_SYMSIZE \<le> st_size t")
    case True
    note step = next_offset [OF Suc.prems(1-3) True]
    have "inside buf (ucast (st_off t) + ucast off) 16"
      using Suc.prems(1) step(1) by (simp add: inside_def sum_offset tab_ok_def)
    then have e: "inside buf (ucast (st_off t) + ucast off) 4" "inside buf (ucast (st_off t) + ucast off + 4) 4"
      using phdr_fields inside_mono by auto
    have s: "inside buf (ucast (st_stroff t) + ucast nm) (unat (st_strsize t - nm))" if "\<not> nm \<ge> st_strsize t" for nm
      using that Suc.prems(1) by (simp add: inside_def sum_offset tab_ok_def not_le word_less_nat_alt unat_sub word_le_nat_alt)
    have "find_symbol fuel buf t name (off + st_entsize t) \<noteq> None"
      using Suc.prems step by (intro Suc.IH) (auto simp: tab_ok_def)
    then show ?thesis
      unfolding find_symbol.simps using e s read_u32 [OF e(2)] by (intro reads sym_name_reads) auto
  qed simp
qed simp

lemma find_symbol_sound: "find_symbol fuel buf t name off = Some (Some v) \<Longrightarrow> symbol_in buf t name v"
  by (induction fuel arbitrary: off) (auto simp: symbol_in_def not_le split: if_splits bind_splits)

lemma shdr_inside:
  assumes l: "length buf < 2 ^ 31" and i: "unat i < 2 ^ 16" and c: "\<not> shdr_at t i + ucast ELF_SHSIZE > flen buf"
  shows "inside buf (shdr_at t i) 40"
proof -
  define e where "e = unat (sh_entsize t)"
  have e: "e < 2 ^ 16" using unat_bound [of "sh_entsize t"] by (simp add: e_def)
  define x where "x = unat (sh_off t) + unat i * e"
  have "unat i * e \<le> 2 ^ 16 * 2 ^ 16" using i e by (intro mult_mono) simp_all
  then have s: "x + 40 < 2 ^ 64" "x < 2 ^ 64" using unat_bound [of "sh_off t"] by (simp_all add: x_def)
  have p: "shdr_at t i = of_nat x" "shdr_at t i + ucast ELF_SHSIZE = of_nat (x + 40)"
    by (simp_all add: shdr_at_def e_def x_def)
  have "unat (of_nat (x + 40) :: u64) = x + 40" "unat (of_nat x :: u64) = x" "unat (flen buf) = length buf"
    using s l by (simp_all only: unat_of_nat flen_def) simp_all
  then show ?thesis using c l unfolding p inside_def by (simp add: word_less_nat_alt not_less)
qed

lemma sum_range:
  fixes a b :: u32
  assumes "length buf < 2 ^ 31" "\<not> (ucast a :: u64) + ucast b > flen buf"
  shows "unat a + unat b \<le> length buf"
  using assms sum_offset [of a b] by (simp add: word_less_nat_alt not_less flen_def unat_of_nat)

lemma read_symtab_reads:
  assumes "inside buf s 40" "length buf < 2 ^ 31"
  shows "read_symtab buf t s \<noteq> None"
proof -
  have "unat (ucast link :: u64) < 2 ^ 16" if "link < ucast (sh_num t)" for link :: u32
    using that unat_bound [of "sh_num t"] by (simp add: word_less_nat_alt unat_ucast_up)
  then have "inside buf (shdr_at t (ucast link)) 40"
    if "\<not> link \<ge> ucast (sh_num t)" "\<not> shdr_at t (ucast link) + ucast ELF_SHSIZE > flen buf" for link :: u32
    using shdr_inside [OF assms(2) _ that(2)] that(1) by (simp add: not_le)
  from this [THEN phdr_fields] assms(1) [THEN phdr_fields] show ?thesis
    unfolding read_symtab_def by (intro reads) simp_all
qed

lemma read_symtab_ok:
  assumes "read_symtab buf t s = Some (Some st)" "length buf < 2 ^ 31" "st_entsize st < 0xfffffff0"
  shows "tab_ok buf st"
  using assms sum_range [OF assms(2)]
  by (auto simp: read_symtab_def tab_ok_def word_less_nat_alt not_le not_less word_le_nat_alt split: if_splits bind_splits)

lemma search_sections_returns:
  assumes "length buf < 2 ^ 31" "\<forall>i\<in>set is. i < 2 ^ 16"
    "\<And>i st. i \<in> set is \<Longrightarrow> symtab_at buf t i = Some st \<Longrightarrow> st_entsize st < 0xfffffff0"
  shows "search_sections buf t name is \<noteq> None"
  using assms(2,3)
proof (induction "is")
  case (Cons i "is")
  have "inside buf (shdr_at t (of_nat i)) 40" if "\<not> shdr_at t (of_nat i) + ucast ELF_SHSIZE > flen buf"
    using shdr_inside [OF assms(1) _ that] Cons.prems by (simp add: unat_of_nat)
  moreover have "find_symbol (2 ^ 32) buf st name 0 \<noteq> None"
    if "read_symtab buf t (shdr_at t (of_nat i)) = Some (Some st)" "rd_u32 buf (shdr_at t (of_nat i) + 4) = Some SHT_SYMTAB" for st
  proof -
    have "st_entsize st < 0xfffffff0" using that Cons.prems(2) [of i st] by (simp add: symtab_at_def)
    from read_symtab_ok [OF that(1) assms(1) this] unat_bound [of "st_size st"] show ?thesis
      by (intro find_symbol_returns) simp_all
  qed
  moreover have "search_sections buf t name is \<noteq> None" using Cons.prems by (intro Cons.IH) auto
  ultimately show ?case
    unfolding search_sections.simps
    by (intro reads read_symtab_reads assms(1)) (auto intro: phdr_fields)
qed simp

lemma search_sections_sound:
  "search_sections buf t name is = Some (Some v) \<Longrightarrow> \<exists>i\<in>set is. \<exists>st. symtab_at buf t i = Some st \<and> symbol_in buf st name v"
proof (induction "is")
  case (Cons i "is")
  have "search_sections buf t name is = Some (Some v) \<or>
      (\<exists>st. symtab_at buf t i = Some st \<and> find_symbol (2 ^ 32) buf st name 0 = Some (Some v))"
  proof (cases "rd_u32 buf (shdr_at t (of_nat i) + 4) = Some SHT_SYMTAB")
    case True
    with Cons.prems show ?thesis by (auto simp: symtab_at_def split: if_splits bind_splits option.splits)
  next
    case False
    with Cons.prems show ?thesis by (auto split: if_splits bind_splits)
  qed
  with Cons.IH show ?case by (auto dest: find_symbol_sound)
qed simp

lemma read_shdrs_reads: "check_header buf = Some (Inr is64) \<Longrightarrow> length buf < 2 ^ 63 \<Longrightarrow> read_shdrs buf \<noteq> None"
  unfolding read_shdrs_def using header_length(1) [of buf is64]
  by (intro reads) (auto intro!: header_fields [of 52] split: if_splits)

lemma symtabs_at: "read_shdrs buf = Some t \<Longrightarrow> i < unat (sh_num t) \<Longrightarrow> symtab_at buf t i = Some st \<Longrightarrow> st \<in> set (symtabs buf)"
  by (auto simp: symtabs_def List.map_filter_def intro!: image_eqI [of _ _ i])

lemma elf_symbol_returns:
  assumes l: "length buf < 2 ^ 31" and e: "\<forall>st\<in>set (symtabs buf). st_entsize st < 0xfffffff0"
  shows "elf_symbol (Some buf) name \<noteq> None"
proof -
  have l63: "length buf < 2 ^ 63" using l by simp
  have "search_sections buf t name [0..<unat (sh_num t)] \<noteq> None" if "read_shdrs buf = Some t" for t
    using e symtabs_at [OF that] unat_bound [of "sh_num t"] by (intro search_sections_returns l) auto
  then show ?thesis
    unfolding elf_symbol_def option.case
    by (intro reads check_header_reads read_shdrs_reads [of _ False] l63) simp_all
qed

lemma elf_symbol_found:
  assumes "elf_symbol (Some buf) name = Some (Inr v)"
  shows "\<exists>st\<in>set (symtabs buf). symbol_in buf st name v"
proof -
  obtain t where t: "read_shdrs buf = Some t" "search_sections buf t name [0..<unat (sh_num t)] = Some (Some v)"
    using assms by (auto simp: elf_symbol_def split: bind_splits sum.splits bool.splits if_splits option.splits)
  from search_sections_sound [OF t(2)] symtabs_at [OF t(1)] show ?thesis by auto
qed

subsection \<open>Properties\<close>

lemmas elf_evals = wrap_elf_def demo_elf_def elf_load_def check_header_def flen_def byte_at_def rd_u16_def
  rd_u32_def rd_u64_def read_phdrs_def phdr_at_def read_phdr_def guest_span_def load_image_def rd_word_def
  file_bytes_def mem_load_def translate_def mem_in_range_def mem_init_def shl_def

text \<open>Evaluate the first argument of a sequence before the rest.\<close>

lemma bind_first: "x = y \<Longrightarrow> Option.bind x f = Option.bind y f"
  by simp

lemmas numeral_steps = find_symbol.simps(2) [of "pred_numeral k" for k, folded numeral_eq_Suc]
  sym_name.simps(2) [of _ _ "pred_numeral k" for k, folded numeral_eq_Suc]

lemma not_le_one: "\<not> (2 :: u32) \<le> 1" "\<not> (4 :: u32) \<le> 1"
  by (simp_all add: word_le_nat_alt)

lemmas symbol_evals = elf_symbol_def read_shdrs_def shdr_at_def read_symtab_def symtabs_def symtab_at_def
  List.map_filter_def numeral_steps upt_rec not_le_one

text \<open>
  C1: loading an executable places its image. When \<open>elf_load\<close> succeeds, every byte of guest memory is
  the byte of the last loadable segment whose file part covers its address, and 0 elsewhere; memory
  starts at or below every segment, holds the file part of each, has at least 64 KiB of stack above
  each one whose end does not wrap, lies below 4 GiB, is at least as large as requested, and contains
  the entry point.
\<close>

theorem elf_load_image:
  assumes "elf_load (Some buf) min_size m = Some (Inr (e, xl), m')" "length buf < 2 ^ 63"
  shows "\<exists>is64 t. check_header buf = Some (Inr is64) \<and> read_phdrs is64 buf = Some t \<and> xl = (if is64 then 64 else 32) \<and>
     segments is64 buf t [0..<unat (ph_num t)] \<noteq> [] \<and> image_loaded buf (segments is64 buf t [0..<unat (ph_num t)]) m' \<and>
     mbase m' \<le> e \<and> unat e < unat (mbase m') + unat (msize m') \<and> unat (mbase m') + unat (msize m') \<le> 2 ^ 32 \<and>
     ucast min_size \<le> msize m' \<and> msize m' \<le> ELF_MEM_MAX"
proof -
  obtain is64 t lo hi n span where st: "check_header buf = Some (Inr is64)" "read_phdrs is64 buf = Some t"
    "measure_segments is64 buf t [0..<unat (ph_num t)] (- 1) 0 0 = Some (Inr (lo, hi, n))" "n \<noteq> 0"
    "guest_span lo hi min_size = Inr span" "load_image is64 buf t lo span = Some (Inr (e, xl), m')"
    using elf_load_steps [OF assms(1)] .
  note li = load_image_steps [OF st(6)] and gs = guest_span_bounds [OF st(5)] and mb = measure_segments_bounds [OF st(3)]
  note im = load_segments_image [OF li(1) segments_seg_ok [OF st(3) assms(2)]]
  have b: "mbase m' = lo" "msize m' = span" using im by (simp_all add: mem_init_def)
  have w: "unat (lo + span) = unat lo + unat span" using no_wrap [OF li(2,3)] b by simp
  have range: "mem_in_range m' = mem_in_range (mem_init lo span)" using b by (simp add: fun_eq_iff mem_in_range_def mem_init_def)
  have "image_loaded buf (segments is64 buf t [0..<unat (ph_num t)]) m'"
    using im mb stack_room [OF gs(1,5) w] unfolding image_loaded_def image_byte_def b range
    by (simp add: mem_init_def)
  moreover have "unat e < unat lo + unat span" using li(3) w b by (simp add: word_less_nat_alt)
  moreover have "unat lo + unat span \<le> 2 ^ 32" using gs(4) w by (simp add: word_le_nat_alt)
  ultimately show ?thesis using st(1,2,4) li mb gs b by auto
qed

theorem elf_load_image_witness:
  "\<exists>m'. elf_load (Some (demo_elf 16 0 0 0)) 0 m = Some (Inr (0x1000, 32), m') \<and> unat (mbase m') + unat (msize m') \<le> 2 ^ 32"
proof -
  obtain m' where "elf_load (Some (demo_elf 16 0 0 0)) 0 m = Some (Inr (0x1000, 32), m')"
    using that by (simp add: elf_evals)
  with elf_load_image [OF this] show ?thesis by (auto simp: demo_elf_def)
qed

text \<open>
  C2: the loader reads only inside the file, whatever its bytes are, when the file is 32-bit or its
  program-header table is said to start below \<open>2\<^sup>6\<^sup>3\<close>.
\<close>

theorem elf_load_in_bounds:
  assumes "length buf < 2 ^ 63" "buf ! 4 = 2 \<Longrightarrow> \<exists>p < 2 ^ 63. rd_u64 buf 32 = Some p"
  shows "elf_load (Some buf) min_size m \<noteq> None"
  using elf_load_reads [OF assms(1)] assms(2) by force

theorem elf_load_in_bounds_witness: "elf_load (Some (demo_elf 16 0 0 0)) 0 m \<noteq> None"
  by (rule elf_load_in_bounds) (simp_all add: demo_elf_def)

text \<open>
  C3: the symbol search ends, reads only inside a file below 2 GiB whose symbol tables have entries
  shorter than \<open>2\<^sup>3\<^sup>2 - 16\<close>, and an address it returns belongs to a symbol of that name in one of the
  tables.
\<close>

theorem elf_symbol_correct:
  assumes "length buf < 2 ^ 31" "\<forall>st\<in>set (symtabs buf). st_entsize st < 0xfffffff0"
  shows "\<exists>r. elf_symbol (Some buf) name = Some r \<and>
    (case r of Inl _ \<Rightarrow> True | Inr v \<Rightarrow> \<exists>st\<in>set (symtabs buf). symbol_in buf st name v)"
  using elf_symbol_returns [OF assms, of name] elf_symbol_found [of buf name] by (auto split: sum.split)

theorem elf_symbol_correct_witness:
  "elf_symbol (Some (demo_elf 16 0 0 0)) [0x61] = Some (Inr 0x1004) \<and>
   (\<exists>st\<in>set (symtabs (demo_elf 16 0 0 0)). symbol_in (demo_elf 16 0 0 0) st [0x61] 0x1004)"
proof -
  have e: "elf_symbol (Some (demo_elf 16 0 0 0)) [0x61] = Some (Inr 0x1004)"
    by (simp add: elf_evals symbol_evals cong: bind_first)
  moreover have "length (demo_elf 16 0 0 0) < 2 ^ 31" "\<forall>st\<in>set (symtabs (demo_elf 16 0 0 0)). st_entsize st < 0xfffffff0"
    by (simp_all add: elf_evals symbol_evals cong: bind_first)
  ultimately show ?thesis using elf_symbol_correct [of "demo_elf 16 0 0 0" "[0x61]"] by simp
qed

text \<open>
  C4: two range checks of the loader wrap around. A 64-bit header whose program-header table starts
  just below \<open>2\<^sup>6\<^sup>4\<close> passes the check of \<open>elf_load\<close>, and a symbol table whose entry size is \<open>2\<^sup>3\<^sup>2 - 16\<close>
  passes that of \<open>elf_symbol\<close>; both then read outside the file.
\<close>

theorem elf_checks_wrap:
  "elf_load (Some wrap_elf) 0 m = None \<and> elf_symbol (Some (demo_elf 0xf0 0xff 0xff 0xff)) [0x62] = None"
  by (simp add: elf_evals symbol_evals cong: bind_first)

end
