(* ===== verification/Spec2Isabelle.thy ===== *)
theory Spec2Isabelle
  imports Rvc Dma_Safety Alu_Props Cache_Model Pipeline_Model Step_Props Softfloat_Int Elf
begin

text \<open>
  Verification of quanta, a RISC-V emulator in C (RV32 and RV64 with the M, A, F, D, C and
  bit-manipulation extensions, M, S and U privilege levels, Sv32 and Sv39 paging, and the devices of
  a small board). The sources are under \<open>src/src/\<close>.

  \<^bold>\<open>The program and how its parts interact.\<close> A hart (\<open>CPU\<close>, \<open>cpu.h\<close>) runs \<open>cpu_step\<close> (\<open>cpu.c\<close>): it
  lets the firmware timer and the interrupt logic run, translates the pc (\<open>mmu.c\<close>), fetches through
  the decode cache (\<open>decodecache.h\<close>), widens a compressed instruction (\<open>rvc.c\<close>), decodes it
  (\<open>decode.h\<close>) and executes it. Loads and stores go through the MMU to guest memory (\<open>memory.c\<close>),
  which routes device windows to the platform (\<open>device.c\<close>: CLINT, PLIC, UART, test finisher, virtio
  block and network devices, the last two with DMA into the same memory). Floating point is
  computed by \<open>softfloat.c\<close>. An ECALL that no guest handler takes is served by \<open>sbi.c\<close> or
  \<open>syscall.c\<close>. The cache and pipeline models (\<open>cache.c\<close>, \<open>pipeline.c\<close>) observe the run.

  \<^bold>\<open>The model.\<close> C structs are records with the C fields, \<open>uintN_t\<close> is \<open>N word\<close>, so arithmetic wraps
  as in C; pointers that may be \<open>NULL\<close> are options. Arrays indexed by guest-visible words are
  functions from words. Functions that change one struct return it updated. The instruction layer
  reads and writes several harts and the memory, and is written in the state monad over the
  record \<open>Machine\<close> (all harts, the memory with its platform, and the console output), theory \<open>Cpu\<close>.

  \<^item> \<open>Quanta_Prelude\<close>: word types, C shifts, the simp collections, generic word lemmas.
  \<^item> \<open>Decode\<close>, \<open>Rvc\<close>: \<open>decode.h\<close> and \<open>rvc.c\<close>. Every expansion is a legal 32-bit instruction;
    compressed jumps and branches go where the compressed encoding says.
  \<^item> \<open>Device\<close>, \<open>Bytes\<close>, \<open>Virtio\<close>: \<open>device.c\<close>. The PLIC picks the best source, claim and complete are
    inverse, the interrupt lines of a hart are exactly what the devices assert.
  \<^item> \<open>Memory\<close>: \<open>memory.c\<close> and the MMIO dispatch. A read returns the bytes last written, at every
    width; an access out of range only sets the fault.
  \<^item> \<open>Dma_Safety\<close>: no guest store, and no DMA it starts, writes outside RAM; the request loops of the
    virtio devices end and serve every request; disk writes read back; the receive FIFO refines a
    bounded queue.
  \<^item> \<open>Cpu\<close>, \<open>Alu\<close>, \<open>Alu_Props\<close>: the hart's record and the integer instructions, compared with
    their mathematical meaning (products, quotients, bit counts, carry-less products), and RV32
    computed on the 64-bit datapath compared with 32-bit arithmetic.
  \<^item> \<open>Mmu\<close>: \<open>mmu.c\<close>. A successful translation satisfied the permission check of a leaf of the guest's
    page table; the TLB is transparent, and coherence is an invariant.
  \<^item> \<open>Csr\<close>: CSR access, trap entry and return, interrupt choice, and the interrupt horizon that the
    JIT uses to run without polling.
  \<^item> \<open>Cache_Model\<close>, \<open>Pipeline_Model\<close>: the cache refines an LRU list per set; the cycle count has a
    closed form.
  \<^item> \<open>Firmware\<close>: \<open>sbi.c\<close> and \<open>syscall.c\<close>.
  \<^item> \<open>Softfloat\<close>: \<open>softfloat.c\<close>. \<open>Wide_Int\<close> shows that its 128- and 256-bit helpers compute sums,
    products, quotients and roots of naturals; \<open>Rounding\<close> states what a correctly rounded result is,
    with real numbers, and proves it of the one rounding function, in the locale \<open>ieee_format\<close> that
    both formats interpret; \<open>Softfloat_Props\<close> and \<open>Softfloat_Int\<close> conclude that addition,
    multiplication, division, square root, fused multiply-add and the conversions round the exact
    result once, and that comparisons order the values.
  \<^item> \<open>Exec\<close>: instruction execution, fetch with the decode cache, and \<open>cpu_step\<close> itself.
  \<^item> \<open>Step_Rel\<close>: the frame rules of the machine monad and the locales \<open>exec_rel\<close>, \<open>body_rel\<close> and
    \<open>step_rel\<close>: a relation that a few primitive changes respect is respected by every instruction
    and by the whole step.
  \<^item> \<open>Step_Props\<close>: six interpretations of those locales and what follows for every program: memory
    stays confined, registers stay sign-extended on RV32, unprivileged code cannot change the
    privileged state, siblings are left alone, and a step that completes retires one instruction.

  \<^bold>\<open>Bounds and fuel.\<close> Every C loop has a bound that the code itself names (descriptor chains, ring
  indices, page-table levels, bit counts) and is a recursion over that bound, so no definition takes
  fuel. The ring-draining loop of the virtio devices ends because its index catches up with a
  16-bit counter; this is proved.

  \<^bold>\<open>Not modelled.\<close> Host input and output is represented by its effect on the guest only: console
  bytes are appended to a list, the disk is a byte block, received packets are an argument.
  Diagnostics on \<open>stderr\<close> and printed reports are left out. \<open>jit.c\<close> emits host machine code; only the
  flush a guest instruction can trigger appears. \<open>quanta.c\<close> (the embedding API), \<open>netstack.c\<close> (host
  sockets), \<open>elf.c\<close>, \<open>dtb.c\<close>, \<open>disasm.c\<close>, \<open>gdbstub.c\<close> and \<open>main.c\<close> are outside the development.
\<close>

end
